(* ===== verification/Prelude.thy ===== *)
theory Prelude
  imports Main "HOL-Library.Sublist" "HOL-Library.Char_ord"
begin

text \<open>
  What every component shares: the collections of rewrite rules (\<open>go_string\<close> for the string
  functions of Go's standard library, \<open>lifecycle\<close> for the status machines), the string
  functions themselves, decimal printing of numbers, results that can fail, and the generic
  facts on lists that the component proofs use.

  A Go string is a sequence of bytes, and so is a HOL \<open>string\<close> here: a \<open>char\<close> is one byte,
  and a code point beyond ASCII is the bytes of its UTF-8 form.
\<close>

named_theorems go_string
named_theorems lifecycle

section \<open>Errors as values\<close>

text \<open>
  A Go function that returns \<open>(T, error)\<close> returns \<open>Inl\<close> of the error here, or \<open>Inr\<close> of
  the value.
\<close>

type_synonym 'a result = "string + 'a"

definition result_bind :: "'e + 'a \<Rightarrow> ('a \<Rightarrow> 'e + 'b) \<Rightarrow> 'e + 'b" where
  "result_bind r f = (case r of Inl e \<Rightarrow> Inl e | Inr x \<Rightarrow> f x)"

lemma result_bind_simps [simp]:
  "result_bind (Inl e) f = Inl e"
  "result_bind (Inr x) f = f x"
  by (simp_all add: result_bind_def)

lemma result_bind_Inr:
  "result_bind r f = Inr y \<longleftrightarrow> (\<exists>x. r = Inr x \<and> f x = Inr y)"
  by (cases r) simp_all

section \<open>Strings\<close>

definition has_prefix :: "string \<Rightarrow> string \<Rightarrow> bool" where
  "has_prefix s p \<longleftrightarrow> take (length p) s = p"

definition has_suffix :: "string \<Rightarrow> string \<Rightarrow> bool" where
  "has_suffix s p \<longleftrightarrow> length p \<le> length s \<and> drop (length s - length p) s = p"

definition trim_prefix :: "string \<Rightarrow> string \<Rightarrow> string" where
  "trim_prefix s p = (if has_prefix s p then drop (length p) s else s)"

definition trim_suffix :: "string \<Rightarrow> string \<Rightarrow> string" where
  "trim_suffix s p = (if has_suffix s p then take (length s - length p) s else s)"

text \<open>\<open>strings.CutPrefix\<close>: the rest after a prefix, when the prefix is there.\<close>

definition cut_prefix :: "string \<Rightarrow> string \<Rightarrow> string option" where
  "cut_prefix s p = (if has_prefix s p then Some (drop (length p) s) else None)"

lemma has_prefix_append [simp, go_string]: "has_prefix (p @ s) p"
  by (simp add: has_prefix_def)

lemma has_prefix_iff [go_string]: "has_prefix s p \<longleftrightarrow> (\<exists>t. s = p @ t)"
  unfolding has_prefix_def by (metis append_eq_conv_conj append_take_drop_id)

lemma has_prefix_Nil [simp]: "has_prefix s []"
  by (simp add: has_prefix_def)

lemma has_suffix_append [simp, go_string]: "has_suffix (s @ p) p"
  by (simp add: has_suffix_def)

lemma has_suffix_iff: "has_suffix s p \<longleftrightarrow> (\<exists>t. s = t @ p)"
  unfolding has_suffix_def by (metis append_take_drop_id diff_add_inverse2 le_add2
      append_eq_conv_conj length_append)

lemma trim_prefix_append [simp, go_string]: "trim_prefix (p @ s) p = s"
  by (simp add: trim_prefix_def)

lemma trim_suffix_append [simp, go_string]: "trim_suffix (s @ p) p = s"
  by (simp add: trim_suffix_def)

lemma trim_suffix_other [go_string]: "\<not> has_suffix s p \<Longrightarrow> trim_suffix s p = s"
  by (simp add: trim_suffix_def)

lemma has_suffix_single [simp, go_string]:
  "has_suffix s [c] \<longleftrightarrow> s \<noteq> [] \<and> last s = c"
proof (cases s rule: rev_cases)
  case Nil
  then show ?thesis by (simp add: has_suffix_def)
next
  case (snoc t x)
  then show ?thesis by (auto simp: has_suffix_def)
qed

lemma cut_prefix_append [simp, go_string]: "cut_prefix (p @ s) p = Some s"
  by (simp add: cut_prefix_def)

lemma cut_prefix_Some: "cut_prefix s p = Some t \<longleftrightarrow> s = p @ t"
  by (auto simp: cut_prefix_def has_prefix_iff)

text \<open>\<open>strings.Join\<close>, \<open>strings.Split\<close> on a one-byte separator, \<open>strings.ReplaceAll\<close> on
  single bytes.\<close>

fun join :: "string list \<Rightarrow> string \<Rightarrow> string" where
  "join [] sep = []"
| "join [x] sep = x"
| "join (x # y # xs) sep = x @ sep @ join (y # xs) sep"

fun split_on :: "char \<Rightarrow> string \<Rightarrow> string list" where
  "split_on c [] = [[]]"
| "split_on c (x # xs) =
     (if x = c then [] # split_on c xs
      else (case split_on c xs of [] \<Rightarrow> [[x]] | y # ys \<Rightarrow> (x # y) # ys))"

definition replace_char :: "char \<Rightarrow> char \<Rightarrow> string \<Rightarrow> string" where
  "replace_char a b = map (\<lambda>c. if c = a then b else c)"

lemma split_on_not_Nil [simp]: "split_on c s \<noteq> []"
  by (induction s) (auto split: list.splits)

lemma split_on_no_sep: "c \<notin> set s \<Longrightarrow> split_on c s = [s]"
  by (induction s) auto

lemma split_on_append_sep:
  "c \<notin> set s \<Longrightarrow> split_on c (s @ c # t) = s # split_on c t"
  by (induction s) auto

lemma join_split_on: "join (split_on c s) [c] = s"
proof (induction s)
  case Nil
  then show ?case by simp
next
  case (Cons x xs)
  obtain y ys where "split_on c xs = y # ys"
    by (metis split_on_not_Nil neq_Nil_conv)
  with Cons show ?case by (cases ys) auto
qed

lemma split_on_join:
  "xs \<noteq> [] \<Longrightarrow> \<forall>x \<in> set xs. c \<notin> set x \<Longrightarrow> split_on c (join xs [c]) = xs"
  by (induction xs "[c]" rule: join.induct) (auto simp: split_on_no_sep split_on_append_sep)

lemma split_on_parts: "\<forall>x \<in> set (split_on c s). c \<notin> set x"
  by (induction s) (auto split: list.splits)

section \<open>White space\<close>

text \<open>
  The white space \<open>strings.TrimSpace\<close> and \<open>bytes.TrimSpace\<close> take off: the ASCII blanks, and
  the UTF-8 forms of the Unicode space characters (\<open>unicode.IsSpace\<close>).
\<close>

definition space_forms :: "string list" where
  "space_forms =
     [[CHR 0x09], [CHR 0x0A], [CHR 0x0B], [CHR 0x0C], [CHR 0x0D], [CHR '' ''],
      [CHR 0xC2, CHR 0x85], [CHR 0xC2, CHR 0xA0], [CHR 0xE1, CHR 0x9A, CHR 0x80]]
     @ map (\<lambda>n. [CHR 0xE2, CHR 0x80, char_of (0x80 + n)]) [0..<11]
     @ [[CHR 0xE2, CHR 0x80, CHR 0xA8], [CHR 0xE2, CHR 0x80, CHR 0xA9],
        [CHR 0xE2, CHR 0x80, CHR 0xAF], [CHR 0xE2, CHR 0x81, CHR 0x9F],
        [CHR 0xE3, CHR 0x80, CHR 0x80]]"

lemma space_forms_nonempty: "w \<in> set space_forms \<Longrightarrow> w \<noteq> []"
  by (auto simp: space_forms_def)

function trim_left :: "string \<Rightarrow> string" where
  "trim_left s =
     (case find (\<lambda>w. has_prefix s w) space_forms of
        None \<Rightarrow> s
      | Some w \<Rightarrow> trim_left (drop (length w) s))"
  by pat_completeness auto
termination
proof (relation "measure length", goal_cases)
  case 1
  show ?case by simp
next
  case (2 s w)
  then have "w \<in> set space_forms" and "has_prefix s w"
    by (auto simp: find_Some_iff in_set_conv_nth)
  then have "w \<noteq> []" and "length w \<le> length s"
    using space_forms_nonempty by (auto simp: has_prefix_iff)
  then show ?case by (cases w) auto
qed

declare trim_left.simps [simp del]

function trim_right :: "string \<Rightarrow> string" where
  "trim_right s =
     (case find (\<lambda>w. has_suffix s w) space_forms of
        None \<Rightarrow> s
      | Some w \<Rightarrow> trim_right (take (length s - length w) s))"
  by pat_completeness auto
termination
proof (relation "measure length", goal_cases)
  case 1
  show ?case by simp
next
  case (2 s w)
  then have "w \<in> set space_forms" and "has_suffix s w"
    by (auto simp: find_Some_iff in_set_conv_nth)
  then have "w \<noteq> []" and "length w \<le> length s"
    using space_forms_nonempty by (auto simp: has_suffix_iff)
  then show ?case by (cases w) auto
qed

declare trim_right.simps [simp del]

definition trim_space :: "string \<Rightarrow> string" where
  "trim_space s = trim_right (trim_left s)"

lemma trim_left_id: "\<forall>w \<in> set space_forms. \<not> has_prefix s w \<Longrightarrow> trim_left s = s"
  by (subst trim_left.simps) (auto simp: find_None_iff split: option.splits dest: find_Some_iff [THEN iffD1])

lemma trim_right_id: "\<forall>w \<in> set space_forms. \<not> has_suffix s w \<Longrightarrow> trim_right s = s"
  by (subst trim_right.simps) (auto simp: find_None_iff split: option.splits dest: find_Some_iff [THEN iffD1])

lemma trim_left_Nil [simp]: "trim_left [] = []"
  by (rule trim_left_id) (use space_forms_nonempty in \<open>auto simp: has_prefix_def\<close>)

lemma trim_right_Nil [simp]: "trim_right [] = []"
  by (rule trim_right_id) (use space_forms_nonempty in \<open>auto simp: has_suffix_def\<close>)

lemma trim_space_Nil [simp]: "trim_space [] = []"
  by (simp add: trim_space_def)

text \<open>A byte that is in no white space stays.\<close>

definition space_bytes :: "string" where
  "space_bytes = concat space_forms"

lemma trim_left_keeps: "c \<in> set s \<Longrightarrow> c \<notin> set space_bytes \<Longrightarrow> c \<in> set (trim_left s)"
proof (induction s rule: trim_left.induct)
  case (1 s)
  show ?case
  proof (cases "find (\<lambda>w. has_prefix s w) space_forms")
    case None
    then show ?thesis using "1.prems" by (subst trim_left.simps) simp
  next
    case (Some w)
    then have "w \<in> set space_forms" "has_prefix s w" by (auto simp: find_Some_iff in_set_conv_nth)
    then obtain t where t: "s = w @ t" by (auto simp: has_prefix_iff)
    have "c \<notin> set w" using "1.prems"(2) \<open>w \<in> set space_forms\<close> by (auto simp: space_bytes_def)
    then have "c \<in> set (drop (length w) s)" using "1.prems"(1) t by simp
    with "1.IH" [OF Some] "1.prems"(2) Some show ?thesis by (subst trim_left.simps) simp
  qed
qed

lemma trim_right_keeps: "c \<in> set s \<Longrightarrow> c \<notin> set space_bytes \<Longrightarrow> c \<in> set (trim_right s)"
proof (induction s rule: trim_right.induct)
  case (1 s)
  show ?case
  proof (cases "find (\<lambda>w. has_suffix s w) space_forms")
    case None
    then show ?thesis using "1.prems" by (subst trim_right.simps) simp
  next
    case (Some w)
    then have "w \<in> set space_forms" "has_suffix s w" by (auto simp: find_Some_iff in_set_conv_nth)
    then obtain t where t: "s = t @ w" by (auto simp: has_suffix_iff)
    have "c \<notin> set w" using "1.prems"(2) \<open>w \<in> set space_forms\<close> by (auto simp: space_bytes_def)
    then have "c \<in> set (take (length s - length w) s)" using "1.prems"(1) t by simp
    with "1.IH" [OF Some] "1.prems"(2) Some show ?thesis by (subst trim_right.simps) simp
  qed
qed

lemma trim_space_keeps: "c \<in> set s \<Longrightarrow> c \<notin> set space_bytes \<Longrightarrow> trim_space s \<noteq> []"
  using trim_right_keeps [OF trim_left_keeps] by (fastforce simp: trim_space_def)

section \<open>Decimal numbers\<close>

text \<open>\<open>strconv.Itoa\<close> of a number that is not negative, and \<open>fmt\<close>'s \<open>%d\<close> of one.\<close>

definition digit_char :: "nat \<Rightarrow> char" where
  "digit_char d = char_of (48 + d)"

fun show_nat :: "nat \<Rightarrow> string" where
  "show_nat n = (if n < 10 then [digit_char n] else show_nat (n div 10) @ [digit_char (n mod 10)])"

declare show_nat.simps [simp del]

definition show_int :: "int \<Rightarrow> string" where
  "show_int i = (if i < 0 then CHR ''-'' # show_nat (nat (- i)) else show_nat (nat i))"

definition is_digit :: "char \<Rightarrow> bool" where
  "is_digit c \<longleftrightarrow> (48::nat) \<le> of_char c \<and> of_char c \<le> (57::nat)"

definition digit_val :: "char \<Rightarrow> nat" where
  "digit_val c = of_char c - 48"

text \<open>The value of a string of digits, most significant first.\<close>

definition read_nat :: "string \<Rightarrow> nat" where
  "read_nat s = foldl (\<lambda>n c. 10 * n + digit_val c) 0 s"

lemma digit_char_digit [simp]: "d < 10 \<Longrightarrow> is_digit (digit_char d)"
  by (simp add: is_digit_def digit_char_def)

lemma digit_val_char [simp]: "d < 10 \<Longrightarrow> digit_val (digit_char d) = d"
  by (simp add: digit_val_def digit_char_def)

lemma show_nat_digits: "list_all is_digit (show_nat n)"
proof (induction n rule: show_nat.induct)
  case (1 n)
  show ?case
  proof (cases "n < 10")
    case True
    then show ?thesis by (subst show_nat.simps) simp
  next
    case False
    with 1 show ?thesis by (subst show_nat.simps) simp
  qed
qed

lemma show_nat_not_Nil [simp]: "show_nat n \<noteq> []"
  by (subst show_nat.simps) simp

lemma read_nat_snoc: "read_nat (s @ [c]) = 10 * read_nat s + digit_val c"
  by (simp add: read_nat_def)

lemma read_show_nat [simp]: "read_nat (show_nat n) = n"
proof (induction n rule: show_nat.induct)
  case (1 n)
  show ?case
  proof (cases "n < 10")
    case True
    then show ?thesis by (subst show_nat.simps) (simp add: read_nat_def)
  next
    case False
    with 1 show ?thesis by (subst show_nat.simps) (simp add: read_nat_snoc)
  qed
qed

lemma show_nat_inject [simp]: "show_nat m = show_nat n \<longleftrightarrow> m = n"
  by (metis read_show_nat)

lemma show_nat_no_char: "\<not> is_digit c \<Longrightarrow> c \<notin> set (show_nat n)"
  using show_nat_digits [of n] by (auto simp: list_all_iff)

section \<open>Generic facts on lists\<close>

text \<open>The index of the first element with a property (\<open>slices.IndexFunc\<close>), \<open>None\<close> for -1.\<close>

fun index_of :: "('a \<Rightarrow> bool) \<Rightarrow> 'a list \<Rightarrow> nat option" where
  "index_of P [] = None"
| "index_of P (x # xs) = (if P x then Some 0 else map_option Suc (index_of P xs))"

lemma index_of_None: "index_of P xs = None \<longleftrightarrow> (\<forall>x \<in> set xs. \<not> P x)"
  by (induction xs) auto

lemma index_of_Some:
  "index_of P xs = Some i \<Longrightarrow> i < length xs \<and> P (xs ! i) \<and> (\<forall>k < i. \<not> P (xs ! k))"
proof (induction xs arbitrary: i)
  case Nil
  then show ?case by simp
next
  case (Cons x xs)
  show ?case
  proof (cases "P x")
    case True
    with Cons.prems show ?thesis by simp
  next
    case False
    with Cons.prems obtain j where j: "index_of P xs = Some j" and i: "i = Suc j"
      by auto
    from Cons.IH [OF j] False i show ?thesis
      by (auto simp: nth_Cons split: nat.splits)
  qed
qed

lemma index_of_append:
  "index_of P (xs @ ys) =
     (case index_of P xs of Some i \<Rightarrow> Some i
      | None \<Rightarrow> map_option (\<lambda>j. length xs + j) (index_of P ys))"
  by (induction xs; cases "index_of P ys") (auto split: option.splits)

lemma index_of_cong:
  "(\<And>x. x \<in> set xs \<Longrightarrow> P x = Q x) \<Longrightarrow> index_of P xs = index_of Q xs"
  by (induction xs) auto

lemma index_of_map: "index_of P (map f xs) = index_of (P \<circ> f) xs"
  by (induction xs) auto

text \<open>The last element with a property, by which a Go map keeps the last of several writes.\<close>

lemma find_append: "find P (xs @ ys) = (case find P xs of None \<Rightarrow> find P ys | Some x \<Rightarrow> Some x)"
  by (induction xs) auto

lemma find_SomeD: "find P xs = Some x \<Longrightarrow> P x \<and> x \<in> set xs"
  by (induction xs) (auto split: if_splits)

end
