(* ===== verification/Run_State.thy ===== *)
theory Run_State
  imports Prelude
begin

text \<open>
  The status machines of package \<open>model\<close>: the state of an agent run (\<open>agent_run.go\<close>), the
  status of one tool invocation (\<open>tool_contracts.go\<close>), interrupts (\<open>interrupt.go\<close>) and
  subagents (\<open>subagent_types.go\<close>), with the string forms \<open>sql.go\<close> stores.

  In Go each of these is a named string type, so a value may be a string none of the constants
  has; every datatype here has one more constructor for those, and the two conversions with the
  string form. What a status machine promises its callers is the locale \<open>status_machine\<close>,
  interpreted for runs and for tool invocations.
\<close>

section \<open>What a status machine promises\<close>

text \<open>
  \<open>terminal\<close> says a status is final, \<open>can\<close> is the guard of a transition, and \<open>sources\<close> is the
  list a conditional update uses in its WHERE clause: the statuses that may move to a given
  one. The laws: a final status cannot be left, and the sources are exactly the statuses the
  guard accepts.
\<close>

locale status_machine =
  fixes terminal :: "'s \<Rightarrow> bool"
    and can :: "'s \<Rightarrow> 's \<Rightarrow> bool"
    and sources :: "'s \<Rightarrow> 's list"
  assumes terminal_stuck: "terminal s \<Longrightarrow> \<not> can s t"
    and sources_exact: "s \<in> set (sources t) \<longleftrightarrow> can s t"
    and sources_distinct: "distinct (sources t)"
begin

inductive reaches :: "'s \<Rightarrow> 's \<Rightarrow> bool" where
  here: "reaches s s"
| move: "reaches s t \<Longrightarrow> can t u \<Longrightarrow> reaches s u"

text \<open>A conditional update: the stored status changes only when it is one of the sources.\<close>

definition update_where :: "'s \<Rightarrow> 's \<Rightarrow> 's" where
  "update_where stored next = (if stored \<in> set (sources next) then next else stored)"

fun run_updates :: "'s \<Rightarrow> 's list \<Rightarrow> 's" where
  "run_updates s [] = s"
| "run_updates s (t # ts) = run_updates (update_where s t) ts"

lemma update_where_can: "update_where s t = (if can s t then t else s)"
  by (simp add: update_where_def sources_exact)

lemma terminal_reaches: "reaches s t \<Longrightarrow> terminal s \<Longrightarrow> t = s"
  by (induction rule: reaches.induct) (auto dest: terminal_stuck)

lemma terminal_update: "terminal s \<Longrightarrow> update_where s t = s"
  by (simp add: update_where_can terminal_stuck)

lemma terminal_run: "terminal s \<Longrightarrow> run_updates s ts = s"
  by (induction ts) (simp_all add: terminal_update)

lemma reaches_trans: "reaches t u \<Longrightarrow> reaches s t \<Longrightarrow> reaches s u"
  by (induction rule: reaches.induct) (auto intro: reaches.intros)

lemma update_reaches: "reaches s (update_where s t)"
  by (auto simp: update_where_can intro: reaches.intros)

lemma run_reaches: "reaches s (run_updates s ts)"
  by (induction ts arbitrary: s) (auto intro: reaches.here reaches_trans update_reaches)

text \<open>Nothing moves a run that any of its updates has made final.\<close>

lemma run_append_terminal:
  "terminal (run_updates s ts) \<Longrightarrow> run_updates s (ts @ us) = run_updates s ts"
proof (induction ts arbitrary: s)
  case Nil
  then show ?case by (simp add: terminal_run)
next
  case (Cons t ts)
  then show ?case by simp
qed

lemma sources_not_terminal: "s \<in> set (sources t) \<Longrightarrow> \<not> terminal s"
  using sources_exact terminal_stuck by blast

end

section \<open>Agent runs (agent_run.go)\<close>

datatype agent_run_state =
    Submitted | Working | InputRequired | AuthRequired
  | Completed | Failed | Canceled | Rejected
  | OtherRunState string

text \<open>The string form (\<open>AgentRunState.Value\<close> of \<open>sql.go\<close>), and reading one.\<close>

fun run_state_value :: "agent_run_state \<Rightarrow> string" where
  "run_state_value Submitted = ''submitted''"
| "run_state_value Working = ''working''"
| "run_state_value InputRequired = ''input_required''"
| "run_state_value AuthRequired = ''auth_required''"
| "run_state_value Completed = ''completed''"
| "run_state_value Failed = ''failed''"
| "run_state_value Canceled = ''canceled''"
| "run_state_value Rejected = ''rejected''"
| "run_state_value (OtherRunState s) = s"

definition run_state_of :: "string \<Rightarrow> agent_run_state" where
  "run_state_of s =
     (case find (\<lambda>c. run_state_value c = s)
             [Submitted, Working, InputRequired, AuthRequired, Completed, Failed, Canceled, Rejected]
      of Some c \<Rightarrow> c | None \<Rightarrow> OtherRunState s)"

definition run_is_terminal :: "agent_run_state \<Rightarrow> bool" where
  "run_is_terminal s \<longleftrightarrow> s = Completed \<or> s = Failed \<or> s = Canceled \<or> s = Rejected"

definition run_is_interrupted :: "agent_run_state \<Rightarrow> bool" where
  "run_is_interrupted s \<longleftrightarrow> s = InputRequired \<or> s = AuthRequired"

definition run_is_settled :: "agent_run_state \<Rightarrow> bool" where
  "run_is_settled s \<longleftrightarrow> run_is_terminal s \<or> run_is_interrupted s"

definition run_can_transition_to :: "agent_run_state \<Rightarrow> agent_run_state \<Rightarrow> bool" where
  "run_can_transition_to s next =
     (if run_is_terminal s then False
      else (case s of
          Submitted \<Rightarrow> next = Working \<or> next = Completed \<or> next = Failed \<or> next = Canceled
        | Working \<Rightarrow> next = InputRequired \<or> next = AuthRequired \<or> next = Completed \<or> next = Failed
            \<or> next = Canceled
        | InputRequired \<Rightarrow> next = Working \<or> next = Failed \<or> next = Canceled
        | AuthRequired \<Rightarrow> next = Working \<or> next = Failed \<or> next = Canceled
        | _ \<Rightarrow> False))"

definition valid_agent_run_source_states :: "agent_run_state \<Rightarrow> agent_run_state list" where
  "valid_agent_run_source_states next =
     filter (\<lambda>s. run_can_transition_to s next) [Submitted, Working, InputRequired, AuthRequired]"

lemmas run_state_defs [lifecycle] =
  run_is_terminal_def run_is_interrupted_def run_is_settled_def run_can_transition_to_def
  valid_agent_run_source_states_def

interpretation run_machine:
  status_machine run_is_terminal run_can_transition_to valid_agent_run_source_states
proof (unfold_locales, goal_cases)
  case (1 s t)
  then show ?case by (simp add: run_can_transition_to_def)
next
  case (2 s t)
  show ?case by (cases s) (auto simp: lifecycle)
next
  case (3 t)
  show ?case by (simp add: lifecycle)
qed

text \<open>Reachable run states: what a run that starts as submitted can be in.\<close>

inductive run_reachable :: "agent_run_state \<Rightarrow> bool" where
  start: "run_reachable Submitted"
| step: "run_reachable s \<Longrightarrow> run_can_transition_to s t \<Longrightarrow> run_reachable t"

inductive_cases run_reachable_other: "run_reachable (OtherRunState s)"

lemma run_can_known: "run_can_transition_to s t \<Longrightarrow> t \<noteq> OtherRunState x \<and> t \<noteq> Submitted \<and> t \<noteq> Rejected"
  by (cases s) (auto simp: lifecycle)

lemma run_lifecycle_known: "run_reachable s \<Longrightarrow> s \<noteq> Rejected \<and> s \<noteq> OtherRunState x"
  by (cases rule: run_reachable.cases) (auto dest: run_can_known)

section \<open>Tool invocations (tool_contracts.go)\<close>

datatype tool_invocation_status =
    TPending | TInProgress | TAwaitingInput | TAwaitingApproval | TWaiting
  | TCompleted | TFailed | TCancelled
  | OtherToolStatus string

fun tool_status_value :: "tool_invocation_status \<Rightarrow> string" where
  "tool_status_value TPending = ''pending''"
| "tool_status_value TInProgress = ''in_progress''"
| "tool_status_value TAwaitingInput = ''awaiting_input''"
| "tool_status_value TAwaitingApproval = ''awaiting_approval''"
| "tool_status_value TWaiting = ''waiting''"
| "tool_status_value TCompleted = ''completed''"
| "tool_status_value TFailed = ''failed''"
| "tool_status_value TCancelled = ''cancelled''"
| "tool_status_value (OtherToolStatus s) = s"

definition tool_status_of :: "string \<Rightarrow> tool_invocation_status" where
  "tool_status_of s =
     (case find (\<lambda>c. tool_status_value c = s)
             [TPending, TInProgress, TAwaitingInput, TAwaitingApproval, TWaiting, TCompleted, TFailed,
              TCancelled]
      of Some c \<Rightarrow> c | None \<Rightarrow> OtherToolStatus s)"

definition tool_is_terminal :: "tool_invocation_status \<Rightarrow> bool" where
  "tool_is_terminal s \<longleftrightarrow> s = TCompleted \<or> s = TFailed \<or> s = TCancelled"

definition tool_can_transition_to ::
  "tool_invocation_status \<Rightarrow> tool_invocation_status \<Rightarrow> bool" where
  "tool_can_transition_to s next =
     (if tool_is_terminal s then False
      else if tool_is_terminal next then
        (if s = TAwaitingApproval \<and> next = TCompleted then False else True)
      else (case s of
          TPending \<Rightarrow> next = TInProgress \<or> next = TAwaitingApproval
        | TInProgress \<Rightarrow> next = TAwaitingInput \<or> next = TWaiting
        | TAwaitingInput \<Rightarrow> next = TInProgress
        | TAwaitingApproval \<Rightarrow> next = TInProgress
        | _ \<Rightarrow> False))"

definition valid_tool_invocation_source_states ::
  "tool_invocation_status \<Rightarrow> tool_invocation_status list" where
  "valid_tool_invocation_source_states next =
     filter (\<lambda>s. tool_can_transition_to s next)
       [TPending, TInProgress, TAwaitingInput, TAwaitingApproval, TWaiting]"

lemmas tool_status_defs [lifecycle] =
  tool_is_terminal_def tool_can_transition_to_def valid_tool_invocation_source_states_def

text \<open>
  The guard accepts any status that is not final, a string no constant has included, so the
  sources list is exact only on the known statuses. The machine below is the guard on those.
\<close>

definition tool_status_known :: "tool_invocation_status \<Rightarrow> bool" where
  "tool_status_known s \<longleftrightarrow> (\<forall>x. s \<noteq> OtherToolStatus x)"

lemma tool_status_known_code [code, simp]:
  "tool_status_known s = (case s of OtherToolStatus x \<Rightarrow> False | _ \<Rightarrow> True)"
  by (cases s) (simp_all add: tool_status_known_def)

definition tool_moves :: "tool_invocation_status \<Rightarrow> tool_invocation_status \<Rightarrow> bool" where
  "tool_moves s t \<longleftrightarrow> tool_status_known s \<and> tool_can_transition_to s t"

interpretation tool_machine:
  status_machine tool_is_terminal tool_moves valid_tool_invocation_source_states
proof (unfold_locales, goal_cases)
  case (1 s t)
  then show ?case by (simp add: tool_moves_def tool_can_transition_to_def)
next
  case (2 s t)
  show ?case by (cases s) (auto simp: lifecycle tool_moves_def)
next
  case (3 t)
  show ?case by (simp add: lifecycle)
qed

datatype tool_finish_status = FinishSucceeded | FinishFailed | FinishCancelled

fun tool_finish_value :: "tool_finish_status \<Rightarrow> string" where
  "tool_finish_value FinishSucceeded = ''succeeded''"
| "tool_finish_value FinishFailed = ''failed''"
| "tool_finish_value FinishCancelled = ''cancelled''"

section \<open>Interrupts (interrupt.go) and subagents (subagent_types.go)\<close>

datatype interrupt_status = IPending | IResolved | IExpired | ICancelled | OtherInterruptStatus string

definition interrupt_is_terminal :: "interrupt_status \<Rightarrow> bool" where
  "interrupt_is_terminal s \<longleftrightarrow> s = IResolved \<or> s = IExpired \<or> s = ICancelled"

datatype interrupt_resolution = ResolveAllow | ResolveDeny | OtherResolution string

datatype interrupt_reason =
    ReasonToolApproval | ReasonClientTool | ReasonWidget | ReasonAuth | ReasonConfirmation
  | ReasonHookGate | ReasonInput | OtherReason string

fun interrupt_reason_value :: "interrupt_reason \<Rightarrow> string" where
  "interrupt_reason_value ReasonToolApproval = ''tool_approval''"
| "interrupt_reason_value ReasonClientTool = ''client_tool''"
| "interrupt_reason_value ReasonWidget = ''widget''"
| "interrupt_reason_value ReasonAuth = ''auth''"
| "interrupt_reason_value ReasonConfirmation = ''confirmation''"
| "interrupt_reason_value ReasonHookGate = ''hook_gate''"
| "interrupt_reason_value ReasonInput = ''input''"
| "interrupt_reason_value (OtherReason s) = s"

datatype subagent_status =
    SubRunning | SubWaiting | SubCompleted | SubFailed | SubCancelled | SubInterrupted
  | OtherSubagentStatus string

definition subagent_ended :: "subagent_status \<Rightarrow> bool" where
  "subagent_ended s =
     (case s of SubCompleted \<Rightarrow> True | SubFailed \<Rightarrow> True | SubCancelled \<Rightarrow> True
      | SubInterrupted \<Rightarrow> True | _ \<Rightarrow> False)"

section \<open>Properties\<close>

text \<open>C24. A run that starts as submitted stays in the states the protocol has: whatever sequence of
  accepted transitions it makes, it is in one of the named states and never rejected; and once a
  state is final (completed, failed, canceled or rejected) no transition leaves it.\<close>

theorem run_lifecycle:
  "run_reachable s \<Longrightarrow> s \<noteq> Rejected \<and> (\<forall>x. s \<noteq> OtherRunState x)
     \<and> (run_is_terminal s \<longrightarrow> (\<forall>t. \<not> run_can_transition_to s t))"
proof (induction rule: run_reachable.induct)
  case start
  show ?case by (simp add: run_is_terminal_def)
next
  case (step s t)
  then show ?case using run_can_known run_machine.terminal_stuck by blast
qed

theorem run_lifecycle_witness:
  "run_reachable Completed \<and> \<not> run_can_transition_to Completed Working"
proof -
  have "run_reachable Working"
    by (rule run_reachable.step [OF run_reachable.start]) (simp add: lifecycle)
  then have r: "run_reachable Completed"
    by (rule run_reachable.step) (simp add: lifecycle)
  from run_lifecycle [OF r] r show ?thesis by (simp add: run_is_terminal_def)
qed

text \<open>C25. The two classes of settled states are disjoint, and a run that is not settled can still
  fail or be canceled, so no reachable state that still produces events is stuck: settled means
  final or waiting for a person, and an interrupted run goes back to working.\<close>

theorem run_progress:
  "run_reachable s \<Longrightarrow>
     (run_is_settled s \<longleftrightarrow> run_is_terminal s \<or> run_is_interrupted s)
   \<and> \<not> (run_is_terminal s \<and> run_is_interrupted s)
   \<and> (\<not> run_is_terminal s \<longrightarrow> run_can_transition_to s Failed \<and> run_can_transition_to s Canceled)
   \<and> (run_is_interrupted s \<longrightarrow> run_can_transition_to s Working \<and> \<not> run_can_transition_to s Completed)"
  by (cases s) (auto simp: lifecycle elim: run_reachable_other dest: run_lifecycle_known)

theorem run_progress_witness:
  "run_reachable InputRequired \<and> run_can_transition_to InputRequired Working
     \<and> \<not> run_can_transition_to InputRequired Completed"
proof -
  have "run_reachable Working"
    by (rule run_reachable.step [OF run_reachable.start]) (simp add: lifecycle)
  then have r: "run_reachable InputRequired"
    by (rule run_reachable.step) (simp add: lifecycle)
  have "run_is_interrupted InputRequired" by (simp add: run_is_interrupted_def)
  with run_progress [OF r] r show ?thesis by blast
qed

text \<open>A conditional update whose WHERE clause is the list of source states changes the stored
  state exactly when the transition is legal, and once one of a sequence of such updates has made
  the run final every later one leaves it as it is.\<close>

theorem run_conditional_update:
  "run_machine.update_where stored next = (if run_can_transition_to stored next then next else stored)
   \<and> (run_is_terminal (run_machine.run_updates stored ts) \<longrightarrow>
      run_machine.run_updates stored (ts @ us) = run_machine.run_updates stored ts)"
  using run_machine.update_where_can run_machine.run_append_terminal by blast

theorem run_conditional_update_witness:
  "run_machine.run_updates Submitted ([Working, Completed] @ [Failed, Working]) = Completed"
proof -
  have r: "run_machine.run_updates Submitted [Working, Completed] = Completed"
    by (simp add: run_machine.update_where_can lifecycle)
  then have "run_is_terminal (run_machine.run_updates Submitted [Working, Completed])"
    by (simp add: run_is_terminal_def)
  with run_conditional_update [of Submitted Working "[Working, Completed]" "[Failed, Working]"] r
  show ?thesis by metis
qed

text \<open>For a tool invocation the list of source statuses is exactly the known statuses the guard
  accepts, a final status is left by nothing, and every status that is not final can be failed or
  cancelled; only an invocation that waits for approval cannot complete directly.\<close>

theorem tool_transitions:
  "(s \<in> set (valid_tool_invocation_source_states t) \<longleftrightarrow> tool_status_known s \<and> tool_can_transition_to s t)
   \<and> (tool_is_terminal s \<longrightarrow> \<not> tool_can_transition_to s t)
   \<and> (\<not> tool_is_terminal s \<longrightarrow> tool_can_transition_to s TFailed \<and> tool_can_transition_to s TCancelled
        \<and> (tool_can_transition_to s TCompleted \<longleftrightarrow> s \<noteq> TAwaitingApproval))"
  using tool_machine.sources_exact [of s t] by (auto simp: tool_moves_def lifecycle)

theorem tool_transitions_witness:
  "\<not> tool_can_transition_to TCompleted TInProgress \<and> tool_can_transition_to TWaiting TFailed
     \<and> \<not> tool_can_transition_to TAwaitingApproval TCompleted"
  using tool_transitions [of TCompleted TInProgress] tool_transitions [of TWaiting TFailed]
    tool_transitions [of TAwaitingApproval TCompleted]
  by (simp add: tool_is_terminal_def)

end
