(* ===== verification/Json.thy ===== *)
theory Json
  imports Prelude
begin

text \<open>
  The part of Go's \<open>encoding/json\<close> and \<open>unicode/utf8\<close> the program uses, at the level of bytes:
  reading a value (\<open>json_parse\<close>, which also is \<open>json.Valid\<close>), writing one without blanks as
  \<open>json.Marshal\<close> does (\<open>json_print\<close>), and reading the fields of a Go struct out of an object.
  A number keeps the text it was written with. A parse takes fuel, two units per byte and one
  more, which is enough because every second step of it consumes a byte (\<open>read_fuel\<close> shows
  that more fuel changes nothing). Go's limit of 10000 nested values is not modelled.

  The main fact is that what is written is read back (\<open>json_parse_print\<close>).
\<close>

section \<open>UTF-8\<close>

definition byte :: "char \<Rightarrow> nat" where
  "byte c = of_char c"

lemma byte_code [code]:
  "byte (Char b0 b1 b2 b3 b4 b5 b6 b7) =
     (if b0 then 1 else 0) + (if b1 then 2 else 0) + (if b2 then 4 else 0) + (if b3 then 8 else 0)
     + (if b4 then 16 else 0) + (if b5 then 32 else 0) + (if b6 then 64 else 0) + (if b7 then 128 else 0)"
  by (simp add: byte_def of_char_def)

definition in_range :: "nat \<Rightarrow> nat \<Rightarrow> char \<Rightarrow> bool" where
  "in_range lo hi c \<longleftrightarrow> lo \<le> byte c \<and> byte c \<le> hi"

text \<open>
  The length of the rune a string starts with, when it is a valid one of two bytes or more:
  \<open>utf8.DecodeRuneInString\<close>, with 0 for an invalid sequence.
\<close>

fun rune_len :: "string \<Rightarrow> nat" where
  "rune_len (a # b # rest) =
     (if in_range 0xC2 0xDF a \<and> in_range 0x80 0xBF b then 2
      else (case rest of
          [] \<Rightarrow> 0
        | c # rest' \<Rightarrow>
            if in_range 0x80 0xBF c
               \<and> (byte a = 0xE0 \<and> in_range 0xA0 0xBF b
                  \<or> in_range 0xE1 0xEC a \<and> in_range 0x80 0xBF b
                  \<or> byte a = 0xED \<and> in_range 0x80 0x9F b
                  \<or> in_range 0xEE 0xEF a \<and> in_range 0x80 0xBF b) then 3
            else (case rest' of
                [] \<Rightarrow> 0
              | d # _ \<Rightarrow>
                  if in_range 0x80 0xBF c \<and> in_range 0x80 0xBF d
                     \<and> (byte a = 0xF0 \<and> in_range 0x90 0xBF b
                        \<or> in_range 0xF1 0xF3 a \<and> in_range 0x80 0xBF b
                        \<or> byte a = 0xF4 \<and> in_range 0x80 0x8F b) then 4
                  else 0)))"
| "rune_len _ = 0"

lemma rune_len_bound: "rune_len s \<le> length s"
  by (cases s rule: rune_len.cases) (auto split: list.splits)

lemma rune_len_cases: "rune_len s = 0 \<or> rune_len s = 2 \<or> rune_len s = 3 \<or> rune_len s = 4"
  by (cases s rule: rune_len.cases) (auto split: list.splits)

lemma rune_len_take: "rune_len s = n \<Longrightarrow> 0 < n \<Longrightarrow> rune_len (take n s @ t) = n"
  by (cases s rule: rune_len.cases) (auto split: list.splits if_splits)

text \<open>The UTF-8 form of a code point (\<open>utf8.EncodeRune\<close>).\<close>

definition encode_rune :: "nat \<Rightarrow> string" where
  "encode_rune n =
     (if n < 0x80 then [char_of n]
      else if n < 0x800 then [char_of (0xC0 + n div 64), char_of (0x80 + n mod 64)]
      else if n < 0x10000 then
        [char_of (0xE0 + n div 4096), char_of (0x80 + n div 64 mod 64), char_of (0x80 + n mod 64)]
      else
        [char_of (0xF0 + n div 262144), char_of (0x80 + n div 4096 mod 64),
         char_of (0x80 + n div 64 mod 64), char_of (0x80 + n mod 64)])"

text \<open>A string as its runes: each chunk is a valid rune's bytes, or one byte that is none.\<close>

function chunks :: "string \<Rightarrow> string list" where
  "chunks [] = []"
| "chunks (c # cs) =
     (if byte c < 0x80 \<or> rune_len (c # cs) = 0 then [c] # chunks cs
      else take (rune_len (c # cs)) (c # cs) # chunks (drop (rune_len (c # cs)) (c # cs)))"
  by pat_completeness auto
termination
  by (relation "measure length") (auto simp: diff_less)

definition chunk_valid :: "string \<Rightarrow> bool" where
  "chunk_valid w \<longleftrightarrow> (\<exists>c. w = [c] \<and> byte c < 0x80) \<or> (0 < rune_len w \<and> rune_len w = length w)"

lemma chunk_valid_code [code]:
  "chunk_valid w = ((case w of [c] \<Rightarrow> byte c < 0x80 | _ \<Rightarrow> False) \<or> (0 < rune_len w \<and> rune_len w = length w))"
  by (auto simp: chunk_valid_def split: list.splits)

definition valid_utf8 :: "string \<Rightarrow> bool" where
  "valid_utf8 s \<longleftrightarrow> list_all chunk_valid (chunks s)"

definition ascii :: "string \<Rightarrow> bool" where
  "ascii s \<longleftrightarrow> list_all (\<lambda>c. byte c < 0x80) s"

lemma ascii_chunks: "ascii s \<Longrightarrow> chunks s = map (\<lambda>c. [c]) s"
  by (induction s) (auto simp: ascii_def)

lemma ascii_valid: "ascii s \<Longrightarrow> valid_utf8 s"
  by (auto simp: valid_utf8_def ascii_chunks chunk_valid_def list_all_iff ascii_def)

lemma concat_chunks: "concat (chunks s) = s"
  by (induction s rule: chunks.induct) auto

section \<open>Values\<close>

datatype json =
    JNull
  | JBool bool
  | JNum string
  | JStr string
  | JArr "json list"
  | JObj "(string \<times> json) list"

section \<open>Writing\<close>

definition hex_digit :: "nat \<Rightarrow> char" where
  "hex_digit n = (if n < 10 then char_of (48 + n) else char_of (87 + n))"

definition replacement :: string where
  "replacement = [CHR 0xEF, CHR 0xBF, CHR 0xBD]"

text \<open>
  One chunk of a string inside quotes, as \<open>json.Marshal\<close> writes it: short escapes, \<open>\u00xx\<close> for
  the other control bytes and for the three characters it keeps out of HTML, \<open>\u2028\<close> and
  \<open>\u2029\<close>, and \<open>\ufffd\<close> in place of a byte that is not UTF-8.
\<close>

definition escape_u :: "nat \<Rightarrow> string" where
  "escape_u n = [CHR 0x5C, CHR ''u'', hex_digit (n div 4096 mod 16), hex_digit (n div 256 mod 16),
     hex_digit (n div 16 mod 16), hex_digit (n mod 16)]"

definition print_chunk :: "string \<Rightarrow> string" where
  "print_chunk w =
     (case w of
        [c] \<Rightarrow>
          if byte c = 0x22 then [CHR 0x5C, CHR 0x22]
          else if byte c = 0x5C then [CHR 0x5C, CHR 0x5C]
          else if byte c = 8 then [CHR 0x5C, CHR ''b'']
          else if byte c = 12 then [CHR 0x5C, CHR ''f'']
          else if byte c = 10 then [CHR 0x5C, CHR ''n'']
          else if byte c = 13 then [CHR 0x5C, CHR ''r'']
          else if byte c = 9 then [CHR 0x5C, CHR ''t'']
          else if byte c < 0x20 \<or> byte c = 0x3C \<or> byte c = 0x3E \<or> byte c = 0x26 then escape_u (byte c)
          else if byte c < 0x80 then [c]
          else escape_u 0xFFFD
      | _ \<Rightarrow>
          if w = encode_rune 0x2028 then escape_u 0x2028
          else if w = encode_rune 0x2029 then escape_u 0x2029
          else w)"

definition print_body :: "string \<Rightarrow> string" where
  "print_body s = concat (map print_chunk (chunks s))"

definition print_string :: "string \<Rightarrow> string" where
  "print_string s = [CHR 0x22] @ print_body s @ [CHR 0x22]"

fun json_print :: "json \<Rightarrow> string"
and print_items :: "json list \<Rightarrow> string"
and print_members :: "(string \<times> json) list \<Rightarrow> string" where
  "json_print JNull = ''null''"
| "json_print (JBool b) = (if b then ''true'' else ''false'')"
| "json_print (JNum l) = l"
| "json_print (JStr s) = print_string s"
| "json_print (JArr js) = ''['' @ print_items js @ '']''"
| "json_print (JObj kvs) = ''{'' @ print_members kvs @ ''}''"
| "print_items [] = []"
| "print_items [j] = json_print j"
| "print_items (j # j' # js) = json_print j @ '','' @ print_items (j' # js)"
| "print_members [] = []"
| "print_members [(k, j)] = print_string k @ '':'' @ json_print j"
| "print_members ((k, j) # kv # kvs) =
     print_string k @ '':'' @ json_print j @ '','' @ print_members (kv # kvs)"

section \<open>Reading\<close>

definition is_ws :: "char \<Rightarrow> bool" where
  "is_ws c \<longleftrightarrow> byte c = 0x20 \<or> byte c = 0x09 \<or> byte c = 0x0A \<or> byte c = 0x0D"

definition skip_ws :: "string \<Rightarrow> string" where
  "skip_ws = dropWhile is_ws"

definition hex_val :: "char \<Rightarrow> nat option" where
  "hex_val c =
     (if in_range 48 57 c then Some (byte c - 48)
      else if in_range 97 102 c then Some (byte c - 87)
      else if in_range 65 70 c then Some (byte c - 55)
      else None)"

fun hex4 :: "string \<Rightarrow> (nat \<times> string) option" where
  "hex4 (a # b # c # d # rest) =
     (case (hex_val a, hex_val b, hex_val c, hex_val d) of
        (Some w, Some x, Some y, Some z) \<Rightarrow> Some (4096 * w + 256 * x + 16 * y + z, rest)
      | _ \<Rightarrow> None)"
| "hex4 _ = None"

lemma hex4_length: "hex4 s = Some (n, r) \<Longrightarrow> length r < length s"
  by (cases s rule: hex4.cases) (auto split: option.splits)

definition is_high_surrogate :: "nat \<Rightarrow> bool" where
  "is_high_surrogate n \<longleftrightarrow> 0xD800 \<le> n \<and> n < 0xDC00"

definition is_low_surrogate :: "nat \<Rightarrow> bool" where
  "is_low_surrogate n \<longleftrightarrow> 0xDC00 \<le> n \<and> n < 0xE000"

text \<open>
  What follows \<open>\u\<close>: the rune it stands for and the rest. A surrogate pair is one rune; half a
  pair is the replacement character.
\<close>

definition read_u :: "string \<Rightarrow> (string \<times> string) option" where
  "read_u s =
     (case hex4 s of
        None \<Rightarrow> None
      | Some (n, r) \<Rightarrow>
          if is_high_surrogate n \<or> is_low_surrogate n then
            (case cut_prefix r [CHR 0x5C, CHR ''u''] of
               None \<Rightarrow> Some (replacement, r)
             | Some r' \<Rightarrow>
                 (case hex4 r' of
                    None \<Rightarrow> None
                  | Some (m, r'') \<Rightarrow>
                      if is_high_surrogate n \<and> is_low_surrogate m
                      then Some (encode_rune (0x10000 + (n - 0xD800) * 1024 + (m - 0xDC00)), r'')
                      else Some (replacement, r)))
          else Some (encode_rune n, r))"

lemma read_u_length: "read_u s = Some (t, r) \<Longrightarrow> length r < length s"
  by (auto simp: read_u_def cut_prefix_Some split: option.splits prod.splits if_splits dest!: hex4_length)

definition simple_escape :: "char \<Rightarrow> char option" where
  "simple_escape c =
     (if byte c = 0x22 \<or> byte c = 0x5C \<or> byte c = 0x2F then Some c
      else if c = CHR ''b'' then Some (char_of (8::nat))
      else if c = CHR ''f'' then Some (char_of (12::nat))
      else if c = CHR ''n'' then Some (char_of (10::nat))
      else if c = CHR ''r'' then Some (char_of (13::nat))
      else if c = CHR ''t'' then Some (char_of (9::nat))
      else None)"

text \<open>The body of a string after its opening quote: the text, and what follows the closing one.\<close>

function read_body :: "string \<Rightarrow> (string \<times> string) option" where
  "read_body [] = None"
| "read_body (c # cs) =
     (if byte c = 0x22 then Some ([], cs)
      else if byte c = 0x5C then
        (case cs of
           [] \<Rightarrow> None
         | e # es \<Rightarrow>
             if e = CHR ''u'' then
               (case read_u es of
                  None \<Rightarrow> None
                | Some (w, r) \<Rightarrow> map_option (\<lambda>(t, r'). (w @ t, r')) (read_body r))
             else
               (case simple_escape e of
                  None \<Rightarrow> None
                | Some x \<Rightarrow> map_option (\<lambda>(t, r'). (x # t, r')) (read_body es)))
      else if byte c < 0x20 then None
      else if byte c < 0x80 then map_option (\<lambda>(t, r'). (c # t, r')) (read_body cs)
      else if rune_len (c # cs) = 0 then
        map_option (\<lambda>(t, r'). (replacement @ t, r')) (read_body cs)
      else
        map_option (\<lambda>(t, r'). (take (rune_len (c # cs)) (c # cs) @ t, r'))
          (read_body (drop (rune_len (c # cs)) (c # cs))))"
  by pat_completeness auto
termination
  by (relation "measure length") (auto dest!: read_u_length)

declare read_body.simps [simp del]

definition take_digits :: "string \<Rightarrow> string \<times> string" where
  "take_digits s = (takeWhile is_digit s, dropWhile is_digit s)"

text \<open>A number: its text and the rest. The grammar is JSON's.\<close>

definition read_frac :: "string \<Rightarrow> (string \<times> string) option" where
  "read_frac s =
     (case s of
        c # cs \<Rightarrow>
          if c = CHR ''.'' then
            (case take_digits cs of (ds, r) \<Rightarrow> if ds = [] then None else Some (c # ds, r))
          else Some ([], s)
      | [] \<Rightarrow> Some ([], s))"

definition read_exp :: "string \<Rightarrow> (string \<times> string) option" where
  "read_exp s =
     (case s of
        c # cs \<Rightarrow>
          if c = CHR ''e'' \<or> c = CHR ''E'' then
            (case cs of
               [] \<Rightarrow> None
             | x # xs \<Rightarrow>
                 let sign = (if x = CHR ''+'' \<or> x = CHR ''-'' then [x] else []);
                     (ds, r) = take_digits (if sign = [] then cs else xs)
                 in if ds = [] then None else Some (c # sign @ ds, r))
          else Some ([], s)
      | [] \<Rightarrow> Some ([], s))"

definition read_sign :: "string \<Rightarrow> string \<times> string" where
  "read_sign s = (case s of [] \<Rightarrow> ([], s) | c # cs \<Rightarrow> if c = CHR ''-'' then ([c], cs) else ([], s))"

definition read_int :: "string \<Rightarrow> string \<times> string" where
  "read_int s = (case s of [] \<Rightarrow> ([], s) | c # cs \<Rightarrow> if c = CHR ''0'' then ([c], cs) else take_digits s)"

definition read_num :: "string \<Rightarrow> (string \<times> string) option" where
  "read_num s =
     (case read_sign s of (sign, s1) \<Rightarrow>
      case read_int s1 of (ds, s2) \<Rightarrow>
        if ds = [] then None
        else (case read_frac s2 of
                 None \<Rightarrow> None
               | Some (f, s3) \<Rightarrow>
                   (case read_exp s3 of
                      None \<Rightarrow> None
                    | Some (e, s4) \<Rightarrow> Some (sign @ ds @ f @ e, s4))))"

fun read_value :: "nat \<Rightarrow> string \<Rightarrow> (json \<times> string) option"
and read_items :: "nat \<Rightarrow> string \<Rightarrow> (json list \<times> string) option"
and read_members :: "nat \<Rightarrow> string \<Rightarrow> ((string \<times> json) list \<times> string) option" where
  "read_value 0 s = None"
| "read_value (Suc n) s =
     (case skip_ws s of
        [] \<Rightarrow> None
      | c # cs \<Rightarrow>
          if c = CHR 0x22 then map_option (\<lambda>(t, r). (JStr t, r)) (read_body cs)
          else if c = CHR ''['' then
            (case skip_ws cs of
               [] \<Rightarrow> None
             | d # ds \<Rightarrow>
                 if d = CHR '']'' then Some (JArr [], ds)
                 else map_option (\<lambda>(js, r). (JArr js, r)) (read_items n cs))
          else if c = CHR ''{'' then
            (case skip_ws cs of
               [] \<Rightarrow> None
             | d # ds \<Rightarrow>
                 if d = CHR ''}'' then Some (JObj [], ds)
                 else map_option (\<lambda>(kvs, r). (JObj kvs, r)) (read_members n cs))
          else if c = CHR ''n'' then map_option (\<lambda>r. (JNull, r)) (cut_prefix (c # cs) ''null'')
          else if c = CHR ''t'' then map_option (\<lambda>r. (JBool True, r)) (cut_prefix (c # cs) ''true'')
          else if c = CHR ''f'' then map_option (\<lambda>r. (JBool False, r)) (cut_prefix (c # cs) ''false'')
          else map_option (\<lambda>(l, r). (JNum l, r)) (read_num (c # cs)))"
| "read_items 0 s = None"
| "read_items (Suc n) s =
     (case read_value n s of
        None \<Rightarrow> None
      | Some (j, r) \<Rightarrow>
          (case skip_ws r of
             [] \<Rightarrow> None
           | c # cs \<Rightarrow>
               if c = CHR '','' then map_option (\<lambda>(js, r'). (j # js, r')) (read_items n cs)
               else if c = CHR '']'' then Some ([j], cs)
               else None))"
| "read_members 0 s = None"
| "read_members (Suc n) s =
     (case skip_ws s of
        [] \<Rightarrow> None
      | q # qs \<Rightarrow>
          if q \<noteq> CHR 0x22 then None
          else (case read_body qs of
             None \<Rightarrow> None
           | Some (k, r) \<Rightarrow>
               (case skip_ws r of
                  [] \<Rightarrow> None
                | c # cs \<Rightarrow>
                    if c \<noteq> CHR '':'' then None
                    else (case read_value n cs of
                       None \<Rightarrow> None
                     | Some (j, r') \<Rightarrow>
                         (case skip_ws r' of
                            [] \<Rightarrow> None
                          | d # ds \<Rightarrow>
                              if d = CHR '','' then
                                map_option (\<lambda>(kvs, r''). ((k, j) # kvs, r'')) (read_members n ds)
                              else if d = CHR ''}'' then Some ([(k, j)], ds)
                              else None)))))"

definition json_parse :: "string \<Rightarrow> json option" where
  "json_parse s =
     (case read_value (2 * length s + 1) s of
        None \<Rightarrow> None
      | Some (j, r) \<Rightarrow> if skip_ws r = [] then Some j else None)"

definition json_valid :: "string \<Rightarrow> bool" where
  "json_valid s \<longleftrightarrow> json_parse s \<noteq> None"


section \<open>Reading consumes its input\<close>

lemma skip_ws_length: "length (skip_ws s) \<le> length s"
  by (simp add: skip_ws_def length_dropWhile_le)

lemma skip_ws_Cons_length: "skip_ws s = c # cs \<Longrightarrow> length cs < length s"
  using skip_ws_length [of s] by simp

lemma read_body_length: "read_body s = Some (t, r) \<Longrightarrow> length r < length s"
proof (induction s arbitrary: t r rule: read_body.induct)
  case 1
  then show ?case by (simp add: read_body.simps)
next
  case (2 c cs)
  note IH = "2.IH" and r = "2.prems" [unfolded read_body.simps(2) [of c cs]]
  show ?case
  proof (cases "byte c = 0x22 \<or> byte c < 0x20")
    case True
    with r show ?thesis by (auto split: if_splits list.splits option.splits)
  next
    case plain: False
    show ?thesis
    proof (cases "byte c = 0x5C")
      case True
      with r obtain e es where cs: "cs = e # es" by (auto split: list.splits)
      show ?thesis
      proof (cases "e = CHR ''u''")
        case u: True
        with r True cs obtain w r1 t1 where u1: "read_u es = Some (w, r1)" "read_body r1 = Some (t1, r)"
          by (auto split: option.splits)
        have "length r < length r1" using IH(1) [OF _ True cs u u1(1)] u1(2) plain by auto
        with read_u_length [OF u1(1)] cs show ?thesis by simp
      next
        case False
        with r True cs obtain x t1 where x: "simple_escape e = Some x" "read_body es = Some (t1, r)"
          by (auto split: option.splits)
        have "length r < length es" using IH(2) [OF _ True cs False x(1)] x(2) plain by auto
        with cs show ?thesis by simp
      qed
    next
      case q: False
      show ?thesis
      proof (cases "byte c < 0x80 \<or> rune_len (c # cs) = 0")
        case True
        with r plain q obtain t1 where t1: "read_body cs = Some (t1, r)"
          by (auto split: if_splits)
        have "length r < length cs"
          using IH(3) [OF _ q] IH(4) [OF _ q] t1 True plain by (metis (no_types, lifting))
        then show ?thesis by simp
      next
        case False
        with r plain q obtain t1 where t1: "read_body (drop (rune_len (c # cs)) (c # cs)) = Some (t1, r)"
          by auto
        have "length r < length (drop (rune_len (c # cs)) (c # cs))"
          using IH(5) [OF _ q] t1 False plain by (metis (no_types, lifting))
        then show ?thesis by simp
      qed
    qed
  qed
qed

lemma take_digits_length: "take_digits s = (ds, r) \<Longrightarrow> length ds + length r = length s"
  by (auto simp: take_digits_def) (metis length_append takeWhile_dropWhile_id)

lemma read_frac_length: "read_frac s = Some (f, r) \<Longrightarrow> length r \<le> length s"
  by (auto simp: read_frac_def split: list.splits if_splits prod.splits dest: take_digits_length)

lemma read_exp_length: "read_exp s = Some (f, r) \<Longrightarrow> length r \<le> length s"
  by (auto simp: read_exp_def Let_def split: list.splits if_splits prod.splits dest!: take_digits_length)

lemma read_sign_length: "read_sign s = (sg, r) \<Longrightarrow> length r \<le> length s"
  by (auto simp: read_sign_def split: list.splits if_splits)

lemma read_int_length: "read_int s = (ds, r) \<Longrightarrow> ds \<noteq> [] \<Longrightarrow> length r < length s"
  by (cases ds) (auto simp: read_int_def split: list.splits if_splits dest!: take_digits_length)

lemma read_num_length:
  assumes "read_num s = Some (l, r)"
  shows "length r < length s"
proof -
  obtain sign s1 where s1: "read_sign s = (sign, s1)" by (rule prod.exhaust)
  obtain ds s2 where s2: "read_int s1 = (ds, s2)" by (rule prod.exhaust)
  from assms s1 s2 obtain f s3 e where "ds \<noteq> []" and f: "read_frac s2 = Some (f, s3)"
    and e: "read_exp s3 = Some (e, r)"
    by (auto simp: read_num_def split: if_splits option.splits)
  with read_sign_length [OF s1] read_int_length [OF s2] read_frac_length [OF f] read_exp_length [OF e]
  show ?thesis by simp
qed

lemma read_length:
  "read_value n s = Some (j, r) \<Longrightarrow> length r < length s"
  "read_items n s = Some (js, r) \<Longrightarrow> length r < length s"
  "read_members n s = Some (kvs, r) \<Longrightarrow> length r < length s"
proof (induction n s and n s and n s arbitrary: j r and js r and kvs r
       rule: read_value_read_items_read_members.induct)
  case (2 n s)
  then show ?case
    by (auto simp: cut_prefix_Some split: list.splits if_splits option.splits
        dest!: skip_ws_Cons_length read_body_length read_num_length) fastforce+
next
  case (4 n s)
  then show ?case
    by (fastforce split: list.splits if_splits option.splits prod.splits dest!: skip_ws_Cons_length)
next
  case (6 n s)
  then show ?case
    by (fastforce split: list.splits if_splits option.splits prod.splits
        dest!: skip_ws_Cons_length read_body_length)
qed simp_all

section \<open>The fuel is enough\<close>

lemma read_fuel:
  "2 * length s < n \<Longrightarrow> n \<le> m \<Longrightarrow> read_value m s = read_value n s"
  "2 * length s + 1 < n \<Longrightarrow> n \<le> m \<Longrightarrow> read_items m s = read_items n s"
  "2 * length s + 1 < n \<Longrightarrow> n \<le> m \<Longrightarrow> read_members m s = read_members n s"
proof (induction n s and n s and n s arbitrary: m and m and m
       rule: read_value_read_items_read_members.induct)
  case (2 n s)
  from "2.prems" obtain m' where m: "m = Suc m'" and "n \<le> m'" by (cases m) auto
  show ?case
  proof (cases "skip_ws s")
    case Nil
    then show ?thesis by (simp add: m)
  next
    case (Cons c cs)
    then have "2 * length cs + 1 < n"
      using skip_ws_Cons_length [OF Cons] 2 by simp
    then have len: "2 * length cs + 1 < n" .
    have i: "c = CHR ''['' \<Longrightarrow> skip_ws cs = d # ds \<Longrightarrow> d \<noteq> CHR '']'' \<Longrightarrow> read_items m' cs = read_items n cs" for d ds
      using "2.IH"(1) [OF Cons _ _ _ _ len \<open>n \<le> m'\<close>, of d ds] by simp
    have k: "c = CHR ''{'' \<Longrightarrow> skip_ws cs = d # ds \<Longrightarrow> d \<noteq> CHR ''}'' \<Longrightarrow> read_members m' cs = read_members n cs" for d ds
      using "2.IH"(2) [OF Cons _ _ _ _ _ len \<open>n \<le> m'\<close>, of d ds] by simp
    show ?thesis
    proof (cases "skip_ws cs")
      case Nil
      then show ?thesis by (simp add: m Cons)
    next
      case cs: (Cons d ds)
      show ?thesis
        using i [OF _ cs] k [OF _ cs] by (simp add: m Cons cs)
    qed
  qed
next
  case (4 n s)
  from "4.prems" obtain m' where m: "m = Suc m'" and "n \<le> m'" by (cases m) auto
  have v: "read_value m' s = read_value n s" 
    by (rule "4.IH"(1)) (use "4.prems" \<open>n \<le> m'\<close> in simp_all)
  show ?case
  proof (cases "read_value n s")
    case None
    then show ?thesis by (simp add: m v)
  next
    case (Some p)
    obtain j r where p: "p = (j, r)" by (rule prod.exhaust)
    have "length r < length s" using Some p read_length(1) by simp
    then have len: "2 * length cs + 1 < n" if "skip_ws r = c # cs" for c cs
      using skip_ws_Cons_length [OF that] "4.prems" by simp
    show ?thesis
    proof (cases "skip_ws r")
      case Nil
      then show ?thesis by (simp add: m v Some p)
    next
      case (Cons c cs)
      have "c = CHR '','' \<Longrightarrow> read_items m' cs = read_items n cs"
        using "4.IH"(2) [OF Some p [symmetric] Cons _ len [OF Cons] \<open>n \<le> m'\<close>] by simp
      then show ?thesis by (simp add: m v Some p Cons)
    qed
  qed
next
  case (6 n s)
  from "6.prems" obtain m' where m: "m = Suc m'" and nm: "n \<le> m'" by (cases m) auto
  show ?case
  proof (cases "skip_ws s")
    case Nil
    then show ?thesis by (simp add: m)
  next
    case (Cons q qs)
    have lq: "length qs < length s" using skip_ws_Cons_length [OF Cons] .
    show ?thesis
    proof (cases "read_body qs")
      case None
      then show ?thesis by (simp add: m Cons)
    next
      case (Some kr)
      obtain k r where kr: "kr = (k, r)" by (rule prod.exhaust)
      have lr: "length r < length s" using read_body_length [of qs k r] Some kr lq by simp
      show ?thesis
      proof (cases "q = CHR 0x22 \<and> (\<exists>cs. skip_ws r = CHR '':'' # cs)")
        case False
        then show ?thesis by (auto simp: m Cons Some kr split: list.splits)
      next
        case True
        then obtain cs where q: "q = CHR 0x22" and cs: "skip_ws r = CHR '':'' # cs" by blast
        have lc: "length cs < length s" using skip_ws_Cons_length [OF cs] lr by simp
        have v: "read_value m' cs = read_value n cs"
          by (rule "6.IH"(1) [OF Cons _ Some kr [symmetric] cs]) (use q lc "6.prems" nm in simp_all)
        show ?thesis
        proof (cases "read_value n cs")
          case None
          then show ?thesis by (simp add: m Cons Some kr cs v)
        next
          case v2: (Some jr)
          obtain j r' where jr: "jr = (j, r')" by (rule prod.exhaust)
          have lr': "length r' < length s" using read_length(1) [of n cs j r'] v2 jr lc by simp
          have "read_members m' ds = read_members n ds" if ds: "skip_ws r' = CHR '','' # ds" for ds
            by (rule "6.IH"(2) [OF Cons _ Some kr [symmetric] cs _ v2 jr [symmetric] ds])
              (use q nm "6.prems" skip_ws_Cons_length [OF ds] lr' in simp_all)
          then show ?thesis by (auto simp: m Cons Some kr cs v v2 jr q split: list.splits)
        qed
      qed
    qed
  qed
qed simp_all

section \<open>What is written is read back\<close>

text \<open>
  The values the facts below are about: the text of every number is a decimal integer's, and
  every string is valid UTF-8 (\<open>json.Marshal\<close> replaces bytes that are not).
\<close>

fun json_ok :: "json \<Rightarrow> bool" where
  "json_ok (JNum l) = (\<exists>i. l = show_int i)"
| "json_ok (JStr s) = valid_utf8 s"
| "json_ok (JArr js) = list_all json_ok js"
| "json_ok (JObj kvs) = list_all (\<lambda>kv. valid_utf8 (fst kv) \<and> json_ok (snd kv)) kvs"
| "json_ok _ = True"

lemma hex_val_digit: "n < 16 \<Longrightarrow> hex_val (hex_digit n) = Some n"
  by (auto simp: hex_val_def hex_digit_def in_range_def byte_def)

lemma hex4_escape: "n < 65536 \<Longrightarrow> hex4 (drop 2 (escape_u n) @ r) = Some (n, r)"
proof -
  assume n: "n < 65536"
  have "n div 4096 mod 16 = n div 4096" using n by simp
  moreover have "n div 256 = 16 * (n div 4096) + n div 256 mod 16"
    using mult_div_mod_eq [of 16 "n div 256"] by (simp add: div_mult2_eq [symmetric])
  moreover have "n div 16 = 16 * (n div 256) + n div 16 mod 16"
    using mult_div_mod_eq [of 16 "n div 16"] by (simp add: div_mult2_eq [symmetric])
  moreover have "n = 16 * (n div 16) + n mod 16" by simp
  ultimately have "4096 * (n div 4096 mod 16) + 256 * (n div 256 mod 16) + 16 * (n div 16 mod 16) + n mod 16 = n"
    by linarith
  moreover have "hex_val (hex_digit (n div 4096)) = Some (n div 4096)"
    using n by (intro hex_val_digit) simp
  moreover have "n div 4096 mod 16 = n div 4096" using n by simp
  ultimately show ?thesis
    by (simp add: escape_u_def hex_val_digit)
qed

lemma read_body_escape_u:
  assumes "n < 65536" "\<not> is_high_surrogate n" "\<not> is_low_surrogate n" "read_body r = Some (t, r')"
  shows "read_body (escape_u n @ r) = Some (encode_rune n @ t, r')"
proof -
  have "read_u (drop 2 (escape_u n) @ r) = Some (encode_rune n, r)"
    using assms hex4_escape [of n r] by (simp add: read_u_def)
  with assms(4) show ?thesis
    by (simp add: escape_u_def read_body.simps byte_def)
qed

lemma byte_char_of: "byte c = n \<Longrightarrow> c = char_of n"
  by (auto simp: byte_def)

lemma byte_char_of':
  "byte c = 0x22 \<Longrightarrow> c = CHR 0x22" "byte c = 0x5C \<Longrightarrow> c = CHR 0x5C" "byte c = 8 \<Longrightarrow> c = char_of (8::nat)"
  "byte c = 12 \<Longrightarrow> c = char_of (12::nat)" "byte c = 10 \<Longrightarrow> c = char_of (10::nat)"
  "byte c = 13 \<Longrightarrow> c = char_of (13::nat)" "byte c = 9 \<Longrightarrow> c = char_of (9::nat)"
  using byte_char_of [of c "0x22"] byte_char_of [of c "0x5C"] byte_char_of [of c 8] byte_char_of [of c 12]
    byte_char_of [of c 10] byte_char_of [of c 13] byte_char_of [of c 9]
  by (auto simp: char_of_eq_iff byte_def)

lemma encode_rune_ascii: "byte c < 0x80 \<Longrightarrow> encode_rune (byte c) = [c]"
  by (simp add: encode_rune_def byte_def)


lemma rune_len_low:
  assumes "byte a < 128"
  shows "rune_len (a # s) = 0"
proof -
  from assms have n: "\<not> in_range lo hi a" if "128 \<le> lo" for lo hi
    using that by (simp add: in_range_def)
  from assms have m: "byte a \<noteq> k" if "128 \<le> k" for k
    using that by simp
  show ?thesis
    by (cases "a # s" rule: rune_len.cases) (simp_all add: n m split: list.split)
qed

lemma chunk_valid_cases:
  assumes "chunk_valid w"
  obtains (one) c where "w = [c]" "byte c < 0x80"
  | (more) "rune_len w = length w" "2 \<le> length w" "128 \<le> byte (hd w)"
proof (cases "\<exists>c. w = [c] \<and> byte c < 0x80")
  case True
  then show ?thesis using one by blast
next
  case False
  with assms have l: "0 < rune_len w" "rune_len w = length w" by (auto simp: chunk_valid_def)
  with rune_len_cases [of w] have "2 \<le> length w" by auto
  moreover from l have "128 \<le> byte (hd w)"
    using rune_len_low [of "hd w" "tl w"] by (cases w) (force simp: not_less)+
  ultimately show ?thesis using more l by blast
qed

lemma read_body_rune:
  assumes "rune_len w = length w" "2 \<le> length w" "128 \<le> byte (hd w)" "read_body r = Some (t, r')"
  shows "read_body (w @ r) = Some (w @ t, r')"
proof -
  from assms(2) obtain c cs where w: "w = c # cs" by (cases w) auto
  have n: "rune_len (w @ r) = length w"
    using rune_len_take [of w "length w" r] assms(1,2) by (cases w) simp_all
  have "128 \<le> byte c" using assms(3) w by simp
  then have "read_body (c # (cs @ r)) =
      map_option (\<lambda>(t, r'). (take (length w) (c # (cs @ r)) @ t, r'))
        (read_body (drop (length w) (c # (cs @ r))))"
    using n w by (subst read_body.simps) auto
  then show ?thesis using w assms(4) by simp
qed

lemma read_body_plain:
  "byte c < 0x80 \<Longrightarrow> 0x20 \<le> byte c \<Longrightarrow> byte c \<noteq> 0x22 \<Longrightarrow> byte c \<noteq> 0x5C \<Longrightarrow> read_body r = Some (t, r') \<Longrightarrow>
   read_body (c # r) = Some (c # t, r')"
  by (subst read_body.simps) simp

lemma read_body_simple:
  "simple_escape e = Some x \<Longrightarrow> e \<noteq> CHR ''u'' \<Longrightarrow> read_body r = Some (t, r') \<Longrightarrow>
   read_body (CHR 0x5C # e # r) = Some (x # t, r')"
  by (subst read_body.simps) (simp add: byte_def)

lemma simple_escapes:
  "simple_escape (CHR 0x22) = Some (CHR 0x22)" "simple_escape (CHR 0x5C) = Some (CHR 0x5C)"
  "simple_escape (CHR ''b'') = Some (char_of (8::nat))" "simple_escape (CHR ''f'') = Some (char_of (12::nat))"
  "simple_escape (CHR ''n'') = Some (char_of (10::nat))" "simple_escape (CHR ''r'') = Some (char_of (13::nat))"
  "simple_escape (CHR ''t'') = Some (char_of (9::nat))"
  by (simp_all add: simple_escape_def byte_def)

lemma read_print_chunk:
  assumes "chunk_valid w" "read_body r = Some (t, r')"
  shows "read_body (print_chunk w @ r) = Some (w @ t, r')"
  using assms(1)
proof (cases rule: chunk_valid_cases)
  case (one c)
  have esc: "read_body (escape_u (byte c) @ r) = Some ([c] @ t, r')"
    using read_body_escape_u [of "byte c" r t r'] one(2) assms(2)
    by (simp add: is_high_surrogate_def is_low_surrogate_def encode_rune_ascii)
  consider (quote) "byte c = 0x22" | (bslash) "byte c = 0x5C" | (b) "byte c = 8" | (f) "byte c = 12"
    | (n) "byte c = 10" | (r) "byte c = 13" | (t) "byte c = 9"
    | (rest) "byte c \<notin> {0x22, 0x5C, 8, 12, 10, 13, 9}"
    by auto
  then show ?thesis
  proof cases
    case rest
    show ?thesis
    proof (cases "byte c < 0x20 \<or> byte c = 0x3C \<or> byte c = 0x3E \<or> byte c = 0x26")
      case True
      with rest one esc show ?thesis by (simp add: print_chunk_def)
    next
      case False
      with rest one assms(2) show ?thesis
        by (simp add: print_chunk_def read_body_plain)
    qed
  next
    case quote
    show ?thesis
      using one(1) quote byte_char_of'(1) [OF quote] read_body_simple [OF simple_escapes(1) _ assms(2)]
      by (simp add: print_chunk_def)
  next
    case bslash
    show ?thesis
      using one(1) bslash byte_char_of'(2) [OF bslash] read_body_simple [OF simple_escapes(2) _ assms(2)]
      by (simp add: print_chunk_def)
  next
    case b
    show ?thesis
      using one(1) b byte_char_of'(3) [OF b] read_body_simple [OF simple_escapes(3) _ assms(2)]
      by (simp add: print_chunk_def)
  next
    case f
    show ?thesis
      using one(1) f byte_char_of'(4) [OF f] read_body_simple [OF simple_escapes(4) _ assms(2)]
      by (simp add: print_chunk_def)
  next
    case n
    show ?thesis
      using one(1) n byte_char_of'(5) [OF n] read_body_simple [OF simple_escapes(5) _ assms(2)]
      by (simp add: print_chunk_def)
  next
    case r
    show ?thesis
      using one(1) r byte_char_of'(6) [OF r] read_body_simple [OF simple_escapes(6) _ assms(2)]
      by (simp add: print_chunk_def)
  next
    case t
    show ?thesis
      using one(1) t byte_char_of'(7) [OF t] read_body_simple [OF simple_escapes(7) _ assms(2)]
      by (simp add: print_chunk_def)
  qed
next
  case more
  then obtain x y z where w: "w = x # y # z" by (cases w; cases "tl w") auto
  have special: "print_chunk w =
      (if w = encode_rune 0x2028 then escape_u 0x2028
       else if w = encode_rune 0x2029 then escape_u 0x2029 else w)"
    by (simp add: print_chunk_def w)
  have esc: "read_body (escape_u n @ r) = Some (encode_rune n @ t, r')" if "n \<in> {0x2028, 0x2029}" for n
    using read_body_escape_u [of n r t r'] that assms(2)
    by (auto simp: is_high_surrogate_def is_low_surrogate_def)
  show ?thesis
  proof (cases "w = encode_rune 0x2028 \<or> w = encode_rune 0x2029")
    case True
    then show ?thesis using special esc [of "0x2028"] esc [of "0x2029"] by auto
  next
    case False
    then show ?thesis using special read_body_rune [OF more assms(2)] by simp
  qed
qed

lemma read_print_body_append:
  assumes "valid_utf8 s" "read_body r = Some (t, r')"
  shows "read_body (print_body s @ r) = Some (s @ t, r')"
proof -
  have "list_all chunk_valid ws \<Longrightarrow>
      read_body (concat (map print_chunk ws) @ r) = Some (concat ws @ t, r')" for ws
  proof (induction ws)
    case Nil
    then show ?case by (simp add: assms(2))
  next
    case (Cons w ws)
    then show ?case using read_print_chunk [of w _ "concat ws @ t" r'] by simp
  qed
  from this [of "chunks s"] assms(1) show ?thesis
    by (simp add: print_body_def valid_utf8_def concat_chunks)
qed

lemma read_print_body:
  assumes "valid_utf8 s"
  shows "read_body (print_body s @ CHR 0x22 # r) = Some (s, r)"
  using read_print_body_append [OF assms, of "CHR 0x22 # r" "[]" r] by (simp add: read_body.simps byte_def)

text \<open>What can follow a number in a value written without blanks.\<close>

definition ends_number :: "string \<Rightarrow> bool" where
  "ends_number r \<longleftrightarrow> (case r of [] \<Rightarrow> True | c # _ \<Rightarrow> c = CHR '','' \<or> c = CHR '']'' \<or> c = CHR ''}'')"

lemma ends_number_simps [simp]:
  "ends_number []"
  "ends_number (c # r) \<longleftrightarrow> c = CHR '','' \<or> c = CHR '']'' \<or> c = CHR ''}''"
  by (simp_all add: ends_number_def)

lemma show_nat_first: "0 < n \<Longrightarrow> hd (show_nat n) \<noteq> CHR ''0''"
proof (induction n rule: show_nat.induct)
  case (1 n)
  show ?case
  proof (cases "n < 10")
    case True
    then have "digit_val (digit_char n) \<noteq> digit_val (CHR ''0'')"
      using "1.prems" by (simp only: digit_val_char) (simp add: digit_val_def)
    then have "digit_char n \<noteq> CHR ''0''" by metis
    with True show ?thesis by (subst show_nat.simps) simp
  next
    case False
    with 1 have "hd (show_nat (n div 10)) \<noteq> CHR ''0''" by simp
    with False show ?thesis by (subst show_nat.simps) simp
  qed
qed

lemma show_nat_0: "show_nat 0 = ''0''"
  by (subst show_nat.simps) (simp add: digit_char_def char_of_eq_iff)

lemma take_digits_show: "list_all is_digit ds \<Longrightarrow> ends_number r \<Longrightarrow> take_digits (ds @ r) = (ds, r)"
proof -
  assume "list_all is_digit ds" "ends_number r"
  then have "takeWhile is_digit (ds @ r) = ds" "dropWhile is_digit (ds @ r) = r"
    by (induction ds) (cases r; auto simp: is_digit_def)+
  then show ?thesis by (simp add: take_digits_def)
qed

lemma read_int_show: "ends_number r \<Longrightarrow> read_int (show_nat n @ r) = (show_nat n, r)"
proof (cases "n = 0")
  case True
  then show ?thesis by (simp add: show_nat_0 read_int_def)
next
  case False
  assume r: "ends_number r"
  obtain c cs where c: "show_nat n = c # cs" by (metis show_nat_not_Nil neq_Nil_conv)
  with show_nat_first [of n] False have "c \<noteq> CHR ''0''" by simp
  with take_digits_show [OF show_nat_digits r, of n] c show ?thesis
    by (simp add: read_int_def)
qed

lemma show_nat_sign: "hd (show_nat n) \<noteq> CHR ''-''"
  using show_nat_digits [of n] by (cases "show_nat n") (auto simp: is_digit_def)

lemma read_num_show: "ends_number r \<Longrightarrow> read_num (show_int i @ r) = Some (show_int i, r)"
proof -
  assume r: "ends_number r"
  have rest: "read_frac r = Some ([], r)" "read_exp r = Some ([], r)"
    using r by (cases r; auto simp: read_frac_def read_exp_def)+
  have "read_sign (show_nat m @ r) = ([], show_nat m @ r)" for m
    using show_nat_sign [of m] by (cases "show_nat m") (auto simp: read_sign_def)
  moreover have "read_sign (CHR ''-'' # s) = (''-'', s)" for s
    by (simp add: read_sign_def)
  ultimately show ?thesis
    by (simp add: read_num_def show_int_def read_int_show r rest)
qed

lemma show_int_first: "\<exists>c cs. show_int i = c # cs \<and> (is_digit c \<or> c = CHR ''-'')"
proof (cases "i < 0")
  case True
  then show ?thesis by (simp add: show_int_def)
next
  case False
  then show ?thesis
    using show_nat_digits [of "nat i"] by (cases "show_nat (nat i)") (auto simp: show_int_def)
qed

lemma digit_not_special:
  "is_digit c \<or> c = CHR ''-'' \<Longrightarrow>
   \<not> is_ws c \<and> c \<notin> {CHR 0x22, CHR ''['', CHR '']'', CHR ''{'', CHR ''}'', CHR '','', CHR ''n'', CHR ''t'', CHR ''f''}"
  by (auto simp: is_digit_def is_ws_def byte_def)

lemma json_print_first:
  assumes "json_ok j"
  shows "\<exists>c cs. json_print j = c # cs \<and> \<not> is_ws c \<and> c \<noteq> CHR '']''"
proof (cases j)
  case (JNum l)
  with assms show ?thesis using show_int_first digit_not_special by fastforce
qed (auto simp: is_ws_def byte_def print_string_def)

lemma skip_ws_Cons: "\<not> is_ws c \<Longrightarrow> skip_ws (c # s) = c # s"
  by (simp add: skip_ws_def)

lemma not_ws [simp]:
  "\<not> is_ws (CHR 0x22)" "\<not> is_ws (CHR ''['')" "\<not> is_ws (CHR '']'')" "\<not> is_ws (CHR ''{'')"
  "\<not> is_ws (CHR ''}'')" "\<not> is_ws (CHR '','')" "\<not> is_ws (CHR '':'')" "\<not> is_ws (CHR ''n'')"
  "\<not> is_ws (CHR ''t'')" "\<not> is_ws (CHR ''f'')"
  by (simp_all add: is_ws_def byte_def)

lemma read_value_string:
  "valid_utf8 s \<Longrightarrow> read_value (Suc n) (print_string s @ r) = Some (JStr s, r)"
  using read_print_body [of s r] by (simp add: print_string_def skip_ws_Cons)

lemma read_value_num:
  assumes "ends_number r"
  shows "read_value (Suc n) (show_int i @ r) = Some (JNum (show_int i), r)"
proof -
  obtain c cs where c: "show_int i = c # cs" "is_digit c \<or> c = CHR ''-''"
    using show_int_first by blast
  with digit_not_special [OF c(2)] read_num_show [OF assms, of i] show ?thesis
    by (simp add: skip_ws_Cons)
qed

lemma read_print:
  "json_ok j \<Longrightarrow> ends_number r \<Longrightarrow> 2 * length (json_print j) < n \<Longrightarrow>
     read_value n (json_print j @ r) = Some (j, r)"
  "list_all json_ok js \<Longrightarrow> js \<noteq> [] \<Longrightarrow> 2 * length (print_items js) + 1 < n \<Longrightarrow>
     read_items n (print_items js @ CHR '']'' # r) = Some (js, r)"
  "list_all (\<lambda>kv. valid_utf8 (fst kv) \<and> json_ok (snd kv)) kvs \<Longrightarrow> kvs \<noteq> [] \<Longrightarrow>
     2 * length (print_members kvs) + 1 < n \<Longrightarrow>
     read_members n (print_members kvs @ CHR ''}'' # r) = Some (kvs, r)"
proof (induction j and js and kvs arbitrary: n r and n r and n r
       rule: json_print_print_items_print_members.induct)
  case 1
  then show ?case by (cases n) (auto simp: skip_ws_Cons cut_prefix_def has_prefix_def)
next
  case (2 b)
  then show ?case by (cases n; cases b) (auto simp: skip_ws_Cons cut_prefix_def has_prefix_def)
next
  case (3 l)
  then show ?case by (cases n) (auto simp: read_value_num simp del: read_value.simps)
next
  case (4 s)
  then show ?case by (cases n) (auto simp: read_value_string simp del: read_value.simps)
next
  case (5 js)
  then obtain n' where n: "n = Suc n'" by (cases n) auto
  show ?case
  proof (cases js)
    case Nil
    then show ?thesis by (simp add: n skip_ws_Cons)
  next
    case (Cons j' js')
    then obtain c cs where c: "print_items js = c # cs" "\<not> is_ws c" "c \<noteq> CHR '']''"
      using json_print_first [of j'] "5.prems"(1) by (cases js') auto
    have "read_items n' (print_items js @ CHR '']'' # r) = Some (js, r)"
      using "5.IH" [of n' r] "5.prems" n Cons by simp
    with c show ?thesis by (simp add: n skip_ws_Cons)
  qed
next
  case (6 kvs)
  then obtain n' where n: "n = Suc n'" by (cases n) auto
  show ?case
  proof (cases kvs)
    case Nil
    then show ?thesis by (simp add: n skip_ws_Cons)
  next
    case (Cons kv kvs')
    then obtain cs where c: "print_members kvs = CHR 0x22 # cs"
      by (cases kv; cases kvs') (auto simp: print_string_def)
    have "read_members n' (print_members kvs @ CHR ''}'' # r) = Some (kvs, r)"
      using "6.IH" [of n' r] "6.prems" n Cons by simp
    with c show ?thesis by (simp add: n skip_ws_Cons)
  qed
next
  case 7
  then show ?case by simp
next
  case (8 j)
  then obtain n' where n: "n = Suc n'" by (cases n) auto
  have "read_value n' (json_print j @ CHR '']'' # r) = Some (j, CHR '']'' # r)"
    using "8.IH" [of "CHR '']'' # r" n'] "8.prems" n by simp
  then show ?case by (simp add: n skip_ws_Cons)
next
  case (9 j j' js)
  then obtain n' where n: "n = Suc n'" by (cases n) auto
  have "read_value n' (json_print j @ CHR '','' # print_items (j' # js) @ CHR '']'' # r)
      = Some (j, CHR '','' # print_items (j' # js) @ CHR '']'' # r)"
    using "9.IH"(1) "9.prems" n by simp
  moreover have "read_items n' (print_items (j' # js) @ CHR '']'' # r) = Some (j' # js, r)"
    using "9.IH"(2) "9.prems" n by simp
  ultimately show ?case by (simp add: n skip_ws_Cons)
next
  case 10
  then show ?case by simp
next
  case (11 k j)
  then obtain n' where n: "n = Suc n'" by (cases n) auto
  have "read_value n' (json_print j @ CHR ''}'' # r) = Some (j, CHR ''}'' # r)"
    using "11.IH" [of "CHR ''}'' # r" n'] "11.prems" n by simp
  then show ?case
    using "11.prems"(1) read_print_body [of k] by (simp add: n skip_ws_Cons print_string_def)
next
  case (12 k j kv kvs)
  then obtain n' where n: "n = Suc n'" by (cases n) auto
  have "read_value n' (json_print j @ CHR '','' # print_members (kv # kvs) @ CHR ''}'' # r)
      = Some (j, CHR '','' # print_members (kv # kvs) @ CHR ''}'' # r)"
    using "12.IH"(1) "12.prems" n by simp
  moreover have "read_members n' (print_members (kv # kvs) @ CHR ''}'' # r) = Some (kv # kvs, r)"
    using "12.IH"(2) "12.prems" n by simp
  ultimately show ?case
    using "12.prems"(1) read_print_body [of k] by (simp add: n skip_ws_Cons print_string_def)
qed

lemma json_parse_print: "json_ok j \<Longrightarrow> json_parse (json_print j) = Some j"
  using read_print(1) [of j "[]" "2 * length (json_print j) + 1"]
  by (simp add: json_parse_def skip_ws_def)

section \<open>What is written is valid UTF-8\<close>

lemma chunks_append: "valid_utf8 s \<Longrightarrow> chunks (s @ t) = chunks s @ chunks t"
proof (induction s rule: chunks.induct)
  case 1
  then show ?case by simp
next
  case (2 c cs)
  show ?case
  proof (cases "byte c < 0x80 \<or> rune_len (c # cs) = 0")
    case True
    with "2.prems" have "byte c < 0x80" and v: "valid_utf8 cs"
      by (auto simp: valid_utf8_def chunk_valid_def)
    with "2.IH"(1) [OF True v] show ?thesis by simp
  next
    case False
    let ?n = "rune_len (c # cs)"
    have n: "rune_len ((c # cs) @ t) = ?n"
      using rune_len_take [of "c # cs" ?n "drop ?n (c # cs) @ t"] False
      by (simp add: append_assoc [symmetric] del: append_assoc)
    have l: "?n \<le> length (c # cs)" by (rule rune_len_bound)
    have v: "valid_utf8 (drop ?n (c # cs))" using "2.prems" False by (simp add: valid_utf8_def)
    have t: "take ?n (c # cs @ t) = take ?n (c # cs)" "drop ?n (c # cs @ t) = drop ?n (c # cs) @ t"
      using l take_append [of ?n "c # cs" t] drop_append [of ?n "c # cs" t] by simp_all
    from "2.IH"(2) [OF False v] n False show ?thesis by (simp add: t)
  qed
qed

lemma valid_append: "valid_utf8 s \<Longrightarrow> valid_utf8 t \<Longrightarrow> valid_utf8 (s @ t)"
  using chunks_append [of s t] by (simp add: valid_utf8_def)

lemma valid_Nil [simp]: "valid_utf8 []"
  by (simp add: valid_utf8_def)

lemma valid_Cons [simp]: "byte c < 0x80 \<Longrightarrow> valid_utf8 (c # s) \<longleftrightarrow> valid_utf8 s"
  by (auto simp: valid_utf8_def chunk_valid_def)

lemma valid_concat: "\<forall>w \<in> set ws. valid_utf8 w \<Longrightarrow> valid_utf8 (concat ws)"
  by (induction ws) (simp_all add: valid_append)

lemma chunk_is_valid:
  assumes "chunk_valid w"
  shows "valid_utf8 w"
  using assms
proof (cases rule: chunk_valid_cases)
  case (one c)
  then show ?thesis by (simp add: valid_utf8_def chunk_valid_def)
next
  case more
  then obtain c cs where w: "w = c # cs" by (cases w) auto
  with more have "chunks w = [w]" by simp
  with assms show ?thesis by (simp add: valid_utf8_def)
qed

lemma byte_char_of_ascii: "n < 0x80 \<Longrightarrow> byte (char_of n) = n"
  by (simp add: byte_def)

lemma hex_digit_ascii: "n < 16 \<Longrightarrow> byte (hex_digit n) < 0x80"
  by (simp add: hex_digit_def byte_def)

lemma escape_u_ascii: "ascii (escape_u n)"
  by (simp add: ascii_def escape_u_def hex_digit_ascii byte_def [of "CHR 0x5C"] byte_def [of "CHR ''u''"])

lemma valid_chars: "\<forall>c \<in> set s. byte c < 0x80 \<Longrightarrow> valid_utf8 s"
  by (rule ascii_valid) (simp add: ascii_def list_all_iff)

lemma print_chunk_valid:
  assumes "chunk_valid w"
  shows "valid_utf8 (print_chunk w)"
  using assms
proof (cases rule: chunk_valid_cases)
  case (one c)
  then show ?thesis
    using ascii_valid [OF escape_u_ascii, of "byte c"]
    by (auto simp: print_chunk_def byte_def intro!: valid_chars)
next
  case more
  then obtain x y z where "w = x # y # z" by (cases w; cases "tl w") auto
  with chunk_is_valid [OF assms] show ?thesis
    by (simp add: print_chunk_def ascii_valid escape_u_ascii)
qed

lemma print_string_valid: "valid_utf8 s \<Longrightarrow> valid_utf8 (print_string s)"
proof -
  assume "valid_utf8 s"
  then have "valid_utf8 (print_body s)"
    unfolding print_body_def valid_utf8_def [of s]
    by (intro valid_concat) (auto simp: list_all_iff intro!: print_chunk_valid)
  moreover have "byte (CHR 0x22) < 0x80" by (simp add: byte_def)
  ultimately show ?thesis
    by (simp add: print_string_def valid_append)
qed

lemma show_nat_ascii: "c \<in> set (show_nat n) \<Longrightarrow> byte c < 0x80"
  using show_nat_digits [of n] by (auto simp: list_all_iff is_digit_def byte_def)

lemma print_items_join: "print_items js = join (map json_print js) '',''"
  by (induction js rule: induct_list012) auto

lemma show_int_valid: "valid_utf8 (show_int i)"
  by (rule valid_chars) (auto simp: show_int_def byte_def dest: show_nat_ascii [unfolded byte_def])

lemma json_bytes:
  "byte (CHR ''n'') < 0x80" "byte (CHR ''u'') < 0x80" "byte (CHR ''l'') < 0x80" "byte (CHR ''t'') < 0x80"
  "byte (CHR ''r'') < 0x80" "byte (CHR ''e'') < 0x80" "byte (CHR ''f'') < 0x80" "byte (CHR ''a'') < 0x80"
  "byte (CHR ''s'') < 0x80" "byte (CHR ''['') < 0x80" "byte (CHR '']'') < 0x80" "byte (CHR ''{'') < 0x80"
  "byte (CHR ''}'') < 0x80" "byte (CHR '','') < 0x80" "byte (CHR '':'') < 0x80"
  by (simp_all add: byte_def)

lemma json_print_valid:
  "json_ok j \<Longrightarrow> valid_utf8 (json_print j)"
  "list_all json_ok js \<Longrightarrow> valid_utf8 (print_items js)"
  "list_all (\<lambda>kv. valid_utf8 (fst kv) \<and> json_ok (snd kv)) kvs \<Longrightarrow> valid_utf8 (print_members kvs)"
proof (induction j and js and kvs rule: json_print_print_items_print_members.induct)
  case (3 l)
  then show ?case using show_int_valid by auto
qed (simp_all add: valid_append print_string_valid json_bytes)


section \<open>What is written has no control bytes\<close>

definition printable :: "string \<Rightarrow> bool" where
  "printable s \<longleftrightarrow> list_all (\<lambda>c. 0x20 \<le> byte c) s"

lemma printable_simps [simp]:
  "printable []" "printable (c # s) \<longleftrightarrow> 0x20 \<le> byte c \<and> printable s"
  "printable (s @ t) \<longleftrightarrow> printable s \<and> printable t"
  by (simp_all add: printable_def)

lemma hex_digit_printable: "n < 16 \<Longrightarrow> 0x20 \<le> byte (hex_digit n)"
  by (simp add: hex_digit_def byte_def)

lemma escape_u_printable: "printable (escape_u n)"
  by (simp add: escape_u_def hex_digit_printable byte_def [of "CHR 0x5C"] byte_def [of "CHR ''u''"])

lemma in_range_high:
  "in_range 0xC2 0xDF a \<Longrightarrow> 128 \<le> byte a" "in_range 0x80 0xBF a \<Longrightarrow> 128 \<le> byte a"
  "in_range 0xA0 0xBF a \<Longrightarrow> 128 \<le> byte a" "in_range 0xE1 0xEC a \<Longrightarrow> 128 \<le> byte a"
  "in_range 0x80 0x9F a \<Longrightarrow> 128 \<le> byte a" "in_range 0xEE 0xEF a \<Longrightarrow> 128 \<le> byte a"
  "in_range 0x90 0xBF a \<Longrightarrow> 128 \<le> byte a" "in_range 0xF1 0xF3 a \<Longrightarrow> 128 \<le> byte a"
  "in_range 0x80 0x8F a \<Longrightarrow> 128 \<le> byte a"
  by (simp_all add: in_range_def)

lemma rune_bytes2: "rune_len [a, b] \<noteq> 0 \<Longrightarrow> 128 \<le> byte a \<and> 128 \<le> byte b"
  by (auto dest: in_range_high split: if_splits)

lemma rune_bytes3: "rune_len [a, b, c] = 3 \<Longrightarrow> 128 \<le> byte a \<and> 128 \<le> byte b \<and> 128 \<le> byte c"
  by (auto dest: in_range_high split: if_splits)

lemma rune_bytes4:
  "rune_len [a, b, c, d] = 4 \<Longrightarrow> 128 \<le> byte a \<and> 128 \<le> byte b \<and> 128 \<le> byte c \<and> 128 \<le> byte d"
  by (auto dest: in_range_high split: if_splits)

lemma rune_bytes:
  assumes "0 < rune_len w" "rune_len w = length w" "c \<in> set w"
  shows "128 \<le> byte c"
proof -
  from assms rune_len_cases [of w] have "length w = 2 \<or> length w = 3 \<or> length w = 4" by simp
  then show ?thesis
  proof (elim disjE)
    assume "length w = 2"
    then obtain x y where "w = [x, y]" by (auto simp: length_Suc_conv numeral_eq_Suc)
    then show ?thesis using assms rune_bytes2 [of x y] by auto
  next
    assume "length w = 3"
    moreover from this obtain x y z where "w = [x, y, z]" by (auto simp: length_Suc_conv numeral_eq_Suc)
    ultimately show ?thesis using assms rune_bytes3 [of x y z] by fastforce
  next
    assume "length w = 4"
    moreover from this obtain x y z v where "w = [x, y, z, v]" by (auto simp: length_Suc_conv numeral_eq_Suc)
    ultimately show ?thesis using assms rune_bytes4 [of x y z v] by fastforce
  qed
qed

lemma print_chunk_printable:
  assumes "chunk_valid w"
  shows "printable (print_chunk w)"
  using assms
proof (cases rule: chunk_valid_cases)
  case (one c)
  then show ?thesis
    using escape_u_printable [of "byte c"] by (auto simp: print_chunk_def byte_def)
next
  case more
  then have "printable w"
    using rune_bytes [of w] by (fastforce simp: printable_def list_all_iff)
  moreover from more obtain x y z where "w = x # y # z" by (cases w; cases "tl w") auto
  ultimately show ?thesis by (simp add: print_chunk_def escape_u_printable)
qed

lemma print_string_printable: "valid_utf8 s \<Longrightarrow> printable (print_string s)"
proof -
  assume "valid_utf8 s"
  then have "\<forall>w \<in> set (chunks s). printable (print_chunk w)"
    by (simp add: valid_utf8_def list_all_iff print_chunk_printable)
  then have "printable (print_body s)" by (auto simp: print_body_def printable_def list_all_iff)
  then show ?thesis by (simp add: print_string_def byte_def)
qed

lemma show_int_printable: "printable (show_int i)"
proof -
  have "printable (show_nat n)" for n
    using show_nat_digits [of n] by (fastforce simp: printable_def list_all_iff is_digit_def byte_def)
  then show ?thesis by (simp add: show_int_def byte_def)
qed

lemma json_printable:
  "json_ok j \<Longrightarrow> printable (json_print j)"
  "list_all json_ok js \<Longrightarrow> printable (print_items js)"
  "list_all (\<lambda>kv. valid_utf8 (fst kv) \<and> json_ok (snd kv)) kvs \<Longrightarrow> printable (print_members kvs)"
proof (induction j and js and kvs rule: json_print_print_items_print_members.induct)
  case (3 l)
  then show ?case using show_int_printable by auto
qed (auto simp: print_string_printable byte_def)


lemma json_print_first_byte:
  assumes "json_ok j"
  shows "\<exists>c cs. json_print j = c # cs \<and> 0x21 \<le> byte c \<and> byte c < 0x80"
proof (cases j)
  case (JNum l)
  with assms obtain i where "l = show_int i" by auto
  then show ?thesis using JNum show_int_first [of i] by (auto simp: is_digit_def byte_def)
qed (auto simp: byte_def print_string_def)

lemma space_bytes_range: "c \<in> set space_bytes \<Longrightarrow> byte c \<le> 0x20 \<or> 0x80 \<le> byte c"
proof -
  have "list_all (\<lambda>c. byte c \<le> 0x20 \<or> 0x80 \<le> byte c) space_bytes"
    by (simp add: space_bytes_def space_forms_def byte_def upt_rec)
  then show "c \<in> set space_bytes \<Longrightarrow> ?thesis" by (auto simp: list_all_iff)
qed

text \<open>A text in braces has no blanks to trim.\<close>

lemma trim_object: "trim_space (CHR ''{'' # s @ ''}'') = CHR ''{'' # s @ ''}''"
proof -
  let ?p = "CHR ''{'' # s @ ''}''"
  have sp: "CHR ''{'' \<notin> set space_bytes" "CHR ''}'' \<notin> set space_bytes"
    using space_bytes_range [of "CHR ''{''"] space_bytes_range [of "CHR ''}''"] by (auto simp: byte_def)
  have forms: "w \<noteq> []" "set w \<subseteq> set space_bytes" if "w \<in> set space_forms" for w
    using that space_forms_nonempty by (auto simp: space_bytes_def)
  have "\<not> has_prefix ?p w" if "w \<in> set space_forms" for w
    using forms [OF that] sp(1) by (cases w) (auto simp: has_prefix_def)
  then have "trim_left ?p = ?p" by (intro trim_left_id) blast
  moreover have "\<not> has_suffix ?p w" if "w \<in> set space_forms" for w
  proof
    assume "has_suffix ?p w"
    then obtain t where "?p = t @ w" by (auto simp: has_suffix_iff)
    moreover have "last ?p = CHR ''}''" by simp
    ultimately have "last w = CHR ''}''" using forms(1) [OF that] by (metis last_append)
    with forms [OF that] sp(2) show False by (metis last_in_set subsetD)
  qed
  then have "trim_right ?p = ?p" by (intro trim_right_id) blast
  ultimately show ?thesis by (simp add: trim_space_def)
qed

end
