(* ===== verification/Strconv.thy ===== *)
theory Strconv
  imports Json
begin

text \<open>
  The conversions of Go's \<open>strconv\<close> the program uses: \<open>Unquote\<close> on a double-quoted Go string
  literal, and the integer parsers \<open>Atoi\<close> and \<open>ParseInt\<close> with 64 bits.

  A Go literal and a JSON string are not the same language: \<open>Unquote\<close> refuses JSON's \<open>\/\<close> and
  \<open>\u\<close> escapes of surrogates, and accepts escapes JSON does not have. On the strings
  \<open>json.Marshal\<close> writes the two agree (\<open>go_unquote_print\<close>).
\<close>

section \<open>Unquote\<close>

definition valid_rune :: "nat \<Rightarrow> bool" where
  "valid_rune n \<longleftrightarrow> n < 0xD800 \<or> (0xE000 \<le> n \<and> n \<le> 0x10FFFF)"

fun hex_digits :: "nat \<Rightarrow> string \<Rightarrow> nat \<Rightarrow> (nat \<times> string) option" where
  "hex_digits 0 s v = Some (v, s)"
| "hex_digits (Suc n) [] v = None"
| "hex_digits (Suc n) (c # cs) v =
     (case hex_val c of None \<Rightarrow> None | Some x \<Rightarrow> hex_digits n cs (16 * v + x))"

lemma hex_digits_length: "hex_digits n s v = Some (w, r) \<Longrightarrow> length r \<le> length s"
  by (induction n s v rule: hex_digits.induct) (auto split: option.splits)

definition is_octal :: "char \<Rightarrow> bool" where
  "is_octal c \<longleftrightarrow> in_range 48 55 c"

text \<open>What follows a backslash in a literal in double quotes: the bytes it stands for, the rest.\<close>

definition go_escape :: "string \<Rightarrow> (string \<times> string) option" where
  "go_escape s =
     (case s of
        [] \<Rightarrow> None
      | c # cs \<Rightarrow>
          if c = CHR ''a'' then Some ([char_of (7::nat)], cs)
          else if c = CHR ''b'' then Some ([char_of (8::nat)], cs)
          else if c = CHR ''f'' then Some ([char_of (12::nat)], cs)
          else if c = CHR ''n'' then Some ([char_of (10::nat)], cs)
          else if c = CHR ''r'' then Some ([char_of (13::nat)], cs)
          else if c = CHR ''t'' then Some ([char_of (9::nat)], cs)
          else if c = CHR ''v'' then Some ([char_of (11::nat)], cs)
          else if c = CHR ''x'' then map_option (\<lambda>(v, r). ([char_of v], r)) (hex_digits 2 cs 0)
          else if c = CHR ''u'' \<or> c = CHR ''U'' then
            (case hex_digits (if c = CHR ''u'' then 4 else 8) cs 0 of
               None \<Rightarrow> None
             | Some (v, r) \<Rightarrow> if valid_rune v then Some (encode_rune v, r) else None)
          else if is_octal c then
            (case cs of
               d # e # r \<Rightarrow>
                 if is_octal d \<and> is_octal e \<and> 64 * (byte c - 48) + 8 * (byte d - 48) + (byte e - 48) \<le> 255
                 then Some ([char_of (64 * (byte c - 48) + 8 * (byte d - 48) + (byte e - 48))], r)
                 else None
             | _ \<Rightarrow> None)
          else if byte c = 0x5C \<or> byte c = 0x22 then Some ([c], cs)
          else None)"

lemma go_escape_length: "go_escape s = Some (w, r) \<Longrightarrow> length r < length s"
  by (cases s)
    (auto simp: go_escape_def split: if_splits option.splits list.splits dest!: hex_digits_length)

text \<open>The body after the opening quote: the text, and what follows the closing quote.\<close>

function unquote_body :: "string \<Rightarrow> (string \<times> string) option" where
  "unquote_body [] = None"
| "unquote_body (c # cs) =
     (if byte c = 0x22 then Some ([], cs)
      else if byte c = 10 then None
      else if byte c = 0x5C then
        (case go_escape cs of
           None \<Rightarrow> None
         | Some (w, r) \<Rightarrow> map_option (\<lambda>(t, r'). (w @ t, r')) (unquote_body r))
      else if byte c < 0x80 then map_option (\<lambda>(t, r'). (c # t, r')) (unquote_body cs)
      else if rune_len (c # cs) = 0 then
        map_option (\<lambda>(t, r'). (replacement @ t, r')) (unquote_body cs)
      else
        map_option (\<lambda>(t, r'). (take (rune_len (c # cs)) (c # cs) @ t, r'))
          (unquote_body (drop (rune_len (c # cs)) (c # cs))))"
  by pat_completeness auto
termination
  by (relation "measure length") (auto dest!: go_escape_length)

declare unquote_body.simps [simp del]

definition go_unquote :: "string \<Rightarrow> string option" where
  "go_unquote s =
     (case s of
        c # cs \<Rightarrow>
          if byte c = 0x22 then
            (case unquote_body cs of Some (t, []) \<Rightarrow> Some t | _ \<Rightarrow> None)
          else None
      | [] \<Rightarrow> None)"

text \<open>The parsers of a body consume it: what is left is shorter.\<close>

lemma unquote_body_suffix:
  "unquote_body s = Some (t, r) \<Longrightarrow> length r < length s"
proof (induction s arbitrary: t r rule: unquote_body.induct)
  case 1
  then show ?case by (simp add: unquote_body.simps)
next
  case (2 c cs)
  note IH = "2.IH" and r = "2.prems" [unfolded unquote_body.simps(2) [of c cs]]
  consider (quote) "byte c = 0x22" | (lf) "byte c \<noteq> 0x22" "byte c = 10"
    | (esc) "byte c \<noteq> 0x22" "byte c \<noteq> 10" "byte c = 0x5C"
    | (plain) "byte c \<noteq> 0x22" "byte c \<noteq> 10" "byte c \<noteq> 0x5C" by blast
  then show ?case
  proof cases
    case esc
    with r obtain w r1 t1 where w: "go_escape cs = Some (w, r1)" "unquote_body r1 = Some (t1, r)"
      by (auto split: option.splits)
    show ?thesis
      using IH(1) [OF esc w(1) refl w(2)] go_escape_length [OF w(1)] by simp
  next
    case plain
    show ?thesis
    proof (cases "byte c < 0x80 \<or> rune_len (c # cs) = 0")
      case True
      with r plain obtain t1 where t1: "unquote_body cs = Some (t1, r)" by (auto split: if_splits)
      then have "length r < length cs"
        using IH(2) [OF plain] IH(3) [OF plain] True by (metis (no_types, lifting))
      then show ?thesis by simp
    next
      case False
      with r plain obtain t1 where t1: "unquote_body (drop (rune_len (c # cs)) (c # cs)) = Some (t1, r)"
        by auto
      then have "length r < length (drop (rune_len (c # cs)) (c # cs))"
        using IH(4) [OF plain] False by (metis (no_types, lifting))
      then show ?thesis by simp
    qed
  qed (use r in auto)
qed

section \<open>Integers\<close>

text \<open>
  \<open>strconv.ParseInt(s, 10, 64)\<close>: an optional sign and digits. A value out of range is an error
  and the nearest value in range (\<open>Atoi\<close> returns both, and its callers here drop the error).
\<close>

definition max_int64 :: int where "max_int64 = 2 ^ 63 - 1"
definition min_int64 :: int where "min_int64 = - (2 ^ 63)"

definition strip_sign :: "string \<Rightarrow> bool \<times> string" where
  "strip_sign s =
     (case s of
        [] \<Rightarrow> (False, s)
      | c # cs \<Rightarrow> if c = CHR ''-'' then (True, cs) else if c = CHR ''+'' then (False, cs) else (False, s))"

definition atoi :: "string \<Rightarrow> int \<times> bool" where
  "atoi s =
     (case strip_sign s of (neg, ds) \<Rightarrow>
        if ds = [] \<or> \<not> list_all is_digit ds then (0, False)
        else let v = (if neg then - int (read_nat ds) else int (read_nat ds))
             in if v < min_int64 then (min_int64, False)
                else if max_int64 < v then (max_int64, False)
                else (v, True))"

definition parse_int :: "string \<Rightarrow> int option" where
  "parse_int s = (case atoi s of (v, ok) \<Rightarrow> if ok then Some v else None)"

lemma is_digit_not_sign: "is_digit c \<Longrightarrow> c \<noteq> CHR ''-'' \<and> c \<noteq> CHR ''+''"
  by (auto simp: is_digit_def)

lemma strip_sign_show: "strip_sign (show_nat n) = (False, show_nat n)"
  using show_nat_digits [of n] is_digit_not_sign
  by (cases "show_nat n") (auto simp: strip_sign_def)

lemma parse_int_show: "min_int64 \<le> i \<Longrightarrow> i \<le> max_int64 \<Longrightarrow> parse_int (show_int i) = Some i"
proof (cases "i < 0")
  case True
  then show "min_int64 \<le> i \<Longrightarrow> i \<le> max_int64 \<Longrightarrow> ?thesis"
    by (simp add: parse_int_def atoi_def show_int_def strip_sign_def show_nat_digits max_int64_def min_int64_def)
next
  case False
  then show "min_int64 \<le> i \<Longrightarrow> i \<le> max_int64 \<Longrightarrow> ?thesis"
    by (simp add: parse_int_def atoi_def show_int_def strip_sign_show show_nat_digits max_int64_def min_int64_def)
qed

lemma atoi_digits:
  "list_all is_digit ds \<Longrightarrow> ds \<noteq> [] \<Longrightarrow> fst (atoi ds) = min (int (read_nat ds)) max_int64"
  by (cases ds)
    (auto simp: atoi_def strip_sign_def max_int64_def min_int64_def Let_def dest: is_digit_not_sign)

section \<open>Unquote reads what Marshal writes\<close>

lemma hex_digits_4:
  assumes "hex4 s = Some (n, r)"
  shows "hex_digits 4 s 0 = Some (n, r)"
proof -
  have four: "(4::nat) = Suc (Suc (Suc (Suc 0)))" by simp
  from assms show ?thesis
    unfolding four by (cases s rule: hex4.cases) (auto split: option.splits)
qed

lemma go_escape_u:
  assumes "n < 65536" "valid_rune n"
  shows "go_escape (tl (escape_u n) @ r) = Some (encode_rune n, r)"
proof -
  have "hex_digits 4 (drop 2 (escape_u n) @ r) 0 = Some (n, r)"
    using hex4_escape [OF assms(1), of r] by (rule hex_digits_4)
  with assms(2) show ?thesis
    by (simp add: go_escape_def escape_u_def)
qed

lemma unquote_escape_u:
  assumes "n < 65536" "valid_rune n"
  shows "unquote_body (escape_u n @ r) = map_option (\<lambda>(t, r'). (encode_rune n @ t, r')) (unquote_body r)"
proof -
  have e: "escape_u n = CHR 0x5C # tl (escape_u n)" by (simp add: escape_u_def)
  show ?thesis
    using go_escape_u [OF assms, of r]
    by (subst e, simp only: append_Cons, subst unquote_body.simps) (simp add: byte_def)
qed

lemma unquote_simple:
  "go_escape (e # r) = Some (w, r) \<Longrightarrow>
   unquote_body (CHR 0x5C # e # r) = map_option (\<lambda>(t, r'). (w @ t, r')) (unquote_body r)"
  by (subst unquote_body.simps) (simp add: byte_def)

lemma go_escapes:
  "go_escape (CHR 0x22 # r) = Some ([CHR 0x22], r)" "go_escape (CHR 0x5C # r) = Some ([CHR 0x5C], r)"
  "go_escape (CHR ''b'' # r) = Some ([char_of (8::nat)], r)" "go_escape (CHR ''f'' # r) = Some ([char_of (12::nat)], r)"
  "go_escape (CHR ''n'' # r) = Some ([char_of (10::nat)], r)" "go_escape (CHR ''r'' # r) = Some ([char_of (13::nat)], r)"
  "go_escape (CHR ''t'' # r) = Some ([char_of (9::nat)], r)"
  by (simp_all add: go_escape_def is_octal_def in_range_def byte_def)

lemma unquote_rune:
  assumes "rune_len w = length w" "2 \<le> length w" "128 \<le> byte (hd w)"
  shows "unquote_body (w @ r) = map_option (\<lambda>(t, r'). (w @ t, r')) (unquote_body r)"
proof -
  from assms(2) obtain c cs where w: "w = c # cs" by (cases w) auto
  have n: "rune_len (w @ r) = length w"
    using rune_len_take [of w "length w" r] assms(1,2) by (cases w) simp_all
  have "128 \<le> byte c" using assms(3) w by simp
  then have "unquote_body (c # (cs @ r)) =
      map_option (\<lambda>(t, r'). (take (length w) (c # (cs @ r)) @ t, r'))
        (unquote_body (drop (length w) (c # (cs @ r))))"
    using n w by (subst unquote_body.simps) auto
  then show ?thesis using w by simp
qed

lemma unquote_print_chunk:
  assumes "chunk_valid w"
  shows "unquote_body (print_chunk w @ r) = map_option (\<lambda>(t, r'). (w @ t, r')) (unquote_body r)"
  using assms
proof (cases rule: chunk_valid_cases)
  case (one c)
  have esc: "unquote_body (escape_u (byte c) @ r) = map_option (\<lambda>(t, r'). ([c] @ t, r')) (unquote_body r)"
    using unquote_escape_u [of "byte c" r] one(2)
    by (simp add: valid_rune_def encode_rune_ascii)
  consider (quote) "byte c = 0x22" | (bslash) "byte c = 0x5C" | (b) "byte c = 8" | (f) "byte c = 12"
    | (n) "byte c = 10" | (r) "byte c = 13" | (t) "byte c = 9"
    | (rest) "byte c \<notin> {0x22, 0x5C, 8, 12, 10, 13, 9}"
    by auto
  then show ?thesis
  proof cases
    case rest
    show ?thesis
    proof (cases "byte c < 0x20 \<or> byte c = 0x3C \<or> byte c = 0x3E \<or> byte c = 0x26")
      case True
      with rest one esc show ?thesis by (simp add: print_chunk_def)
    next
      case False
      with rest one show ?thesis
        by (simp add: print_chunk_def unquote_body.simps(2) [of c r])
    qed
  next
    case quote
    show ?thesis
      using one(1) quote byte_char_of'(1) [OF quote] unquote_simple [OF go_escapes(1)]
      by (simp add: print_chunk_def)
  next
    case bslash
    show ?thesis
      using one(1) bslash byte_char_of'(2) [OF bslash] unquote_simple [OF go_escapes(2)]
      by (simp add: print_chunk_def)
  next
    case b
    show ?thesis
      using one(1) b byte_char_of'(3) [OF b] unquote_simple [OF go_escapes(3)]
      by (simp add: print_chunk_def)
  next
    case f
    show ?thesis
      using one(1) f byte_char_of'(4) [OF f] unquote_simple [OF go_escapes(4)]
      by (simp add: print_chunk_def)
  next
    case n
    show ?thesis
      using one(1) n byte_char_of'(5) [OF n] unquote_simple [OF go_escapes(5)]
      by (simp add: print_chunk_def)
  next
    case r
    show ?thesis
      using one(1) r byte_char_of'(6) [OF r] unquote_simple [OF go_escapes(6)]
      by (simp add: print_chunk_def)
  next
    case t
    show ?thesis
      using one(1) t byte_char_of'(7) [OF t] unquote_simple [OF go_escapes(7)]
      by (simp add: print_chunk_def)
  qed
next
  case more
  then obtain x y z where w: "w = x # y # z" by (cases w; cases "tl w") auto
  have special: "print_chunk w =
      (if w = encode_rune 0x2028 then escape_u 0x2028
       else if w = encode_rune 0x2029 then escape_u 0x2029 else w)"
    by (simp add: print_chunk_def w)
  have esc: "unquote_body (escape_u n @ r) = map_option (\<lambda>(t, r'). (encode_rune n @ t, r')) (unquote_body r)" if "n \<in> {0x2028, 0x2029}" for n
    using unquote_escape_u [of n r] that by (auto simp: valid_rune_def)
  show ?thesis
  proof (cases "w = encode_rune 0x2028 \<or> w = encode_rune 0x2029")
    case True
    then show ?thesis using special esc [of "0x2028"] esc [of "0x2029"] by auto
  next
    case False
    then show ?thesis using special unquote_rune [OF more] by simp
  qed
qed

lemma unquote_print_body:
  assumes "valid_utf8 s"
  shows "unquote_body (print_body s @ r) = map_option (\<lambda>(t, r'). (s @ t, r')) (unquote_body r)"
proof -
  have "list_all chunk_valid ws \<Longrightarrow>
      unquote_body (concat (map print_chunk ws) @ r) = map_option (\<lambda>(t, r'). (concat ws @ t, r')) (unquote_body r)" for ws
  proof (induction ws)
    case Nil
    then show ?case by (simp add: option.map_ident)
  next
    case (Cons w ws)
    then show ?case using unquote_print_chunk [of w "concat (map print_chunk ws) @ r"]
      by (simp add: option.map_comp comp_def case_prod_unfold)
  qed
  from this [of "chunks s"] assms show ?thesis
    by (simp add: print_body_def valid_utf8_def concat_chunks)
qed

lemma go_unquote_print:
  assumes "valid_utf8 s"
  shows "go_unquote (print_string s) = Some s"
  using unquote_print_body [OF assms, of "[CHR 0x22]"]
  by (simp add: go_unquote_def print_string_def unquote_body.simps byte_def)

text \<open>An escaped slash, which JSON has and a Go literal has not: the whole literal is refused.\<close>

lemma go_unquote_slash:
  assumes "valid_utf8 s"
  shows "go_unquote (CHR 0x22 # print_body s @ CHR 0x5C # CHR ''/'' # r) = None"
proof -
  have "unquote_body (CHR 0x5C # CHR ''/'' # r) = None"
    by (subst unquote_body.simps) (simp add: byte_def go_escape_def is_octal_def in_range_def)
  with unquote_print_body [OF assms] show ?thesis by (simp add: go_unquote_def byte_def)
qed

end
