(* ===== verification/Json_Struct.thy ===== *)
theory Json_Struct
  imports Strconv "HOL-Library.List_Lexorder"
begin

text \<open>
  How \<open>encoding/json\<close> moves a Go struct into an object and back, and the
  \<open>StringEncodedMap\<close> of \<open>model/common.go\<close>, which has a decoder of its own.

  A key of the input belongs to a field when the two are equal up to ASCII case. A null leaves
  the field alone; a value of the wrong type leaves it alone too and makes the whole decode
  report an error, while the remaining fields are still read. A \<open>map[string]any\<close> is kept as the
  list of its entries in key order, which is how it is written; a number in one keeps its text
  (Go holds it as a \<open>float64\<close>, whose rounding is not modelled).
\<close>

section \<open>Fields\<close>

definition lower :: "char \<Rightarrow> char" where
  "lower c = (if in_range 65 90 c then char_of (byte c + 32) else c)"

definition equal_fold :: "string \<Rightarrow> string \<Rightarrow> bool" where
  "equal_fold a b \<longleftrightarrow> map lower a = map lower b"

lemma equal_fold_refl [simp]: "equal_fold a a"
  by (simp add: equal_fold_def)

definition no_upper :: "string \<Rightarrow> bool" where
  "no_upper s \<longleftrightarrow> list_all (\<lambda>c. \<not> in_range 65 90 c) s"

lemma equal_fold_no_upper: "no_upper a \<Longrightarrow> no_upper b \<Longrightarrow> equal_fold a b \<longleftrightarrow> a = b"
proof -
  have "map lower s = s" if "no_upper s" for s
    using that by (induction s) (simp_all add: no_upper_def lower_def)
  then show "no_upper a \<Longrightarrow> no_upper b \<Longrightarrow> equal_fold a b \<longleftrightarrow> a = b"
    by (simp add: equal_fold_def)
qed

text \<open>One field: its value and whether every value given for it had the right type.\<close>

fun dec_field :: "(json \<Rightarrow> 'a option) \<Rightarrow> string \<Rightarrow> (string \<times> json) list \<Rightarrow> 'a \<Rightarrow> 'a \<times> bool" where
  "dec_field conv k [] old = (old, True)"
| "dec_field conv k ((k', j) # kvs) old =
     (if equal_fold k' k \<and> j \<noteq> JNull then
        (case conv j of
           Some x \<Rightarrow> dec_field conv k kvs x
         | None \<Rightarrow> (fst (dec_field conv k kvs old), False))
      else dec_field conv k kvs old)"

lemma dec_field_append:
  "snd (dec_field conv k xs old) \<Longrightarrow>
   dec_field conv k (xs @ ys) old = dec_field conv k ys (fst (dec_field conv k xs old))"
  by (induction xs arbitrary: old) (auto split: option.splits)

lemma dec_field_absent:
  "\<forall>k' \<in> fst ` set kvs. \<not> equal_fold k' k \<Longrightarrow> dec_field conv k kvs old = (old, True)"
  by (induction kvs) auto

definition conv_str :: "json \<Rightarrow> string option" where
  "conv_str j = (case j of JStr s \<Rightarrow> Some s | _ \<Rightarrow> None)"

definition conv_bool :: "json \<Rightarrow> bool option" where
  "conv_bool j = (case j of JBool b \<Rightarrow> Some b | _ \<Rightarrow> None)"

text \<open>A 64-bit integer's text: digits with an optional sign, in range.\<close>

definition parse_int64 :: "string \<Rightarrow> int option" where
  "parse_int64 s =
     (let (neg, ds) = (case s of [] \<Rightarrow> (False, s) | c # cs \<Rightarrow> if c = CHR ''-'' then (True, cs) else (False, s));
          v = (if neg then - int (read_nat ds) else int (read_nat ds))
      in if ds \<noteq> [] \<and> list_all is_digit ds \<and> - (2 ^ 63) \<le> v \<and> v < 2 ^ 63 then Some v else None)"

definition int64_ok :: "int \<Rightarrow> bool" where
  "int64_ok i \<longleftrightarrow> - (2 ^ 63) \<le> i \<and> i < 2 ^ 63"

lemma parse_show_int64: "int64_ok i \<Longrightarrow> parse_int64 (show_int i) = Some i"
proof (cases "i < 0")
  case True
  then show "int64_ok i \<Longrightarrow> ?thesis"
    by (simp add: parse_int64_def show_int_def show_nat_digits int64_ok_def)
next
  case False
  obtain c cs where c: "show_nat (nat i) = c # cs" by (metis show_nat_not_Nil neq_Nil_conv)
  with show_nat_sign [of "nat i"] show_nat_digits [of "nat i"] read_show_nat [of "nat i"]
  have "c \<noteq> CHR ''-''" "is_digit c" "list_all is_digit cs" "read_nat (c # cs) = nat i"
    by simp_all
  with False c show "int64_ok i \<Longrightarrow> ?thesis"
    by (simp add: parse_int64_def show_int_def int64_ok_def)
qed

definition conv_int :: "json \<Rightarrow> int option" where
  "conv_int j = (case j of JNum l \<Rightarrow> parse_int64 l | _ \<Rightarrow> None)"

text \<open>Fields written always, and fields left out when they hold the zero value.\<close>

definition fld_str :: "string \<Rightarrow> string \<Rightarrow> (string \<times> json) list" where
  "fld_str k s = [(k, JStr s)]"

definition omit_str :: "string \<Rightarrow> string \<Rightarrow> (string \<times> json) list" where
  "omit_str k s = (if s = [] then [] else [(k, JStr s)])"

definition fld_int :: "string \<Rightarrow> int \<Rightarrow> (string \<times> json) list" where
  "fld_int k i = [(k, JNum (show_int i))]"

definition omit_int :: "string \<Rightarrow> int \<Rightarrow> (string \<times> json) list" where
  "omit_int k i = (if i = 0 then [] else [(k, JNum (show_int i))])"

definition fld_bool :: "string \<Rightarrow> bool \<Rightarrow> (string \<times> json) list" where
  "fld_bool k b = [(k, JBool b)]"

definition omit_bool :: "string \<Rightarrow> bool \<Rightarrow> (string \<times> json) list" where
  "omit_bool k b = (if b then [(k, JBool b)] else [])"

lemmas field_writers = fld_str_def omit_str_def fld_int_def omit_int_def fld_bool_def omit_bool_def

section \<open>Raw members\<close>

text \<open>
  The members of an object with the text of each value, as a \<open>json.RawMessage\<close> field holds it.
\<close>

fun raw_members :: "nat \<Rightarrow> string \<Rightarrow> (string \<times> string) list option" where
  "raw_members 0 s = None"
| "raw_members (Suc n) s =
     (case skip_ws s of
        [] \<Rightarrow> None
      | q # qs \<Rightarrow>
          if q \<noteq> CHR 0x22 then None
          else (case read_body qs of
             None \<Rightarrow> None
           | Some (k, r) \<Rightarrow>
               (case skip_ws r of
                  [] \<Rightarrow> None
                | c # cs \<Rightarrow>
                    if c \<noteq> CHR '':'' then None
                    else
                      let v = skip_ws cs in
                      (case read_value (2 * length v + 1) v of
                         None \<Rightarrow> None
                       | Some (_, r') \<Rightarrow>
                           (case skip_ws r' of
                              [] \<Rightarrow> None
                            | d # ds \<Rightarrow>
                                if d = CHR '','' then
                                  map_option (\<lambda>kvs. (k, take (length v - length r') v) # kvs) (raw_members n ds)
                                else if d = CHR ''}'' then Some [(k, take (length v - length r') v)]
                                else None)))))"

definition raw_object :: "string \<Rightarrow> (string \<times> string) list" where
  "raw_object s =
     (case skip_ws s of
        [] \<Rightarrow> []
      | c # cs \<Rightarrow> (case raw_members (length s) cs of None \<Rightarrow> [] | Some kvs \<Rightarrow> kvs))"

fun last_raw :: "string \<Rightarrow> (string \<times> string) list \<Rightarrow> string \<Rightarrow> string" where
  "last_raw k [] old = old"
| "last_raw k ((k', t) # kvs) old = last_raw k kvs (if equal_fold k' k then t else old)"

section \<open>Maps (common.go)\<close>

type_synonym string_encoded_map = "(string \<times> json) list"

fun put_key :: "string \<Rightarrow> json \<Rightarrow> string_encoded_map \<Rightarrow> string_encoded_map" where
  "put_key k v [] = [(k, v)]"
| "put_key k v ((k', v') # m) =
     (if k = k' then (k, v) # m else if k < k' then (k, v) # (k', v') # m else (k', v') # put_key k v m)"

text \<open>The entries of an object as a Go map holds them: the last of several with one key.\<close>

definition canon_entries :: "(string \<times> json) list \<Rightarrow> string_encoded_map" where
  "canon_entries kvs = foldl (\<lambda>m (k, v). put_key k v m) [] kvs"

fun json_canon :: "json \<Rightarrow> json" where
  "json_canon (JArr js) = JArr (map json_canon js)"
| "json_canon (JObj kvs) = JObj (canon_entries (map (\<lambda>(k, v). (k, json_canon v)) kvs))"
| "json_canon j = j"

definition map_of_object :: "(string \<times> json) list \<Rightarrow> string_encoded_map" where
  "map_of_object kvs = canon_entries (map (\<lambda>(k, v). (k, json_canon v)) kvs)"

text \<open>
  \<open>StringEncodedMap.UnmarshalJSON\<close>: an object, or a string that holds one. \<open>Inl\<close> is its error;
  a null is the nil map, which is the empty list here.
\<close>

definition sem_of_json :: "json \<Rightarrow> string_encoded_map option" where
  "sem_of_json j = (case j of JObj kvs \<Rightarrow> Some (map_of_object kvs) | JNull \<Rightarrow> Some [] | _ \<Rightarrow> None)"

definition unmarshal_string_encoded_map :: "string \<Rightarrow> string_encoded_map result" where
  "unmarshal_string_encoded_map data =
     (case json_parse data of
        None \<Rightarrow> Inl ''invalid JSON''
      | Some j \<Rightarrow>
          (case sem_of_json j of
             Some m \<Rightarrow> Inr m
           | None \<Rightarrow>
               (case conv_str j of
                  None \<Rightarrow> Inl ''cannot unmarshal into string''
                | Some s \<Rightarrow>
                    (case json_parse s of
                       None \<Rightarrow> Inl ''invalid JSON''
                     | Some j' \<Rightarrow>
                         (case sem_of_json j' of
                            None \<Rightarrow> Inl ''cannot unmarshal into map''
                          | Some m \<Rightarrow> Inr m)))))"

definition map_to_json :: "string_encoded_map \<Rightarrow> json" where
  "map_to_json m = JObj m"

definition sem_to_string :: "string_encoded_map \<Rightarrow> string" where
  "sem_to_string m = json_print (map_to_json m)"

definition get_string :: "string_encoded_map \<Rightarrow> string \<Rightarrow> string option" where
  "get_string m key = Option.bind (map_of m key) conv_str"

definition get_bool :: "string_encoded_map \<Rightarrow> string \<Rightarrow> bool option" where
  "get_bool m key = Option.bind (map_of m key) conv_bool"

definition get_slice :: "string_encoded_map \<Rightarrow> string \<Rightarrow> json list option" where
  "get_slice m key = (case map_of m key of Some (JArr js) \<Rightarrow> Some js | _ \<Rightarrow> None)"

definition as_string_encoded_map :: "json \<Rightarrow> string_encoded_map option" where
  "as_string_encoded_map v = (case v of JObj m \<Rightarrow> Some m | _ \<Rightarrow> None)"

definition get_map :: "string_encoded_map \<Rightarrow> string \<Rightarrow> string_encoded_map option" where
  "get_map m key = Option.bind (map_of m key) as_string_encoded_map"

text \<open>What the program builds or decodes: keys in order, nested objects as Go holds them.\<close>

definition sem_ok :: "string_encoded_map \<Rightarrow> bool" where
  "sem_ok m \<longleftrightarrow> sorted_wrt (<) (map fst m) \<and> list_all (\<lambda>kv. valid_utf8 (fst kv) \<and> json_ok (snd kv)) m
     \<and> list_all (\<lambda>kv. json_canon (snd kv) = snd kv) m"

lemma put_key_last: "\<forall>k' \<in> fst ` set m. k' < k \<Longrightarrow> put_key k v m = m @ [(k, v)]"
  by (induction m) (auto dest: less_asym)

lemma canon_entries_sorted: "sorted_wrt (<) (map fst kvs) \<Longrightarrow> canon_entries kvs = kvs"
proof (induction kvs rule: rev_induct)
  case Nil
  then show ?case by (simp add: canon_entries_def)
next
  case (snoc kv kvs)
  then have "canon_entries kvs = kvs" by (simp add: sorted_wrt_append)
  with snoc.prems put_key_last [of kvs "fst kv" "snd kv"] show ?case
    by (cases kv) (simp add: canon_entries_def sorted_wrt_append)
qed

lemma map_of_object_ok: "sem_ok m \<Longrightarrow> map_of_object m = m"
proof -
  assume m: "sem_ok m"
  then have "map (\<lambda>(k, v). (k, json_canon v)) m = m"
    by (intro map_idI) (auto simp: sem_ok_def list_all_iff)
  with m show ?thesis by (simp add: map_of_object_def sem_ok_def canon_entries_sorted)
qed

lemma put_key_fst: "fst ` set (put_key k v m) = insert k (fst ` set m)"
  by (induction k v m rule: put_key.induct) (auto simp: insert_commute)

lemma put_key_sorted: "sorted_wrt (<) (map fst m) \<Longrightarrow> sorted_wrt (<) (map fst (put_key k v m))"
proof (induction m)
  case Nil
  then show ?case by simp
next
  case (Cons p m)
  obtain k' v' where p: "p = (k', v')" by (rule prod.exhaust)
  have "\<forall>x \<in> fst ` set (put_key k v m). k' < x" if "k' < k"
    using Cons.prems that p by (auto simp: put_key_fst)
  with Cons p show ?case
    by (cases k k' rule: linorder_cases) (auto dest: order.strict_trans)
qed

lemma canon_entries_in_order: "sorted_wrt (<) (map fst (canon_entries kvs))"
proof (induction kvs rule: rev_induct)
  case Nil
  then show ?case by (simp add: canon_entries_def)
next
  case (snoc kv kvs)
  then show ?case
    by (cases kv) (simp add: canon_entries_def put_key_sorted)
qed

lemma map_of_put_key: "sorted_wrt (<) (map fst m) \<Longrightarrow> map_of (put_key k v m) = (map_of m)(k \<mapsto> v)"
  by (induction m) (auto simp: fun_eq_iff)

lemma map_of_canon: "map_of (canon_entries kvs) k = map_of (rev kvs) k"
proof (induction kvs rule: rev_induct)
  case Nil
  then show ?case by (simp add: canon_entries_def)
next
  case (snoc kv kvs)
  obtain k' v' where kv: "kv = (k', v')" by (rule prod.exhaust)
  have "canon_entries (kvs @ [kv]) = put_key k' v' (canon_entries kvs)"
    by (simp add: canon_entries_def kv)
  with snoc kv show ?case
    by (simp add: map_of_put_key canon_entries_in_order)
qed

lemma unmarshal_sem_print:
  assumes "sem_ok m"
  shows "unmarshal_string_encoded_map (json_print (JObj m)) = Inr m"
proof -
  have "json_ok (JObj m)" using assms by (auto simp: sem_ok_def list_all_iff)
  from json_parse_print [OF this] map_of_object_ok [OF assms] show ?thesis
    by (simp add: unmarshal_string_encoded_map_def sem_of_json_def)
qed

section \<open>Raw members of what was written\<close>

lemma raw_members_print:
  "list_all (\<lambda>kv. valid_utf8 (fst kv) \<and> json_ok (snd kv)) kvs \<Longrightarrow> kvs \<noteq> [] \<Longrightarrow> length kvs \<le> n \<Longrightarrow>
   raw_members n (print_members kvs @ CHR ''}'' # r) = Some (map (\<lambda>(k, j). (k, json_print j)) kvs)"
proof (induction kvs arbitrary: n)
  case (Cons kv kvs)
  obtain k j where kv: "kv = (k, j)" by (cases kv)
  obtain m where n: "n = Suc m" using Cons.prems by (cases n) auto
  define rest where "rest = (if kvs = [] then CHR ''}'' # r else CHR '','' # print_members kvs @ CHR ''}'' # r)"
  have whole: "print_members (kv # kvs) @ CHR ''}'' # r = CHR 0x22 # print_body k @ CHR 0x22 # CHR '':'' # json_print j @ rest"
    by (cases kvs) (auto simp: kv rest_def print_string_def)
  have ok: "valid_utf8 k" "json_ok j" using Cons.prems by (simp_all add: kv)
  have key: "read_body (print_body k @ CHR 0x22 # CHR '':'' # json_print j @ rest) = Some (k, CHR '':'' # json_print j @ rest)"
    using read_print_body [OF ok(1)] by simp
  have v: "skip_ws (json_print j @ rest) = json_print j @ rest"
    using json_print_first [OF ok(2)] by (auto simp: skip_ws_Cons)
  have "ends_number rest" by (simp add: rest_def)
  then have val: "read_value (2 * length (json_print j @ rest) + 1) (json_print j @ rest) = Some (j, rest)"
    by (intro read_print(1) [OF ok(2)]) simp_all
  show ?case
  proof (cases "kvs = []")
    case True
    then show ?thesis
      unfolding n whole using key v val by (simp add: kv skip_ws_Cons rest_def Let_def del: read_value.simps)
  next
    case False
    have "raw_members m (print_members kvs @ CHR ''}'' # r) = Some (map (\<lambda>(k, j). (k, json_print j)) kvs)"
      using Cons.IH [of m] Cons.prems n False by simp
    with False show ?thesis
      unfolding n whole using key v val by (simp add: kv skip_ws_Cons rest_def Let_def del: read_value.simps)
  qed
qed simp

lemma print_members_length: "length kvs \<le> length (print_members kvs)"
  by (induction kvs rule: induct_list012) auto

lemma raw_object_print:
  assumes "json_ok (JObj kvs)"
  shows "raw_object (json_print (JObj kvs)) = map (\<lambda>(k, j). (k, json_print j)) kvs"
proof (cases "kvs = []")
  case True
  then show ?thesis by (simp add: raw_object_def skip_ws_Cons)
next
  case False
  with assms raw_members_print [of kvs "length (json_print (JObj kvs))" "[]"] print_members_length [of kvs]
  show ?thesis by (simp add: raw_object_def skip_ws_Cons del: raw_members.simps)
qed

definition quote :: string where "quote = [CHR 0x22]"

lemmas fuel_numeral =
  read_value.simps(2) [of "pred_numeral k" for k, folded numeral_eq_Suc]
  read_items.simps(2) [of "pred_numeral k" for k, folded numeral_eq_Suc]
  read_members.simps(2) [of "pred_numeral k" for k, folded numeral_eq_Suc]
  raw_members.simps(2) [of "pred_numeral k" for k, folded numeral_eq_Suc]

text \<open>What it takes to evaluate the reader on a text that is spelled out.\<close>

lemmas reader_eval =
  quote_def json_parse_def skip_ws_def is_ws_def byte_def read_body.simps simple_escape_def fuel_numeral raw_object_def
  read_num_def read_sign_def read_int_def read_frac_def read_exp_def take_digits_def is_digit_def cut_prefix_def has_prefix_def

end
