(* ===== verification/Tool_Calls.thy ===== *)
theory Tool_Calls
  imports Json_Struct
begin

text \<open>
  Tool definitions and tool calls: \<open>model/tools_types.go\<close> (the wire types, the constructors and
  the decoder of a call's arguments) and \<open>driver/tools.go\<close> (the check of a session's caller
  tools and the input schema each is declared with).
\<close>

section \<open>Decoding a tool call (tools_types.go)\<close>

record tool_call_function =
  fn_name :: string
  fn_arguments :: string_encoded_map

text \<open>
  \<open>ToolCallFunction.UnmarshalJSON\<close>. The arguments an agent sends are an object, an object in a
  string, or one of the empty forms, which become the empty map. The raw text is empty when the
  key is absent.
\<close>


definition arguments_of_raw :: "string \<Rightarrow> string_encoded_map result" where
  "arguments_of_raw arg =
     (if arg = [] \<or> arg = quote @ quote \<or> arg = ''null'' \<or> arg = quote @ ''{}'' @ quote then Inr []
      else if has_prefix arg quote \<and> has_suffix arg quote then
        (case go_unquote arg of
           None \<Rightarrow> Inl ''invalid syntax''
         | Some unquoted \<Rightarrow> unmarshal_string_encoded_map unquoted)
      else unmarshal_string_encoded_map arg)"

definition unmarshal_tool_call_function :: "string \<Rightarrow> tool_call_function result" where
  "unmarshal_tool_call_function data =
     (case json_parse data of
        Some (JObj kvs) \<Rightarrow>
          (let (name, ok) = dec_field conv_str ''name'' kvs []
           in if \<not> ok then Inl ''name is not a string''
              else result_bind (arguments_of_raw (last_raw ''arguments'' (raw_object data) []))
                     (\<lambda>m. Inr \<lparr>fn_name = name, fn_arguments = m\<rparr>))
      | Some JNull \<Rightarrow> Inr \<lparr>fn_name = [], fn_arguments = []\<rparr>
      | Some _ \<Rightarrow> Inl ''not an object''
      | None \<Rightarrow> Inl ''invalid JSON'')"

text \<open>
  How most models send arguments: the text of an object, as a JSON string. And how some do: the
  object itself. Both give the arguments back.
\<close>

lemma print_string_quotes: "has_prefix (print_string s) quote" "has_suffix (print_string s) quote"
  using has_suffix_append [of "CHR 0x22 # print_body s" quote]
  by (simp_all add: print_string_def quote_def has_prefix_def)

lemma print_string_not_Nil: "print_string s \<noteq> []"
  by (simp add: print_string_def)

lemma print_members_first: "kvs \<noteq> [] \<Longrightarrow> \<exists>cs. print_members kvs = CHR 0x22 # cs"
  by (cases kvs rule: print_members.cases) (simp_all add: print_string_def)

lemma arguments_of_object_text:
  assumes "sem_ok m"
  shows "arguments_of_raw (json_print (JObj m)) = Inr m"
  using unmarshal_sem_print [OF assms]
  by (simp add: arguments_of_raw_def has_prefix_def quote_def)

lemma unquote_print_object:
  assumes "sem_ok m"
  shows "go_unquote (print_string (json_print (JObj m))) = Some (json_print (JObj m))"
proof -
  have "json_ok (JObj m)" using assms by (auto simp: sem_ok_def list_all_iff)
  then show ?thesis by (intro go_unquote_print json_print_valid)
qed

lemma arguments_of_string:
  assumes "sem_ok m"
  shows "arguments_of_raw (print_string (json_print (JObj m))) = Inr m"
proof (cases "m = []")
  case True
  have "print_string (json_print (JObj [])) = quote @ ''{}'' @ quote" 
    by (simp add: print_string_def print_body_def print_chunk_def byte_def quote_def)
  with True show ?thesis by (simp add: arguments_of_raw_def)
next
  case False
  have u: "go_unquote (print_string (json_print (JObj m))) = Some (json_print (JObj m))"
    by (rule unquote_print_object [OF assms])
  have "go_unquote (quote @ quote) = Some []" "go_unquote ''null'' = None"
    "go_unquote (quote @ ''{}'' @ quote) = Some ''{}''"
    by (simp_all add: go_unquote_def unquote_body.simps byte_def quote_def)
  moreover from False have "json_print (JObj m) \<noteq> ''{}''"
    using print_members_first [of m] by auto
  ultimately have "print_string (json_print (JObj m)) \<notin> {quote @ quote, ''null'', quote @ ''{}'' @ quote}"
    using u by auto
  with u unmarshal_sem_print [OF assms] print_string_quotes [of "json_print (JObj m)"]
    print_string_not_Nil [of "json_print (JObj m)"]
  show ?thesis
    by (simp add: arguments_of_raw_def del: json_print.simps)
qed

lemma call_decoded:
  "valid_utf8 n \<Longrightarrow> json_ok a \<Longrightarrow>
   unmarshal_tool_call_function (json_print (JObj [(''name'', JStr n), (''arguments'', a)]))
     = result_bind (arguments_of_raw (json_print a)) (\<lambda>m. Inr \<lparr>fn_name = n, fn_arguments = m\<rparr>)"
  "valid_utf8 n \<Longrightarrow> unmarshal_tool_call_function (json_print (JObj [(''name'', JStr n)]))
     = result_bind (arguments_of_raw []) (\<lambda>m. Inr \<lparr>fn_name = n, fn_arguments = m\<rparr>)"
  using json_parse_print [of "JObj [(''name'', JStr n), (''arguments'', a)]"] raw_object_print [of "[(''name'', JStr n), (''arguments'', a)]"]
    json_parse_print [of "JObj [(''name'', JStr n)]"] raw_object_print [of "[(''name'', JStr n)]"]
  by (simp_all add: unmarshal_tool_call_function_def conv_str_def equal_fold_no_upper no_upper_def byte_def in_range_def
      del: json_print.simps)

lemma empty_arguments:
  "arguments_of_raw [] = Inr []" "arguments_of_raw (json_print JNull) = Inr []"
  "arguments_of_raw (json_print (JStr [])) = Inr []" "arguments_of_raw (json_print (JStr ''{}'')) = Inr []"
  by (simp_all add: arguments_of_raw_def print_string_def print_body_def print_chunk_def byte_def quote_def)

text \<open>A slash written with a backslash before it: JSON reads the slash, the unquoting refuses the string.\<close>

lemma read_slash_string:
  assumes "valid_utf8 t" "valid_utf8 u"
  shows "json_parse (CHR 0x22 # print_body t @ CHR 0x5C # CHR ''/'' # print_body u @ [CHR 0x22]) = Some (JStr (t @ CHR ''/'' # u))"
proof -
  have "read_body (print_body u @ [CHR 0x22]) = Some (u, [])" by (rule read_print_body [OF assms(2)])
  then have "read_body (CHR 0x5C # CHR ''/'' # print_body u @ [CHR 0x22]) = Some (CHR ''/'' # u, [])"
    by (subst read_body.simps) (simp add: byte_def simple_escape_def)
  from read_print_body_append [OF assms(1) this] show ?thesis
    by (simp add: json_parse_def skip_ws_Cons skip_ws_def)
qed

lemma arguments_of_slash:
  assumes "valid_utf8 t"
  shows "arguments_of_raw (CHR 0x22 # print_body t @ CHR 0x5C # CHR ''/'' # print_body u @ [CHR 0x22]) = Inl ''invalid syntax''"
proof -
  let ?raw = "CHR 0x22 # print_body t @ CHR 0x5C # CHR ''/'' # print_body u @ [CHR 0x22]"
  have "?raw \<noteq> x" if "CHR 0x5C \<notin> set x" for x using that by auto
  then have "?raw \<notin> {[], quote @ quote, ''null'', quote @ ''{}'' @ quote}" by (simp add: quote_def del: append.simps)
  moreover have "has_prefix ?raw quote" by (simp add: has_prefix_def quote_def)
  moreover have "has_suffix ?raw quote"
    using has_suffix_append [of "CHR 0x22 # print_body t @ CHR 0x5C # CHR ''/'' # print_body u" quote] by (simp add: quote_def)
  ultimately show ?thesis using go_unquote_slash [OF assms] by (simp add: arguments_of_raw_def)
qed

text \<open>
  \<open>NewToolCall\<close> passes the parameters through their text, and a parameter map survives that.
\<close>

record tool_call =
  tc_id :: string
  tc_type :: string
  tc_function :: tool_call_function

definition new_tool_call :: "string \<Rightarrow> string_encoded_map \<Rightarrow> tool_call" where
  "new_tool_call name params =
     (let arguments = (case unmarshal_string_encoded_map (json_print (JObj params)) of Inl _ \<Rightarrow> [] | Inr m \<Rightarrow> m)
      in \<lparr>tc_id = [], tc_type = ''function'',
          tc_function = \<lparr>fn_name = name, fn_arguments = arguments\<rparr>\<rparr>)"

section \<open>Tool definitions (tools_types.go)\<close>

datatype tool_param_type =
    ParamUnset | ParamObject | ParamString | ParamInteger | ParamNumber | ParamBoolean | ParamArray
  | ParamNull

fun param_type_value :: "tool_param_type \<Rightarrow> string" where
  "param_type_value ParamUnset = []"
| "param_type_value ParamObject = ''object''"
| "param_type_value ParamString = ''string''"
| "param_type_value ParamInteger = ''integer''"
| "param_type_value ParamNumber = ''number''"
| "param_type_value ParamBoolean = ''boolean''"
| "param_type_value ParamArray = ''array''"
| "param_type_value ParamNull = ''null''"

datatype tool_property = ToolProperty
  (prop_type: tool_param_type)
  (prop_any_of: "tool_property list")
  (prop_enum: "json list")
  (prop_title: string)
  (prop_description: string)
  (prop_properties: "(string \<times> tool_property) list option")
  (prop_items: "tool_property option")
  (prop_required: "string list option")

record tool_parameters =
  params_type :: tool_param_type
  params_title :: string
  params_properties :: "(string \<times> tool_property) list"
  params_required :: "string list option"

record tool_function =
  tf_name :: string
  tf_description :: string
  tf_parameters :: tool_parameters
  tf_required :: "string list option"

record tool =
  tool_type :: string
  tool_fn :: tool_function

definition new_tool_parameters :: "(string \<times> tool_property) list \<Rightarrow> string list \<Rightarrow> tool_parameters" where
  "new_tool_parameters properties required =
     \<lparr>params_type = ParamObject, params_title = ''params'', params_properties = properties,
      params_required = (if required \<noteq> [] then Some required else None)\<rparr>"

definition new_tool ::
  "string \<Rightarrow> string \<Rightarrow> (string \<times> tool_property) list \<Rightarrow> string list \<Rightarrow> tool" where
  "new_tool name description properties required =
     \<lparr>tool_type = ''function'',
      tool_fn = \<lparr>tf_name = name, tf_description = description,
        tf_parameters = new_tool_parameters properties required,
        tf_required = (if required \<noteq> [] then Some required else None)\<rparr>\<rparr>"

definition string_param :: "string \<Rightarrow> string \<Rightarrow> tool_property" where
  "string_param title description = ToolProperty ParamString [] [] title description None None None"

definition integer_param :: "string \<Rightarrow> string \<Rightarrow> tool_property" where
  "integer_param title description = ToolProperty ParamInteger [] [] title description None None None"

definition object_param :: "string \<Rightarrow> string \<Rightarrow> tool_property" where
  "object_param title description = ToolProperty ParamObject [] [] title description None None None"

definition array_param :: "string \<Rightarrow> string \<Rightarrow> tool_property" where
  "array_param title description = ToolProperty ParamArray [] [] title description None None None"

text \<open>The JSON Schema form the struct tags give: empty optional fields are left out.\<close>

definition omit_strs :: "string \<Rightarrow> string list option \<Rightarrow> (string \<times> json) list" where
  "omit_strs k v = (case v of None \<Rightarrow> [] | Some xs \<Rightarrow> [(k, JArr (map JStr xs))])"

fun property_json :: "tool_property \<Rightarrow> json" where
  "property_json (ToolProperty ty any_of enum title description properties items required) =
     JObj (omit_str ''type'' (param_type_value ty)
       @ (if any_of = [] then [] else [(''anyOf'', JArr (map property_json any_of))])
       @ (if enum = [] then [] else [(''enum'', JArr enum)])
       @ fld_str ''title'' title
       @ fld_str ''description'' description
       @ (case properties of None \<Rightarrow> []
          | Some ps \<Rightarrow> [(''properties'', JObj (canon_entries (map (\<lambda>(k, p). (k, property_json p)) ps)))])
       @ (case items of None \<Rightarrow> [] | Some p \<Rightarrow> [(''items'', property_json p)])
       @ omit_strs ''required'' required)"

definition properties_json :: "(string \<times> tool_property) list \<Rightarrow> json" where
  "properties_json ps = JObj (canon_entries (map (\<lambda>(k, p). (k, property_json p)) ps))"

definition parameters_entries :: "tool_parameters \<Rightarrow> (string \<times> json) list" where
  "parameters_entries p =
     fld_str ''type'' (param_type_value (params_type p))
     @ fld_str ''title'' (params_title p)
     @ (if params_properties p = [] then [] else [(''properties'', properties_json (params_properties p))])
     @ omit_strs ''required'' (params_required p)"

section \<open>Caller tools (driver/tools.go)\<close>

definition delete_key :: "string \<Rightarrow> string_encoded_map \<Rightarrow> string_encoded_map" where
  "delete_key k m = filter (\<lambda>kv. fst kv \<noteq> k) m"

text \<open>
  \<open>toolInputSchema\<close>: the parameters as a map, an empty title taken out, the type set, and
  properties and required filled in when they are absent.
\<close>

definition tool_input_schema :: "tool \<Rightarrow> string_encoded_map" where
  "tool_input_schema t =
     (let schema = map_of_object (parameters_entries (tf_parameters (tool_fn t)));
          schema = (if get_string schema ''title'' = Some [] \<or> get_string schema ''title'' = None
                    then delete_key ''title'' schema else schema);
          schema = put_key ''type'' (JStr ''object'') schema;
          schema = (if map_of schema ''properties'' = None then put_key ''properties'' (JObj []) schema
                    else schema);
          schema = (case tf_required (tool_fn t) of
                      None \<Rightarrow> schema
                    | Some req \<Rightarrow> if map_of schema ''required'' = None
                                  then put_key ''required'' (JArr (map JStr req)) schema else schema)
      in schema)"

record caller_tool =
  ct_name :: string
  ct_description :: string
  ct_schema :: string_encoded_map

text \<open>
  The loop of \<open>callerTools\<close>, with the names seen so far and the tools built so far. Its errors
  are "a tool in SessionConfig.Tools has no name" and "tool %q appears twice".
\<close>

datatype caller_tools_error = ToolWithoutName | ToolTwice string

fun caller_tools_from ::
  "string list \<Rightarrow> caller_tool list \<Rightarrow> tool list \<Rightarrow> caller_tools_error + caller_tool list" where
  "caller_tools_from seen out [] = Inr out"
| "caller_tools_from seen out (t # ts) =
     (let name = tf_name (tool_fn t) in
      if name = [] then Inl ToolWithoutName
      else if name \<in> set seen then Inl (ToolTwice name)
      else caller_tools_from (name # seen)
             (out @ [\<lparr>ct_name = name, ct_description = tf_description (tool_fn t),
                      ct_schema = tool_input_schema t\<rparr>]) ts)"

definition caller_tools :: "tool list \<Rightarrow> caller_tools_error + caller_tool list" where
  "caller_tools tools = caller_tools_from [] [] tools"

text \<open>
  \<open>checkCallerTools\<close>: what a session asks for against what its backend can do.
\<close>

record session_tools =
  cfg_tools :: "tool list"
  cfg_has_call_tool :: bool
  cfg_only_caller_tools :: bool

record tool_capabilities =
  caps_tools :: bool
  caps_only_caller_tools :: bool

definition check_caller_tools :: "session_tools \<Rightarrow> tool_capabilities \<Rightarrow> string option" where
  "check_caller_tools cfg caps =
     (if cfg_tools cfg \<noteq> [] \<and> \<not> cfg_has_call_tool cfg then
        Some ''driver: SessionConfig.Tools needs CallTool to run them''
      else if cfg_tools cfg \<noteq> [] \<and> \<not> caps_tools caps then
        Some ''driver: this backend cannot take caller tools''
      else if cfg_only_caller_tools cfg \<and> \<not> caps_only_caller_tools caps then
        Some ''driver: this backend cannot turn off the agent's own tools (OnlyCallerTools)''
      else None)"

section \<open>Facts\<close>

lemma delete_key_sorted: "sorted_wrt (<) (map fst m) \<Longrightarrow> sorted_wrt (<) (map fst (delete_key k m))"
  by (induction m) (auto simp: delete_key_def)

lemma map_of_delete_key: "map_of (delete_key k m) = (map_of m)(k := None)"
  by (induction m) (auto simp: delete_key_def fun_eq_iff)

lemma map_of_object_sorted: "sorted_wrt (<) (map fst (map_of_object kvs))"
  by (simp add: map_of_object_def canon_entries_in_order)

lemma map_of_object_lookup:
  "map_of (map_of_object kvs) k = map_option json_canon (map_of (rev kvs) k)"
proof -
  have "map (\<lambda>(k, v). (k, json_canon v)) kvs = map (\<lambda>kv. (fst kv, json_canon (snd kv))) kvs"
    by (simp add: case_prod_beta)
  then show ?thesis
    by (simp add: map_of_object_def map_of_canon rev_map map_of_map case_prod_beta o_def
        flip: map_map)
qed

text \<open>The loop on the rest of the tools, whatever names and tools it already has.\<close>

definition caller_tool_of :: "tool \<Rightarrow> caller_tool" where
  "caller_tool_of t =
     \<lparr>ct_name = tf_name (tool_fn t), ct_description = tf_description (tool_fn t), ct_schema = tool_input_schema t\<rparr>"

lemma caller_tools_from_spec:
  "case caller_tools_from seen out ts of
     Inl e \<Rightarrow> \<not> distinct (map (tf_name \<circ> tool_fn) ts) \<or> [] \<in> set (map (tf_name \<circ> tool_fn) ts)
        \<or> set seen \<inter> set (map (tf_name \<circ> tool_fn) ts) \<noteq> {}
   | Inr res \<Rightarrow>
       distinct (map (tf_name \<circ> tool_fn) ts) \<and> [] \<notin> set (map (tf_name \<circ> tool_fn) ts)
       \<and> set seen \<inter> set (map (tf_name \<circ> tool_fn) ts) = {} \<and> res = out @ map caller_tool_of ts"
proof (induction ts arbitrary: seen out)
  case Nil
  then show ?case by simp
next
  case (Cons t ts)
  let ?n = "tf_name (tool_fn t)"
  show ?case
  proof (cases "?n = [] \<or> ?n \<in> set seen")
    case True
    then show ?thesis by (auto simp: Let_def)
  next
    case False
    then have "caller_tools_from seen out (t # ts)
        = caller_tools_from (?n # seen) (out @ [caller_tool_of t]) ts"
      by (simp add: Let_def caller_tool_of_def)
    with Cons.IH [of "?n # seen" "out @ [caller_tool_of t]"] False show ?thesis
      by (auto split: sum.splits)
  qed
qed

section \<open>Properties\<close>

text \<open>C26. A tool call's arguments come out as they were meant: a call whose arguments are an object, as
  \<open>json.Marshal\<close> writes it, and one whose arguments are a string that holds such an object decode to
  that object under the call's name; a null, an empty string, a string that holds the empty object and
  no arguments at all decode to the empty map.\<close>

theorem arguments_forms:
  assumes "sem_ok m" "valid_utf8 n"
  shows "list_all (\<lambda>a. unmarshal_tool_call_function (json_print (JObj [(''name'', JStr n), (''arguments'', a)]))
        = Inr \<lparr>fn_name = n, fn_arguments = m\<rparr>) [JObj m, JStr (json_print (JObj m))]
    \<and> list_all (\<lambda>a. unmarshal_tool_call_function (json_print (JObj ((''name'', JStr n) # a)))
        = Inr \<lparr>fn_name = n, fn_arguments = []\<rparr>)
        [[], [(''arguments'', JNull)], [(''arguments'', JStr [])], [(''arguments'', JStr ''{}'')]]"
proof -
  have m: "json_ok (JObj m)" using assms(1) by (auto simp: sem_ok_def list_all_iff)
  then have s: "json_ok (JStr (json_print (JObj m)))" using json_print_valid(1) [OF m] by simp
  have string: "arguments_of_raw (json_print (JStr (json_print (JObj m)))) = Inr m"
    using arguments_of_string [OF assms(1)] by simp
  have "json_ok JNull" "json_ok (JStr [])" "json_ok (JStr ''{}'')" by (simp_all add: byte_def)
  with m s string show ?thesis
    by (simp add: call_decoded [OF assms(2)] arguments_of_object_text [OF assms(1)] empty_arguments del: json_print.simps json_ok.simps)
qed

lemma sem_ok_example: "sem_ok [(''a'', JStr ''b''), (''n'', JNum (show_int 3))]"
  by (auto simp: sem_ok_def byte_def)

theorem arguments_forms_witness:
  "let m = [(''a'', JStr ''b''), (''n'', JNum (show_int 3))] in
   unmarshal_tool_call_function (json_print (JObj [(''name'', JStr ''f''), (''arguments'', JStr (json_print (JObj m)))]))
     = Inr \<lparr>fn_name = ''f'', fn_arguments = m\<rparr>"
  using arguments_forms [OF sem_ok_example, of "''f''"] by (simp add: Let_def byte_def del: json_print.simps)

text \<open>C38. A string of arguments that is good JSON can still be refused: the decoder unquotes it with
  Go's string literal rules, which do not have JSON's escaped slash. Whatever object the arguments are,
  if its text has a slash, writing that slash with a backslash before it, as JSON allows and some writers
  do, gives a string that JSON reads as the same object, and a tool call with these arguments is refused.\<close>

theorem arguments_slash_refused:
  assumes "sem_ok m" "json_print (JObj m) = t @ CHR ''/'' # u" "valid_utf8 t" "valid_utf8 u"
    and "raw = CHR 0x22 # print_body t @ CHR 0x5C # CHR ''/'' # print_body u @ [CHR 0x22]"
    and "json_parse data = Some (JObj kvs)" "snd (dec_field conv_str ''name'' kvs [])"
    and "last_raw ''arguments'' (raw_object data) [] = raw"
  shows "json_parse raw = Some (JStr (json_print (JObj m)))
    \<and> unmarshal_string_encoded_map (json_print (JObj m)) = Inr m
    \<and> unmarshal_tool_call_function data = Inl ''invalid syntax''"
proof (intro conjI)
  show "json_parse raw = Some (JStr (json_print (JObj m)))"
    using read_slash_string [OF assms(3,4)] by (simp only: assms(2,5))
  show "unmarshal_string_encoded_map (json_print (JObj m)) = Inr m" by (rule unmarshal_sem_print [OF assms(1)])
  have "arguments_of_raw raw = Inl ''invalid syntax''"
    unfolding assms(5) by (rule arguments_of_slash [OF assms(3)])
  then show "unmarshal_tool_call_function data = Inl ''invalid syntax''"
    using assms(6-8) by (simp add: unmarshal_tool_call_function_def result_bind_def case_prod_unfold)
qed

text \<open>The call \<^verbatim>\<open>{"name":"f","arguments":"{\"a\":\"\/\"}"}\<close>.\<close>

definition slash_arguments :: string where
  "slash_arguments =
     (let q = [CHR 0x5C, CHR 0x22] in
      quote @ ''{'' @ q @ ''a'' @ q @ '':'' @ q @ [CHR 0x5C, CHR ''/''] @ q @ ''}'' @ quote)"

definition slash_call :: string where
  "slash_call = ''{'' @ quote @ ''name'' @ quote @ '':'' @ quote @ ''f'' @ quote @ '','' @ quote @ ''arguments'' @ quote @ '':''
     @ slash_arguments @ ''}''"

lemma slash_call_read:
  "json_parse slash_call = Some (JObj [(''name'', JStr ''f''),
     (''arguments'', JStr (''{'' @ quote @ ''a'' @ quote @ '':'' @ quote @ ''/'' @ quote @ ''}''))])"
  "last_raw ''arguments'' (raw_object slash_call) [] = slash_arguments"
  by (simp_all add: slash_call_def slash_arguments_def reader_eval equal_fold_def lower_def in_range_def)

theorem arguments_slash_refused_witness: "unmarshal_tool_call_function slash_call = Inl ''invalid syntax''"
proof -
  let ?t = "''{'' @ quote @ ''a'' @ quote @ '':'' @ quote" and ?u = "quote @ ''}''"
  have "sem_ok [(''a'', JStr ''/'')]" by (simp add: sem_ok_def byte_def)
  moreover have "json_print (JObj [(''a'', JStr ''/'')]) = ?t @ CHR ''/'' # ?u" "valid_utf8 ?t" "valid_utf8 ?u"
    "slash_arguments = CHR 0x22 # print_body ?t @ CHR 0x5C # CHR ''/'' # print_body ?u @ [CHR 0x22]"
    "snd (dec_field conv_str ''name'' [(''name'', JStr ''f''), (''arguments'', JStr (?t @ ''/'' @ ?u))] [])"
    by (simp_all add: slash_arguments_def quote_def print_string_def print_body_def print_chunk_def byte_def conv_str_def equal_fold_def
        lower_def in_range_def)
  ultimately show ?thesis
    using arguments_slash_refused [of "[(''a'', JStr ''/'')]" ?t ?u slash_arguments slash_call] slash_call_read by simp
qed

text \<open>The tools a session declares to its agent are the caller's, in order, each under its own
  name and none of them unnamed; a list with an unnamed tool or the same name twice is refused, and
  every other list is accepted.\<close>

theorem caller_tools_names:
  "(case caller_tools ts of
      Inl e \<Rightarrow> \<not> (distinct (map (tf_name \<circ> tool_fn) ts) \<and> [] \<notin> set (map (tf_name \<circ> tool_fn) ts))
    | Inr out \<Rightarrow>
        distinct (map (tf_name \<circ> tool_fn) ts) \<and> [] \<notin> set (map (tf_name \<circ> tool_fn) ts)
        \<and> out = map (\<lambda>t. \<lparr>ct_name = tf_name (tool_fn t), ct_description = tf_description (tool_fn t),
                          ct_schema = tool_input_schema t\<rparr>) ts)"
  using caller_tools_from_spec [where seen = "[]" and out = "[]" and ts = ts] by (auto simp: caller_tools_def caller_tool_of_def split: sum.splits)

end
