(* ===== verification/Transcript.thy ===== *)
theory Transcript
  imports Prelude
begin

text \<open>
  The conversation model of \<open>transcript/transcript.go\<close>: blocks, entries, sessions, the active
  branch of a session (\<open>Branch\<close>), and its two readings, what the person sees (\<open>Linearize\<close>) and
  what the model is given (\<open>Context\<close>).

  A time is the number of nanoseconds since Go's zero time, so that \<open>IsZero\<close> is being 0. \<open>Raw\<close>, \<open>ModelContent\<close> and \<open>Compaction\<close>
  are options, \<open>None\<close> for Go's nil. The \<open>Vendor\<close> field, of type \<open>any\<close>, is a type variable.
\<close>

section \<open>Blocks, entries and sessions\<close>

datatype role = RoleOpaque | RoleUser | RoleAssistant | RoleSystem | RoleTool | OtherRole string

datatype block_kind =
  BlockText | BlockReasoning | BlockToolUse | BlockToolResult | BlockImage | BlockFile | OtherKind string

datatype call_status = StatusNone | StatusOK | StatusError | OtherStatus string

record block =
  b_kind :: block_kind
  b_text :: string
  b_tool_id :: string
  b_name :: string
  b_input :: string
  b_status :: call_status
  b_media_type :: string
  b_data :: string
  b_signature :: string
  b_uri :: string

definition empty_block :: "block_kind \<Rightarrow> block" where
  "empty_block k =
     \<lparr>b_kind = k, b_text = [], b_tool_id = [], b_name = [], b_input = [], b_status = StatusNone,
      b_media_type = [], b_data = [], b_signature = [], b_uri = []\<rparr>"

definition is_media :: "block \<Rightarrow> bool" where
  "is_media b \<longleftrightarrow> b_kind b = BlockImage \<or> b_kind b = BlockFile"

datatype audience = AudienceAll | AudienceModel | AudienceUser | AudienceNone

definition for_model :: "audience \<Rightarrow> bool" where
  "for_model a \<longleftrightarrow> a = AudienceAll \<or> a = AudienceModel"

definition for_user :: "audience \<Rightarrow> bool" where
  "for_user a \<longleftrightarrow> a = AudienceAll \<or> a = AudienceUser"

text \<open>An entry may carry a compaction, whose summary is entries again.\<close>

datatype entry = Entry
    (e_id: string) (e_parent: string) (e_role: role) (e_time: int) (e_content: "block list")
    (e_model_content: "block list option") (e_audience: audience)
    (e_compaction: "compaction option") (e_raw: "string option")
  and compaction = Compaction (c_summary: "entry list") (c_keep: string)

text \<open>Assignments to the fields of an entry.\<close>

fun set_id :: "string \<Rightarrow> entry \<Rightarrow> entry" where
  "set_id i (Entry _ p r t c mc a k w) = Entry i p r t c mc a k w"

fun set_parent :: "string \<Rightarrow> entry \<Rightarrow> entry" where
  "set_parent p (Entry i _ r t c mc a k w) = Entry i p r t c mc a k w"

fun set_role :: "role \<Rightarrow> entry \<Rightarrow> entry" where
  "set_role r (Entry i p _ t c mc a k w) = Entry i p r t c mc a k w"

fun set_content :: "block list \<Rightarrow> entry \<Rightarrow> entry" where
  "set_content c (Entry i p r t _ mc a k w) = Entry i p r t c mc a k w"

fun set_model_content :: "block list option \<Rightarrow> entry \<Rightarrow> entry" where
  "set_model_content mc (Entry i p r t c _ a k w) = Entry i p r t c mc a k w"

fun set_audience :: "audience \<Rightarrow> entry \<Rightarrow> entry" where
  "set_audience a (Entry i p r t c mc _ k w) = Entry i p r t c mc a k w"

fun set_compaction :: "compaction option \<Rightarrow> entry \<Rightarrow> entry" where
  "set_compaction k (Entry i p r t c mc a _ w) = Entry i p r t c mc a k w"

fun set_raw :: "string option \<Rightarrow> entry \<Rightarrow> entry" where
  "set_raw w (Entry i p r t c mc a k _) = Entry i p r t c mc a k w"

lemma set_id_sel [simp]:
  "e_id (set_id i e) = i" "e_parent (set_id i e) = e_parent e" "e_role (set_id i e) = e_role e"
  "e_content (set_id i e) = e_content e" "e_model_content (set_id i e) = e_model_content e"
  "e_audience (set_id i e) = e_audience e" "e_compaction (set_id i e) = e_compaction e"
  "e_raw (set_id i e) = e_raw e"
  by (cases e; simp)+

lemma set_parent_sel [simp]:
  "e_id (set_parent p e) = e_id e" "e_parent (set_parent p e) = p" "e_role (set_parent p e) = e_role e"
  "e_content (set_parent p e) = e_content e" "e_model_content (set_parent p e) = e_model_content e"
  "e_audience (set_parent p e) = e_audience e" "e_compaction (set_parent p e) = e_compaction e"
  "e_raw (set_parent p e) = e_raw e"
  by (cases e; simp)+

lemma set_role_sel [simp]:
  "e_id (set_role r e) = e_id e" "e_parent (set_role r e) = e_parent e" "e_role (set_role r e) = r"
  "e_content (set_role r e) = e_content e" "e_model_content (set_role r e) = e_model_content e"
  "e_audience (set_role r e) = e_audience e" "e_compaction (set_role r e) = e_compaction e"
  "e_raw (set_role r e) = e_raw e"
  by (cases e; simp)+

lemma set_content_sel [simp]:
  "e_id (set_content c e) = e_id e" "e_parent (set_content c e) = e_parent e"
  "e_role (set_content c e) = e_role e" "e_content (set_content c e) = c"
  "e_model_content (set_content c e) = e_model_content e" "e_audience (set_content c e) = e_audience e"
  "e_compaction (set_content c e) = e_compaction e" "e_raw (set_content c e) = e_raw e"
  by (cases e; simp)+

lemma set_model_content_sel [simp]:
  "e_id (set_model_content m e) = e_id e" "e_parent (set_model_content m e) = e_parent e"
  "e_role (set_model_content m e) = e_role e" "e_content (set_model_content m e) = e_content e"
  "e_model_content (set_model_content m e) = m" "e_audience (set_model_content m e) = e_audience e"
  "e_compaction (set_model_content m e) = e_compaction e" "e_raw (set_model_content m e) = e_raw e"
  by (cases e; simp)+

lemma set_audience_sel [simp]:
  "e_id (set_audience a e) = e_id e" "e_parent (set_audience a e) = e_parent e"
  "e_role (set_audience a e) = e_role e" "e_content (set_audience a e) = e_content e"
  "e_model_content (set_audience a e) = e_model_content e" "e_audience (set_audience a e) = a"
  "e_compaction (set_audience a e) = e_compaction e" "e_raw (set_audience a e) = e_raw e"
  by (cases e; simp)+

lemma set_compaction_sel [simp]:
  "e_id (set_compaction c e) = e_id e" "e_parent (set_compaction c e) = e_parent e"
  "e_role (set_compaction c e) = e_role e" "e_content (set_compaction c e) = e_content e"
  "e_model_content (set_compaction c e) = e_model_content e" "e_audience (set_compaction c e) = e_audience e"
  "e_compaction (set_compaction c e) = c" "e_raw (set_compaction c e) = e_raw e"
  by (cases e; simp)+

lemma set_raw_sel [simp]:
  "e_id (set_raw w e) = e_id e" "e_parent (set_raw w e) = e_parent e" "e_role (set_raw w e) = e_role e"
  "e_content (set_raw w e) = e_content e" "e_model_content (set_raw w e) = e_model_content e"
  "e_audience (set_raw w e) = e_audience e" "e_compaction (set_raw w e) = e_compaction e"
  "e_raw (set_raw w e) = w"
  by (cases e; simp)+

record 'v session =
  s_id :: string
  s_agent :: string
  s_cwd :: string
  s_title :: string
  s_model :: string
  s_created :: int
  s_updated :: int
  s_entries :: "entry list"
  s_leaf :: string
  s_restart :: bool
  s_vendor :: "'v option"

definition entry_text :: "entry \<Rightarrow> string" where
  "entry_text e = concat (map b_text (filter (\<lambda>b. b_kind b = BlockText) (e_content e)))"

text \<open>\<open>Compaction.Text\<close>; \<open>unwrap\<close> is \<open>None\<close> when the caller passes no function.\<close>

definition compaction_text :: "(string \<Rightarrow> string) option \<Rightarrow> compaction \<Rightarrow> string" where
  "compaction_text unwrap c =
     join (filter (\<lambda>t. t \<noteq> [])
            (map (\<lambda>m. (case unwrap of None \<Rightarrow> entry_text m | Some u \<Rightarrow> u (entry_text m))) (c_summary c)))
          [CHR 0x0A, CHR 0x0A]"

text \<open>\<open>Compaction.KeepIndex\<close>, with \<open>None\<close> for -1.\<close>

definition keep_index :: "compaction \<Rightarrow> entry list \<Rightarrow> nat option" where
  "keep_index c before =
     (if c_keep c = [] then None else index_of (\<lambda>e. e_id e = c_keep c) before)"

definition messages :: "'v session \<Rightarrow> entry list" where
  "messages s = filter (\<lambda>e. e_role e \<noteq> RoleOpaque) (s_entries s)"

section \<open>The active branch\<close>

text \<open>
  The first loop of \<open>Branch\<close>: the index of the last entry under each ID, whether any entry has
  a parent, and the last entry that has an ID.
\<close>

record scan =
  sc_by_id :: "string \<rightharpoonup> nat"
  sc_tree :: bool
  sc_leaf :: "nat option"

fun scan_entries :: "nat \<Rightarrow> scan \<Rightarrow> entry list \<Rightarrow> scan" where
  "scan_entries i sc [] = sc"
| "scan_entries i sc (e # es) =
     (let sc = (if e_id e \<noteq> [] then sc\<lparr>sc_by_id := (sc_by_id sc)(e_id e \<mapsto> i), sc_leaf := Some i\<rparr> else sc);
          sc = (if e_parent e \<noteq> [] then sc\<lparr>sc_tree := True\<rparr> else sc)
      in scan_entries (Suc i) sc es)"

definition scan_session :: "entry list \<Rightarrow> scan" where
  "scan_session es = scan_entries 0 \<lparr>sc_by_id = Map.empty, sc_tree = False, sc_leaf = None\<rparr> es"

text \<open>
  The second loop: from the leaf to its parent, until a row without a known parent or a row
  already passed. An index outside the entries, which Go would panic on and which no caller
  passes, ends it.
\<close>

function chain_from :: "entry list \<Rightarrow> (string \<rightharpoonup> nat) \<Rightarrow> string list \<Rightarrow> nat \<Rightarrow> nat list" where
  "chain_from es by_id seen i =
     (if length es \<le> i then []
      else let e = es ! i in
        if e_id e \<in> set seen then []
        else i # (if e_parent e = [] then []
                  else case by_id (e_parent e) of
                         None \<Rightarrow> []
                       | Some j \<Rightarrow> chain_from es by_id (e_id e # seen) j))"
  by pat_completeness auto
termination
proof (relation "measure (\<lambda>(es, by_id, seen, i). card (set (map e_id es) - set seen))", goal_cases)
  case 1
  show ?case by simp
next
  case (2 es by_id seen i e j)
  then have "e_id e \<in> set (map e_id es) - set seen" by auto
  then have "set (map e_id es) - set (e_id e # seen) \<subset> set (map e_id es) - set seen" by auto
  then show ?case by (simp add: psubset_card_mono del: set_map)
qed

declare chain_from.simps [simp del]

definition branch :: "'v session \<Rightarrow> nat list" where
  "branch s =
     (if s_restart s then []
      else
        let es = s_entries s; sc = scan_session es;
            leaf = (case sc_by_id sc (s_leaf s) of
                      Some i \<Rightarrow> if s_leaf s \<noteq> [] then Some i else sc_leaf sc
                    | None \<Rightarrow> sc_leaf sc)
        in (case leaf of
              None \<Rightarrow> [0..<length es]
            | Some l \<Rightarrow> if \<not> sc_tree sc then [0..<length es]
                         else rev (chain_from es (sc_by_id sc) [] l)))"

definition on_branch :: "'v session \<Rightarrow> entry list" where
  "on_branch s = map (\<lambda>i. s_entries s ! i) (branch s)"

section \<open>What the person sees and what the model is given\<close>

definition linearize :: "'v session \<Rightarrow> entry list" where
  "linearize s =
     filter (\<lambda>e. e_role e \<noteq> RoleOpaque \<and> for_user (e_audience e)) (on_branch s)"

text \<open>
  \<open>applyCompactions\<close>: the entries gathered so far with the position each came from. A
  compaction replaces them by its summary and those from \<open>Keep\<close> on.
\<close>

fun apply_from ::
  "(entry \<Rightarrow> bool) \<Rightarrow> entry list \<Rightarrow> nat \<Rightarrow> (nat \<times> entry) list \<Rightarrow> entry list \<Rightarrow> (nat \<times> entry) list" where
  "apply_from include all at got [] = got"
| "apply_from include all at got (e # es) =
     (case e_compaction e of
        None \<Rightarrow> apply_from include all (Suc at) (if include e then got @ [(at, e)] else got) es
      | Some c \<Rightarrow>
          let start = (case keep_index c (take at all) of None \<Rightarrow> length all | Some k \<Rightarrow> k);
              next = map (\<lambda>m. (at, m)) (c_summary c) @ filter (\<lambda>p. start \<le> fst p) got
          in apply_from include all (Suc at) next es)"

definition apply_compactions :: "entry list \<Rightarrow> (entry \<Rightarrow> bool) \<Rightarrow> entry list" where
  "apply_compactions es include = map snd (apply_from include es 0 [] es)"

definition model_reads :: "entry \<Rightarrow> bool" where
  "model_reads e \<longleftrightarrow> e_role e \<noteq> RoleOpaque \<and> for_model (e_audience e)"

definition raw_context :: "'v session \<Rightarrow> entry list" where
  "raw_context s = apply_compactions (on_branch s) model_reads"

definition as_model_content :: "entry \<Rightarrow> entry" where
  "as_model_content e = (case e_model_content e of None \<Rightarrow> e | Some c \<Rightarrow> set_content c e)"

definition context_of :: "'v session \<Rightarrow> entry list" where
  "context_of s = map as_model_content (raw_context s)"

section \<open>Facts: the branch\<close>

lemma scan_entries_facts:
  "sc_tree (scan_entries i sc es) \<longleftrightarrow> sc_tree sc \<or> (\<exists>e \<in> set es. e_parent e \<noteq> [])"
  by (induction es arbitrary: i sc) (auto simp: Let_def)

lemma scan_by_id:
  "sc_by_id (scan_entries i sc es) k = Some j \<Longrightarrow>
     sc_by_id sc k = Some j \<or> (i \<le> j \<and> j < i + length es \<and> e_id (es ! (j - i)) = k \<and> k \<noteq> [])"
proof (induction es arbitrary: i sc)
  case Nil
  then show ?case by simp
next
  case (Cons e es)
  from Cons.IH [OF Cons.prems [unfolded scan_entries.simps Let_def]] show ?case
    by (auto simp: nth_Cons' split: if_splits)
qed

lemma scan_leaf:
  "sc_leaf (scan_entries i sc es) = Some j \<Longrightarrow>
     sc_leaf sc = Some j \<or> (i \<le> j \<and> j < i + length es \<and> e_id (es ! (j - i)) \<noteq> [])"
proof (induction es arbitrary: i sc)
  case Nil
  then show ?case by simp
next
  case (Cons e es)
  from Cons.IH [OF Cons.prems [unfolded scan_entries.simps Let_def]] show ?case
    by (auto simp: nth_Cons' split: if_splits)
qed

lemma scan_leaf_None:
  "sc_leaf (scan_entries i sc es) = None \<longleftrightarrow> sc_leaf sc = None \<and> (\<forall>e \<in> set es. e_id e = [])"
  by (induction es arbitrary: i sc) (auto simp: Let_def)

lemma scan_by_id_None:
  "sc_by_id (scan_entries i sc es) k = None \<longleftrightarrow>
     sc_by_id sc k = None \<and> (k = [] \<or> (\<forall>e \<in> set es. e_id e \<noteq> k))"
  by (induction es arbitrary: i sc) (auto simp: Let_def)

text \<open>A lookup that names only entries: what \<open>scan_session\<close> builds.\<close>

definition names_entries :: "entry list \<Rightarrow> (string \<rightharpoonup> nat) \<Rightarrow> bool" where
  "names_entries es by_id \<longleftrightarrow>
     (\<forall>k j. by_id k = Some j \<longrightarrow> j < length es \<and> e_id (es ! j) = k \<and> k \<noteq> [])"

lemma scan_names: "names_entries es (sc_by_id (scan_session es))"
  using scan_by_id [of 0 "\<lparr>sc_by_id = Map.empty, sc_tree = False, sc_leaf = None\<rparr>" es]
  by (auto simp: names_entries_def scan_session_def)

lemma scan_leaf_entry:
  "sc_leaf (scan_session es) = Some j \<Longrightarrow> j < length es \<and> e_id (es ! j) \<noteq> []"
  using scan_leaf [of 0 "\<lparr>sc_by_id = Map.empty, sc_tree = False, sc_leaf = None\<rparr>" es j]
  by (auto simp: scan_session_def)

lemma scan_tree: "sc_tree (scan_session es) \<longleftrightarrow> (\<exists>e \<in> set es. e_parent e \<noteq> [])"
  by (simp add: scan_session_def scan_entries_facts)

lemma chain_step:
  assumes "i < length es" "e_id (es ! i) \<notin> set seen"
  shows "chain_from es by_id seen i =
    i # (if e_parent (es ! i) = [] then []
         else case by_id (e_parent (es ! i)) of
                None \<Rightarrow> [] | Some j \<Rightarrow> chain_from es by_id (e_id (es ! i) # seen) j)"
  using assms by (subst chain_from.simps) (simp add: Let_def)

lemma chain_stop: "e_id (es ! i) \<in> set seen \<Longrightarrow> chain_from es by_id seen i = []"
  by (subst chain_from.simps) simp

text \<open>
  What the chain from an entry is: that entry first, no ID twice, each row followed by its
  parent's row, and at the end a row whose parent is unknown or already passed.
\<close>

definition parent_row :: "entry list \<Rightarrow> nat \<Rightarrow> nat \<Rightarrow> bool" where
  "parent_row es i j \<longleftrightarrow> e_parent (es ! i) \<noteq> [] \<and> e_id (es ! j) = e_parent (es ! i)"

definition chain_ok :: "entry list \<Rightarrow> string list \<Rightarrow> nat \<Rightarrow> nat list \<Rightarrow> bool" where
  "chain_ok es seen i ch \<longleftrightarrow>
     ch \<noteq> [] \<and> hd ch = i \<and> (\<forall>j \<in> set ch. j < length es)
   \<and> distinct (map (\<lambda>j. e_id (es ! j)) ch) \<and> set (map (\<lambda>j. e_id (es ! j)) ch) \<inter> set seen = {}
   \<and> successively (parent_row es) ch
   \<and> (let p = e_parent (es ! last ch)
      in p = [] \<or> (\<forall>e \<in> set es. e_id e \<noteq> p) \<or> p \<in> set seen \<or> p \<in> set (map (\<lambda>j. e_id (es ! j)) ch))"

lemma chain_from_ok:
  assumes "names_entries es by_id" "\<And>k. by_id k = None \<Longrightarrow> k \<noteq> [] \<Longrightarrow> \<forall>e \<in> set es. e_id e \<noteq> k"
    and "i < length es" "e_id (es ! i) \<notin> set seen"
  shows "chain_ok es seen i (chain_from es by_id seen i)"
  using assms
proof (induction es by_id seen i rule: chain_from.induct)
  case (1 es by_id seen i)
  let ?e = "es ! i" and ?p = "e_parent (es ! i)"
  have nle: "\<not> length es \<le> i" using "1.prems"(3) by simp
  show ?case
  proof (cases "?p = [] \<or> by_id ?p = None")
    case True
    then have "chain_from es by_id seen i = [i]"
      using "1.prems" by (auto simp: chain_step)
    moreover have "?p = [] \<or> (\<forall>e \<in> set es. e_id e \<noteq> ?p)" using True "1.prems"(2) by blast
    ultimately show ?thesis using "1.prems" by (auto simp: chain_ok_def Let_def)
  next
    case False
    then obtain j where j: "by_id ?p = Some j" "?p \<noteq> []" by auto
    with "1.prems"(1) have jl: "j < length es" "e_id (es ! j) = ?p" by (auto simp: names_entries_def)
    have c: "chain_from es by_id seen i = i # chain_from es by_id (e_id ?e # seen) j"
      using "1.prems"(3,4) j by (simp add: chain_step)
    show ?thesis
    proof (cases "e_id (es ! j) \<in> set (e_id ?e # seen)")
      case True
      then have "chain_from es by_id seen i = [i]" by (simp only: c chain_stop)
      with True jl "1.prems" show ?thesis by (auto simp: chain_ok_def Let_def)
    next
      case new: False
      have IH: "chain_ok es (e_id ?e # seen) j (chain_from es by_id (e_id ?e # seen) j)"
        by (rule "1.IH" [OF nle refl "1.prems"(4) j(2,1) "1.prems"(1) "1.prems"(2) jl(1) new])
      then obtain ch where ch: "chain_from es by_id (e_id ?e # seen) j = j # ch"
        by (cases "chain_from es by_id (e_id ?e # seen) j") (auto simp: chain_ok_def)
      from IH have parts: "\<forall>k \<in> set (j # ch). k < length es"
        "distinct (map (\<lambda>k. e_id (es ! k)) (j # ch))"
        "set (map (\<lambda>k. e_id (es ! k)) (j # ch)) \<inter> set (e_id ?e # seen) = {}"
        "successively (parent_row es) (j # ch)"
        "let p = e_parent (es ! last (j # ch))
         in p = [] \<or> (\<forall>e \<in> set es. e_id e \<noteq> p) \<or> p \<in> set (e_id ?e # seen)
            \<or> p \<in> set (map (\<lambda>k. e_id (es ! k)) (j # ch))"
        unfolding ch chain_ok_def by blast+
      have "successively (parent_row es) (i # j # ch)"
        using parts(4) j(2) jl(2) by (simp add: parent_row_def)
      with parts "1.prems"(3,4) show ?thesis
        unfolding c ch chain_ok_def Let_def by (auto simp del: successively.simps)
    qed
  qed
qed

lemma branch_list:
  assumes "\<not> s_restart s" "\<forall>e \<in> set (s_entries s). e_parent e = []"
  shows "branch s = [0..<length (s_entries s)]"
  using assms by (auto simp: branch_def scan_tree Let_def split: option.splits)

lemma on_branch_list:
  assumes "\<not> s_restart s" "\<forall>e \<in> set (s_entries s). e_parent e = []"
  shows "on_branch s = s_entries s"
  using branch_list [OF assms] by (simp add: on_branch_def map_nth)

text \<open>Where the branch of a tree starts from: the pinned leaf, or the last entry with an ID.\<close>

definition leaf_of :: "'v session \<Rightarrow> nat option" where
  "leaf_of s =
     (case sc_by_id (scan_session (s_entries s)) (s_leaf s) of
        Some i \<Rightarrow> Some i | None \<Rightarrow> sc_leaf (scan_session (s_entries s)))"

lemma leaf_of_entry: "leaf_of s = Some l \<Longrightarrow> l < length (s_entries s) \<and> e_id (s_entries s ! l) \<noteq> []"
  using scan_names [of "s_entries s"] scan_leaf_entry [of "s_entries s" l]
  by (auto simp: leaf_of_def names_entries_def split: option.splits)

lemma branch_tree:
  assumes "\<not> s_restart s" "sc_tree (scan_session (s_entries s))" "leaf_of s = Some l"
  shows "branch s = rev (chain_from (s_entries s) (sc_by_id (scan_session (s_entries s))) [] l)"
  using assms scan_names [of "s_entries s"]
  by (auto simp: branch_def leaf_of_def Let_def names_entries_def split: option.splits)

section \<open>Facts: compactions\<close>

text \<open>
  The loop of \<open>applyCompactions\<close> by the number of entries it has passed. What it takes of an
  entry that is not a compaction is given by position, so that the facts below can be used for
  a list and for a shorter one made from it.
\<close>

fun gather :: "(nat \<Rightarrow> bool) \<Rightarrow> entry list \<Rightarrow> nat \<Rightarrow> (nat \<times> entry) list" where
  "gather inc es 0 = []"
| "gather inc es (Suc n) =
     (case e_compaction (es ! n) of
        None \<Rightarrow> gather inc es n @ (if inc n then [(n, es ! n)] else [])
      | Some c \<Rightarrow> map (\<lambda>m. (n, m)) (c_summary c)
          @ (case keep_index c (take n es) of
               None \<Rightarrow> [] | Some k \<Rightarrow> filter (\<lambda>p. k \<le> fst p) (gather inc es n)))"

lemma gather_below: "p \<in> set (gather inc es n) \<Longrightarrow> fst p < n"
  by (induction n) (auto split: option.splits if_splits simp: less_Suc_eq)

lemma apply_from_gather:
  "n \<le> length es \<Longrightarrow>
   apply_from include es n (gather (\<lambda>i. include (es ! i)) es n) (drop n es)
     = gather (\<lambda>i. include (es ! i)) es (length es)"
proof (induction "length es - n" arbitrary: n)
  case 0
  then show ?case by simp
next
  case (Suc d)
  let ?g = "\<lambda>n. gather (\<lambda>i. include (es ! i)) es n"
  from Suc.hyps(2) have n: "n < length es" by simp
  have "filter (\<lambda>p. length es \<le> fst p) (?g n) = []"
    using n by (auto simp: filter_empty_conv dest!: gather_below)
  then have "apply_from include es n (?g n) (drop n es) = apply_from include es (Suc n) (?g (Suc n)) (drop (Suc n) es)"
    by (subst Cons_nth_drop_Suc [OF n, symmetric]) (auto simp: Let_def split: option.splits)
  also have "\<dots> = ?g (length es)"
    using Suc.hyps n by (intro Suc.hyps(1)) auto
  finally show ?case .
qed

lemma apply_compactions_gather:
  "apply_compactions es include = map snd (gather (\<lambda>i. include (es ! i)) es (length es))"
  using apply_from_gather [of 0 es "include"] by (simp add: apply_compactions_def)

text \<open>
  The reference reading: position \<open>p\<close> survives the first \<open>n\<close> entries when every compaction
  among them that comes after \<open>p\<close> keeps from \<open>p\<close> or earlier.
\<close>

definition spares :: "entry list \<Rightarrow> nat \<Rightarrow> nat \<Rightarrow> bool" where
  "spares es q p \<longleftrightarrow>
     (case e_compaction (es ! q) of
        None \<Rightarrow> True
      | Some c \<Rightarrow> (case keep_index c (take q es) of None \<Rightarrow> False | Some k \<Rightarrow> k \<le> p))"

definition survives :: "entry list \<Rightarrow> nat \<Rightarrow> nat \<Rightarrow> bool" where
  "survives es n p \<longleftrightarrow> (\<forall>q \<in> {p<..<n}. spares es q p)"

definition summary_at :: "entry list \<Rightarrow> nat \<Rightarrow> entry list" where
  "summary_at es q = (case e_compaction (es ! q) of None \<Rightarrow> [] | Some c \<Rightarrow> c_summary c)"

definition plain_at :: "entry list \<Rightarrow> nat \<Rightarrow> bool" where
  "plain_at es p \<longleftrightarrow> e_compaction (es ! p) = None"

lemma survives_Suc: "p < n \<Longrightarrow> survives es (Suc n) p \<longleftrightarrow> survives es n p \<and> spares es n p"
  by (auto simp: survives_def less_Suc_eq)

lemma survives_last [simp]: "survives es (Suc n) n"
  by (auto simp: survives_def)

lemma filter_upt_cong: "(\<And>p. p < n \<Longrightarrow> P p = Q p) \<Longrightarrow> filter P [0..<n] = filter Q [0..<n]"
  by (rule filter_cong) simp_all

lemma filter_rev_upt_cong:
  "(\<And>p. p < n \<Longrightarrow> P p = Q p) \<Longrightarrow> filter P (rev [0..<n]) = filter Q (rev [0..<n])"
  by (rule filter_cong) simp_all

lemma gather_closed:
  "gather inc es n =
     concat (map (\<lambda>q. map (\<lambda>m. (q, m)) (summary_at es q)) (filter (survives es n) (rev [0..<n])))
     @ map (\<lambda>p. (p, es ! p)) (filter (\<lambda>p. plain_at es p \<and> inc p \<and> survives es n p) [0..<n])"
proof (induction n)
  case 0
  then show ?case by simp
next
  case (Suc n)
  let ?S = "\<lambda>q. map (\<lambda>m. (q, m)) (summary_at es q)"
  show ?case
  proof (cases "e_compaction (es ! n)")
    case None
    then have "survives es (Suc n) p = survives es n p" if "p < n" for p
      using that by (simp add: survives_Suc spares_def)
    then have "filter (survives es (Suc n)) (rev [0..<n]) = filter (survives es n) (rev [0..<n])"
      "filter (\<lambda>p. plain_at es p \<and> inc p \<and> survives es (Suc n) p) [0..<n]
        = filter (\<lambda>p. plain_at es p \<and> inc p \<and> survives es n p) [0..<n]"
      by (auto intro!: filter_rev_upt_cong filter_upt_cong)
    with None Suc.IH show ?thesis
      by (simp add: summary_at_def plain_at_def)
  next
    case (Some c)
    have filt: "filter (\<lambda>p. k \<le> fst p) (concat (map ?S qs)) = concat (map ?S (filter (\<lambda>q. k \<le> q) qs))" for k qs
      by (induction qs) (auto simp: filter_map o_def)
    have keep: "survives es (Suc n) p = (survives es n p \<and> spares es n p)" if "p < n" for p
      using that by (simp add: survives_Suc)
    have a: "filter (survives es (Suc n)) (rev [0..<n]) = filter (\<lambda>p. spares es n p \<and> survives es n p) (rev [0..<n])"
      using keep by (intro filter_rev_upt_cong) auto
    have b: "filter (\<lambda>p. plain_at es p \<and> inc p \<and> survives es (Suc n) p) [0..<n]
        = filter (\<lambda>p. spares es n p \<and> plain_at es p \<and> inc p \<and> survives es n p) [0..<n]"
      using keep by (intro filter_upt_cong) auto
    show ?thesis
    proof (cases "keep_index c (take n es)")
      case None
      then have "spares es n p = False" for p by (simp add: spares_def Some)
      with Some None a b show ?thesis
        by (simp add: summary_at_def plain_at_def)
    next
      case (Some k)
      with \<open>e_compaction (es ! n) = Some c\<close> have "spares es n p \<longleftrightarrow> k \<le> p" for p by (simp add: spares_def)
      with a b have ab: "filter (survives es (Suc n)) (rev [0..<n]) = filter (\<lambda>p. k \<le> p) (filter (survives es n) (rev [0..<n]))"
        "filter (\<lambda>p. plain_at es p \<and> inc p \<and> survives es (Suc n) p) [0..<n]
          = filter (\<lambda>p. k \<le> p) (filter (\<lambda>p. plain_at es p \<and> inc p \<and> survives es n p) [0..<n])"
        by (simp_all add: conj_commute conj_left_commute)
      have "filter (\<lambda>p. k \<le> fst p) (gather inc es n) =
          concat (map ?S (filter (\<lambda>p. k \<le> p) (filter (survives es n) (rev [0..<n]))))
          @ map (\<lambda>p. (p, es ! p)) (filter (\<lambda>p. k \<le> p) (filter (\<lambda>p. plain_at es p \<and> inc p \<and> survives es n p) [0..<n]))"
        unfolding Suc.IH filter_append filt by (simp add: filter_map o_def)
      moreover have "summary_at es n = c_summary c" "\<not> plain_at es n"
        using \<open>e_compaction (es ! n) = Some c\<close> by (simp_all add: summary_at_def plain_at_def)
      ultimately show ?thesis
        using \<open>e_compaction (es ! n) = Some c\<close> Some by (simp add: ab)
    qed
  qed
qed

text \<open>The part of the history before any compaction, and the case of one last compaction.\<close>

lemma gather_tail:
  assumes "n \<le> m" "\<forall>q \<in> {n..<m}. plain_at es q"
  shows "gather inc es m = gather inc es n @ map (\<lambda>p. (p, es ! p)) (filter inc [n..<m])"
  using assms
proof (induction m)
  case 0
  then show ?case by simp
next
  case (Suc m)
  show ?case
  proof (cases "n = Suc m")
    case False
    with Suc.prems have "gather inc es m = gather inc es n @ map (\<lambda>p. (p, es ! p)) (filter inc [n..<m])"
      by (intro Suc.IH) auto
    with False Suc.prems show ?thesis by (auto simp: plain_at_def)
  qed simp
qed

lemma gather_kept:
  assumes "k \<le> n" "\<forall>q \<in> {k..<n}. plain_at es q"
  shows "filter (\<lambda>p. k \<le> fst p) (gather inc es n) = map (\<lambda>p. (p, es ! p)) (filter inc [k..<n])"
proof -
  have "filter (\<lambda>p. k \<le> fst p) (gather inc es k) = []"
    by (auto simp: filter_empty_conv dest!: gather_below)
  moreover have "filter (\<lambda>p. k \<le> p) (filter inc [k..<n]) = filter inc [k..<n]"
    by (rule filter_True) simp
  ultimately show ?thesis
    unfolding gather_tail [OF assms] by (simp add: filter_map o_def)
qed

lemma map_nth_upt: "a \<le> b \<Longrightarrow> b \<le> length xs \<Longrightarrow> map ((!) xs) [a..<b] = take (b - a) (drop a xs)"
  by (rule nth_equalityI) auto

lemma filter_nth_upt:
  assumes "a \<le> b" "b \<le> length xs"
  shows "map (\<lambda>p. xs ! p) (filter (\<lambda>i. P (xs ! i)) [a..<b]) = filter P (take (b - a) (drop a xs))"
  using map_nth_upt [OF assms] filter_map [of P "(!) xs" "[a..<b]"] by (simp add: o_def)

lemma plain_upto:
  assumes "list_all (\<lambda>e. e_compaction e = None) (take (b - a) (drop a es))" "b \<le> length es"
  shows "\<forall>q \<in> {a..<b}. plain_at es q"
proof
  fix q
  assume "q \<in> {a..<b}"
  then have q: "a \<le> q" "q - a < b - a" by auto
  with assms(2) have "take (b - a) (drop a es) ! (q - a) = es ! q"
    "q - a < length (take (b - a) (drop a es))" by simp_all
  with assms(1) show "plain_at es q"
    by (auto simp: list_all_length plain_at_def dest!: spec [of _ "q - a"])
qed

lemma keep_index_bound: "keep_index c pre = Some k \<Longrightarrow> k < length pre"
  by (auto simp: keep_index_def split: if_splits dest: index_of_Some)

lemma apply_none:
  assumes "list_all (\<lambda>e. e_compaction e = None) es"
  shows "apply_compactions es include = filter include es"
proof -
  have "\<forall>q \<in> {0..<length es}. plain_at es q" using plain_upto [of "length es" 0 es] assms by simp
  from gather_tail [OF le0 this, of "\<lambda>i. include (es ! i)"] show ?thesis
    using filter_nth_upt [of 0 "length es" es "include"] by (simp add: apply_compactions_gather o_def)
qed

lemma apply_last:
  assumes c: "e_compaction m = Some c" and post: "list_all (\<lambda>e. e_compaction e = None) post"
    and kept: "\<And>k. keep_index c pre = Some k \<Longrightarrow> list_all (\<lambda>e. e_compaction e = None) (drop k pre)"
  shows "apply_compactions (pre @ m # post) include =
     c_summary c @ (case keep_index c pre of None \<Rightarrow> [] | Some k \<Rightarrow> filter include (drop k pre))
     @ filter include post"
proof -
  let ?es = "pre @ m # post" and ?n = "length pre"
  let ?inc = "\<lambda>i. include (?es ! i)"
  have "\<forall>q \<in> {Suc ?n..<length ?es}. plain_at ?es q"
    by (rule plain_upto) (use post in simp_all)
  from gather_tail [OF _ this, of ?inc]
  have all: "gather ?inc ?es (length ?es) = gather ?inc ?es (Suc ?n)
      @ map (\<lambda>p. (p, ?es ! p)) (filter ?inc [Suc ?n..<length ?es])" by simp
  have tail: "map (\<lambda>p. ?es ! p) (filter ?inc [Suc ?n..<length ?es]) = filter include post"
    using filter_nth_upt [of "Suc ?n" "length ?es" ?es "include"] by simp
  show ?thesis
  proof (cases "keep_index c pre")
    case None
    with c all tail show ?thesis by (simp add: apply_compactions_gather o_def)
  next
    case (Some k)
    then have k: "k < ?n" by (rule keep_index_bound)
    have "\<forall>q \<in> {k..<?n}. plain_at ?es q"
      by (rule plain_upto) (use kept [OF Some] k in simp_all)
    with k have g: "filter (\<lambda>p. k \<le> fst p) (gather ?inc ?es ?n) = map (\<lambda>p. (p, ?es ! p)) (filter ?inc [k..<?n])"
      by (intro gather_kept) auto
    have "map (\<lambda>p. ?es ! p) (filter ?inc [k..<?n]) = filter include (drop k pre)"
      using filter_nth_upt [of k ?n ?es "include"] k by simp
    with c all tail g Some show ?thesis by (simp add: apply_compactions_gather o_def)
  qed
qed

section \<open>Properties\<close>

text \<open>C31. The active branch of a session that keeps a tree is a chain of its entries from a root to
  the leaf: it is not empty and ends at the pinned leaf (or at the last entry with an ID), no ID is
  on it twice even when the parent links form a cycle, each row's parent is the row before it, and
  the first row has no parent, an unknown one, or one that is already on the chain.\<close>

theorem branch_chain:
  assumes "\<not> s_restart s" "\<exists>e \<in> set (s_entries s). e_parent e \<noteq> []" "leaf_of s = Some l"
  shows "branch s \<noteq> [] \<and> last (branch s) = l
    \<and> (\<forall>i \<in> set (branch s). i < length (s_entries s))
    \<and> distinct (map (\<lambda>i. e_id (s_entries s ! i)) (branch s))
    \<and> successively (\<lambda>i j. e_parent (s_entries s ! j) \<noteq> [] \<and> e_id (s_entries s ! i) = e_parent (s_entries s ! j)) (branch s)
    \<and> (let p = e_parent (s_entries s ! hd (branch s))
       in p = [] \<or> (\<forall>e \<in> set (s_entries s). e_id e \<noteq> p) \<or> p \<in> set (map (\<lambda>i. e_id (s_entries s ! i)) (branch s)))"
proof -
  let ?es = "s_entries s" and ?ch = "chain_from (s_entries s) (sc_by_id (scan_session (s_entries s))) [] l"
  have b: "branch s = rev ?ch"
    by (rule branch_tree) (use assms in \<open>simp_all add: scan_tree\<close>)
  have "chain_ok ?es [] l ?ch"
  proof (rule chain_from_ok [OF scan_names])
    show "\<forall>e \<in> set ?es. e_id e \<noteq> k" if "sc_by_id (scan_session ?es) k = None" "k \<noteq> []" for k
      using that by (simp add: scan_session_def scan_by_id_None)
  qed (use leaf_of_entry [OF assms(3)] in simp_all)
  then show ?thesis
    unfolding b chain_ok_def parent_row_def
    by (auto simp: last_rev hd_rev rev_map [symmetric] successively_rev)
qed

definition sample_row :: "string \<Rightarrow> string \<Rightarrow> entry" where
  "sample_row i p = Entry i p RoleUser 0 [] None AudienceAll None None"

definition sample_session :: "entry list \<Rightarrow> string \<Rightarrow> unit session" where
  "sample_session es leaf =
     \<lparr>s_id = ''s'', s_agent = [], s_cwd = [], s_title = [], s_model = [], s_created = 0, s_updated = 0,
      s_entries = es, s_leaf = leaf, s_restart = False, s_vendor = None\<rparr>"

text \<open>A fork: a and b, then two rows after b, the first of which is pinned.\<close>

theorem branch_chain_witness:
  "let s = sample_session [sample_row ''a'' [], sample_row ''b'' ''a'', sample_row ''c'' ''b'', sample_row ''d'' ''b''] ''c''
   in leaf_of s = Some 2 \<and> last (branch s) = 2"
proof -
  let ?s = "sample_session [sample_row ''a'' [], sample_row ''b'' ''a'', sample_row ''c'' ''b'', sample_row ''d'' ''b''] ''c''"
  have "leaf_of ?s = Some 2"
    by (simp add: leaf_of_def sample_session_def sample_row_def scan_session_def Let_def)
  moreover from branch_chain [of ?s, OF _ _ this] have "last (branch ?s) = 2"
    by (auto simp: sample_session_def sample_row_def)
  ultimately show ?thesis by simp
qed

text \<open>C32. What the model is given after compactions is what the plain reading says: the summaries
  of the compactions that survive, the latest first, and then, in order, the entries of the caller's
  choice that are no compaction and survive, where a position survives when every later compaction
  keeps from that position or an earlier one.\<close>

theorem apply_compactions_reading:
  "apply_compactions es include =
     concat (map (summary_at es) (filter (survives es (length es)) (rev [0..<length es])))
     @ map ((!) es) (filter (\<lambda>p. plain_at es p \<and> include (es ! p) \<and> survives es (length es) p) [0..<length es])"
  by (simp add: apply_compactions_gather gather_closed map_concat o_def)

text \<open>A session without parent links has one branch, every entry in store order; what the
  person sees is then the messages shown to them, and after its last compaction the model is given
  exactly the summary, the kept entries meant for it, and those that came later, each with the
  content the agent sent.\<close>

theorem context_after_last_compaction:
  assumes "\<not> s_restart s" "s_entries s = pre @ m # post"
    and "\<forall>e \<in> set (pre @ m # post). e_parent e = []"
    and "e_compaction m = Some c" "list_all (\<lambda>e. e_compaction e = None) post"
    and "keep_index c pre = Some k" "list_all (\<lambda>e. e_compaction e = None) (drop k pre)"
  shows "context_of s = map as_model_content (c_summary c @ filter model_reads (drop k pre) @ filter model_reads post)
    \<and> linearize s = filter (\<lambda>e. e_role e \<noteq> RoleOpaque \<and> for_user (e_audience e)) (s_entries s)"
proof -
  have "on_branch s = pre @ m # post"
    using on_branch_list [of s] assms(1-3) by simp
  then show ?thesis
    using apply_last [OF assms(4,5), of pre model_reads] assms(2,6,7)
    by (simp add: context_of_def raw_context_def linearize_def)
qed

theorem context_after_last_compaction_witness:
  "let m = set_compaction (Some (Compaction [sample_row ''sum'' []] ''b'')) (sample_row ''m'' []);
       s = sample_session [sample_row ''a'' [], sample_row ''b'' [], m, sample_row ''c'' []] []
   in map e_id (context_of s) = [''sum'', ''b'', ''c'']"
proof -
  let ?c = "Compaction [sample_row ''sum'' []] ''b''"
  let ?m = "set_compaction (Some ?c) (sample_row ''m'' [])"
  let ?s = "sample_session [sample_row ''a'' [], sample_row ''b'' [], ?m, sample_row ''c'' []] []"
  have "context_of ?s = map as_model_content
      (c_summary ?c @ filter model_reads (drop 1 [sample_row ''a'' [], sample_row ''b'' []])
        @ filter model_reads [sample_row ''c'' []])"
    by (rule context_after_last_compaction [where m = ?m, THEN conjunct1])
      (simp_all add: sample_session_def sample_row_def keep_index_def)
  then show ?thesis
    by (simp add: sample_row_def model_reads_def for_model_def as_model_content_def)
qed

end
