(* ===== verification/Paths.thy ===== *)
theory Paths
  imports Prelude
begin

text \<open>
  What the program uses of the standard library on paths (\<open>path/filepath\<close> on Unix) and of
  \<open>strings.Contains\<close>.
\<close>

definition is_abs :: "string \<Rightarrow> bool" where
  "is_abs p \<longleftrightarrow> has_prefix p ''/''"

text \<open>\<open>filepath.Ext\<close>: from the last dot of the last element on.\<close>

definition path_ext :: "string \<Rightarrow> string" where
  "path_ext p =
     (let lst = takeWhile (\<lambda>c. c \<noteq> CHR ''/'') (rev p) in
      if CHR ''.'' \<in> set lst then CHR ''.'' # rev (takeWhile (\<lambda>c. c \<noteq> CHR ''.'') lst) else [])"

text \<open>\<open>path.Base\<close>: the last element, without trailing slashes.\<close>

definition path_base :: "string \<Rightarrow> string" where
  "path_base p =
     (if p = [] then ''.''
      else let b = rev (takeWhile (\<lambda>c. c \<noteq> CHR ''/'') (dropWhile (\<lambda>c. c = CHR ''/'') (rev p)))
           in if b = [] then ''/'' else b)"

text \<open>
  \<open>filepath.Clean\<close>: the elements of a path without empty ones and dots, with each \<open>..\<close> taking the
  element before it away. At the root there is nothing to take away.
\<close>

fun clean_parts :: "bool \<Rightarrow> string list \<Rightarrow> string list \<Rightarrow> string list" where
  "clean_parts rooted kept [] = rev kept"
| "clean_parts rooted kept (e # es) =
     (if e = [] \<or> e = ''.'' then clean_parts rooted kept es
      else if e = ''..'' then
        (case kept of
           [] \<Rightarrow> clean_parts rooted (if rooted then [] else [''..'']) es
         | k # ks \<Rightarrow> if k = ''..'' then clean_parts rooted (''..'' # kept) es else clean_parts rooted ks es)
      else clean_parts rooted (e # kept) es)"

definition path_clean :: "string \<Rightarrow> string" where
  "path_clean p =
     (let body = join (clean_parts (is_abs p) [] (split_on (CHR ''/'') p)) ''/'' in
      if is_abs p then ''/'' @ body else if body = [] then ''.'' else body)"

fun contains :: "string \<Rightarrow> string \<Rightarrow> bool" where
  "contains [] p \<longleftrightarrow> p = []"
| "contains (c # cs) p \<longleftrightarrow> has_prefix (c # cs) p \<or> contains cs p"

lemma contains_iff: "contains s p \<longleftrightarrow> (\<exists>us vs. s = us @ p @ vs)"
proof
  show "contains s p \<Longrightarrow> \<exists>us vs. s = us @ p @ vs"
  proof (induction s)
    case (Cons c cs)
    then show ?case by (auto simp: has_prefix_iff) (metis append_Nil, metis append_Cons)
  qed simp
next
  assume "\<exists>us vs. s = us @ p @ vs"
  then obtain us vs where "s = us @ p @ vs" by blast
  then show "contains s p"
  proof (induction us arbitrary: s)
    case Nil
    then have "has_prefix s p" by simp
    then show ?case by (cases s) (simp_all add: has_prefix_def)
  qed auto
qed

end
