(* ===== verification/Transcript_Portable.thy ===== *)
theory Transcript_Portable
  imports Transcript Json Paths "HOL-Library.Multiset"
begin

text \<open>
  Moving a session to another agent (\<open>transcript/transcript.go\<close>): \<open>Portable\<close> with its helpers
  (\<open>inlineLocal\<close>, \<open>splitResults\<close>, \<open>uniqueToolIDs\<close>), \<open>Unkept\<close>, and \<open>Lower\<close> with \<open>retired\<close> and
  \<open>asText\<close>.

  The file system and the URL and MIME tables of the machine are the argument \<open>host\<close> of the
  definitions that look at them.
\<close>

section \<open>Blocks\<close>

record host =
  h_file_url :: "string \<Rightarrow> string option"   \<comment> \<open>the path of a URL whose scheme is file\<close>
  h_read :: "string \<Rightarrow> string option"       \<comment> \<open>the contents of a regular file that can be read\<close>
  h_mime :: "string \<Rightarrow> string"              \<comment> \<open>the media type of a file extension\<close>

definition max_inline :: nat where
  "max_inline = 20 * 2 ^ 20"

definition inline_local :: "host \<Rightarrow> block \<Rightarrow> block" where
  "inline_local h b =
     (if \<not> is_media b \<or> b_data b \<noteq> [] \<or> b_uri b = [] then b
      else
        let path = (case h_file_url h (b_uri b) of
                      Some p \<Rightarrow> Some p
                    | None \<Rightarrow> if is_abs (b_uri b) then Some (b_uri b) else None)
        in (case path of
              None \<Rightarrow> b
            | Some p \<Rightarrow>
                (case h_read h p of
                   None \<Rightarrow> b
                 | Some data \<Rightarrow>
                     if max_inline < length data then b
                     else let b = b\<lparr>b_data := data\<rparr>
                          in if b_media_type b = []
                             then b\<lparr>b_media_type := takeWhile (\<lambda>c. c \<noteq> CHR '';'') (h_mime h (path_ext p))\<rparr>
                             else b)))"

definition as_text :: "block \<Rightarrow> block" where
  "as_text b =
     (if b_kind b \<noteq> BlockFile \<or> b_data b = [] \<or> \<not> has_prefix (b_media_type b) ''text/''
         \<or> \<not> valid_utf8 (b_data b)
      then b
      else
        let name = (if b_name b = [] \<and> b_uri b \<noteq> [] then path_base (b_uri b) else b_name b);
            q = [CHR 0x22]; nl = [CHR 0x0A];
            text = (if name \<noteq> []
                    then ''<file name='' @ q @ name @ q @ ''>'' @ nl @ b_data b @ nl @ ''</file>''
                    else b_data b)
        in (empty_block BlockText)\<lparr>b_text := text, b_tool_id := b_tool_id b\<rparr>)"

section \<open>One result per entry (splitResults)\<close>

text \<open>
  The loop over the blocks: the blocks that stay, and the groups of a result with the media it
  returned, the groups and each of them in reverse while they are built.
\<close>

fun group_results :: "block list \<Rightarrow> block list list \<Rightarrow> block list \<Rightarrow> block list \<times> block list list" where
  "group_results rest results [] = (rest, results)"
| "group_results rest results (b # bs) =
     (if b_kind b = BlockToolResult then group_results rest (results @ [[b]]) bs
      else if b_tool_id b \<noteq> [] \<and> is_media b \<and> results \<noteq> []
              \<and> b_tool_id (hd (last results)) = b_tool_id b
      then group_results rest (butlast results @ [last results @ [b]]) bs
      else group_results (rest @ [b]) results bs)"

text \<open>The entries of the groups; \<open>n\<close> counts them from 1.\<close>

fun result_entries :: "entry \<Rightarrow> bool \<Rightarrow> nat \<Rightarrow> block list list \<Rightarrow> entry list" where
  "result_entries e first n [] = []"
| "result_entries e first n (r # rs) =
     (let tool = set_content r (set_role RoleTool e);
          tool = (if \<not> first \<and> e_id tool \<noteq> [] then set_id (e_id e @ ''-result-'' @ show_nat n) tool else tool)
      in tool # result_entries e False (Suc n) rs)"

definition split_results :: "entry \<Rightarrow> entry list" where
  "split_results e =
     (case group_results [] [] (e_content e) of
        (rest, results) \<Rightarrow>
          if results = [] \<or> (length results = 1 \<and> rest = []) then [e]
          else (if rest = [] then [] else [set_content rest e])
               @ result_entries e (rest = []) 1 results)"

section \<open>Tool IDs (uniqueToolIDs)\<close>

definition call_name :: "nat \<Rightarrow> string" where
  "call_name n = ''call_'' @ show_nat n"

lemma call_name_inject [simp]: "call_name m = call_name n \<longleftrightarrow> m = n"
  by (simp add: call_name_def)

lemma call_name_not_Nil [simp]: "call_name n \<noteq> []"
  by (simp add: call_name_def)

text \<open>The inner loop: the next number whose name no call has.\<close>

lemma finite_named: "finite {m. n < m \<and> call_name m \<in> set seen}"
proof (rule finite_imageD [of call_name])
  show "finite (call_name ` {m. n < m \<and> call_name m \<in> set seen})"
    by (rule finite_subset [of _ "set seen"]) auto
  show "inj_on call_name {m. n < m \<and> call_name m \<in> set seen}"
    by (simp add: inj_on_def)
qed

function fresh_call :: "string list \<Rightarrow> nat \<Rightarrow> nat" where
  "fresh_call seen n =
     (if call_name (Suc n) \<in> set seen then fresh_call seen (Suc n) else Suc n)"
  by pat_completeness auto
termination
proof (relation "measure (\<lambda>(seen, n). card {m. n < m \<and> call_name m \<in> set seen})", goal_cases)
  case 1
  show ?case by simp
next
  case (2 seen n)
  then have "{m. Suc n < m \<and> call_name m \<in> set seen} \<subset> {m. n < m \<and> call_name m \<in> set seen}" by auto
  then show ?case by (simp add: psubset_card_mono finite_named)
qed

declare fresh_call.simps [simp del]

record id_state =
  id_seen :: "string list"
  id_pending :: "string \<Rightarrow> string list"
  id_next :: nat

text \<open>The images a tool returned follow its result and take its new ID.\<close>

fun rename_run :: "string \<Rightarrow> string \<Rightarrow> block list \<Rightarrow> block list" where
  "rename_run old new [] = []"
| "rename_run old new (m # ms) =
     (if b_kind m = BlockToolResult \<or> b_tool_id m \<noteq> old then m # ms
      else m\<lparr>b_tool_id := new\<rparr> # rename_run old new ms)"

lemma rename_run_length [simp]: "length (rename_run old new ms) = length ms"
  by (induction ms) auto

definition call_id :: "id_state \<Rightarrow> block \<Rightarrow> string \<times> nat" where
  "call_id st b =
     (if b_tool_id b = [] \<or> b_tool_id b \<in> set (id_seen st)
      then (call_name (fresh_call (id_seen st) (id_next st)), fresh_call (id_seen st) (id_next st))
      else (b_tool_id b, id_next st))"

function unique_blocks :: "id_state \<Rightarrow> block list \<Rightarrow> id_state \<times> block list" where
  "unique_blocks st [] = (st, [])"
| "unique_blocks st (b # bs) =
     (if b_kind b = BlockToolUse then
        let (id, n) = call_id st b;
            st = st\<lparr>id_seen := id # id_seen st,
                    id_pending := (id_pending st)(b_tool_id b := id_pending st (b_tool_id b) @ [id]),
                    id_next := n\<rparr>;
            (st, bs) = unique_blocks st bs
        in (st, b\<lparr>b_tool_id := id\<rparr> # bs)
      else if b_kind b = BlockToolResult \<and> id_pending st (b_tool_id b) \<noteq> [] then
        let orig = b_tool_id b; q = id_pending st orig;
            st = st\<lparr>id_pending := (id_pending st)(orig := tl q)\<rparr>;
            (st, bs) = unique_blocks st (rename_run orig (hd q) bs)
        in (st, b\<lparr>b_tool_id := hd q\<rparr> # bs)
      else let (st, bs) = unique_blocks st bs in (st, b # bs))"
  by pat_completeness auto
termination by (relation "measure (\<lambda>(st, bs). length bs)") auto

fun unique_entries :: "id_state \<Rightarrow> entry list \<Rightarrow> entry list" where
  "unique_entries st [] = []"
| "unique_entries st (e # es) =
     (let (st, bs) = unique_blocks st (e_content e) in set_content bs e # unique_entries st es)"

definition unique_tool_ids :: "entry list \<Rightarrow> entry list" where
  "unique_tool_ids es = unique_entries \<lparr>id_seen = [], id_pending = (\<lambda>_. []), id_next = 0\<rparr> es"

section \<open>Portable\<close>

text \<open>
  The loop over the branch: the new entries, the IDs that travel, and for each compaction that
  keeps something its index in the new entries and the position of what it keeps.
\<close>

definition portable_summary :: "compaction \<Rightarrow> entry list" where
  "portable_summary c =
     map (\<lambda>m. set_raw None (set_parent [] (set_model_content None (set_compaction None m))))
       (filter (\<lambda>m. e_audience m = AudienceAll) (c_summary c))"

definition marker_of :: "entry \<Rightarrow> compaction \<Rightarrow> entry" where
  "marker_of e c =
     Entry (e_id e) [] RoleOpaque (e_time e) [] None AudienceAll
       (Some (Compaction (portable_summary c) [])) None"

definition portable_entry :: "host \<Rightarrow> entry \<Rightarrow> entry list" where
  "portable_entry h e =
     split_results (set_content (map (inline_local h) (e_content e))
       (set_parent [] (set_raw None (set_model_content None e))))"

record carry =
  cy_out :: "entry list"
  cy_keeps :: "(nat \<times> nat) list"
  cy_carried :: "string list"

definition portable_step :: "host \<Rightarrow> entry list \<Rightarrow> nat \<Rightarrow> entry \<Rightarrow> carry \<Rightarrow> carry" where
  "portable_step h on at e cy =
     (case e_compaction e of
        Some c \<Rightarrow>
          cy\<lparr>cy_keeps := cy_keeps cy @ (case keep_index c (take at on) of
                                          None \<Rightarrow> [] | Some k \<Rightarrow> [(length (cy_out cy), k)]),
             cy_out := cy_out cy @ [marker_of e c]\<rparr>
      | None \<Rightarrow>
          if e_role e = RoleOpaque \<or> e_audience e = AudienceNone \<or> e_audience e = AudienceModel then cy
          else cy\<lparr>cy_carried := (if e_id e \<noteq> [] then e_id e # cy_carried cy else cy_carried cy),
                  cy_out := cy_out cy @ portable_entry h e\<rparr>)"

fun portable_loop :: "host \<Rightarrow> entry list \<Rightarrow> nat \<Rightarrow> carry \<Rightarrow> entry list \<Rightarrow> carry" where
  "portable_loop h on at cy [] = cy"
| "portable_loop h on at cy (e # es) = portable_loop h on (Suc at) (portable_step h on at e cy) es"

text \<open>The first entry from a position on that travels (the closure \<open>next\<close>).\<close>

definition next_carried :: "entry list \<Rightarrow> string list \<Rightarrow> nat \<Rightarrow> string" where
  "next_carried on carried at =
     (case find (\<lambda>e. e_id e \<in> set carried) (drop at on) of None \<Rightarrow> [] | Some e \<Rightarrow> e_id e)"

definition set_keep :: "string \<Rightarrow> entry \<Rightarrow> entry" where
  "set_keep k e =
     set_compaction (case e_compaction e of None \<Rightarrow> None | Some c \<Rightarrow> Some (Compaction (c_summary c) k)) e"

definition set_keeps :: "entry list \<Rightarrow> string list \<Rightarrow> (nat \<times> nat) list \<Rightarrow> entry list \<Rightarrow> entry list" where
  "set_keeps on carried keeps out =
     foldl (\<lambda>out (i, k). out[i := set_keep (next_carried on carried k) (out ! i)]) out keeps"

definition portable :: "host \<Rightarrow> 'v session \<Rightarrow> 'v session" where
  "portable h s =
     (let on = on_branch s;
          cy = portable_loop h on 0 \<lparr>cy_out = [], cy_keeps = [], cy_carried = []\<rparr> on
      in s\<lparr>s_agent := [], s_leaf := [], s_restart := False, s_vendor := None,
           s_entries := set_keeps on (cy_carried cy) (cy_keeps cy) (unique_tool_ids (cy_out cy))\<rparr>)"

section \<open>Unkept\<close>

definition unkept_step :: "entry list \<Rightarrow> nat \<Rightarrow> entry list" where
  "unkept_step out i =
     (case e_compaction (out ! i) of
        None \<Rightarrow> out
      | Some c \<Rightarrow>
          if c_keep c = [] then out
          else
            let marker = set_compaction (Some (Compaction (c_summary c) [])) (out ! i);
                out = out[i := marker]
            in (case keep_index c (take i out) of
                  None \<Rightarrow> out
                | Some j \<Rightarrow>
                    if list_ex (\<lambda>e. e_compaction e \<noteq> None) (drop j (take i out)) then out
                    else take j out @ marker # drop j (take i out) @ drop (Suc i) out))"

definition unkept :: "entry list \<Rightarrow> entry list" where
  "unkept entries = foldl unkept_step entries [0..<length entries]"

section \<open>Lower\<close>

record writer_caps =
  wc_compaction :: bool
  wc_user_only :: bool
  wc_files :: bool

text \<open>\<open>retired\<close>: the positions a later compaction retires.\<close>

definition retired_by :: "entry list \<Rightarrow> nat \<Rightarrow> nat list" where
  "retired_by es at =
     (case e_compaction (es ! at) of
        None \<Rightarrow> []
      | Some c \<Rightarrow>
          let upto = (case keep_index c (take at es) of None \<Rightarrow> at | Some k \<Rightarrow> k)
          in filter (\<lambda>k. e_compaction (es ! k) = None) [0..<upto])"

definition retired :: "entry list \<Rightarrow> nat list" where
  "retired es = concat (map (retired_by es) [0..<length es])"

definition writer_keeps :: "writer_caps \<Rightarrow> entry \<Rightarrow> bool" where
  "writer_keeps c e \<longleftrightarrow> for_model (e_audience e) \<or> wc_user_only c"

definition lower_entry :: "writer_caps \<Rightarrow> entry list \<Rightarrow> nat \<Rightarrow> entry list" where
  "lower_entry c es i =
     (if e_compaction (es ! i) \<noteq> None \<or> writer_keeps c (es ! i) then [es ! i]
      else if i \<in> set (retired es) then [set_audience AudienceAll (es ! i)]
      else [])"

definition lower_entries :: "writer_caps \<Rightarrow> entry list \<Rightarrow> entry list" where
  "lower_entries c es =
     (if wc_compaction c then concat (map (lower_entry c es) [0..<length es])
      else apply_compactions es (writer_keeps c))"

definition text_files :: "entry \<Rightarrow> entry" where
  "text_files e =
     (if list_ex (\<lambda>b. b_kind (as_text b) \<noteq> b_kind b) (e_content e)
      then set_content (map as_text (e_content e)) e else e)"

definition lower_session :: "writer_caps \<Rightarrow> 'v session \<Rightarrow> 'v session" where
  "lower_session c s =
     (let es = lower_entries c (s_entries s)
      in s\<lparr>s_entries := (if wc_files c then es else map text_files es)\<rparr>)"

section \<open>Facts: tool IDs\<close>

lemma fresh_call_new: "call_name (fresh_call seen n) \<notin> set seen"
  by (induction seen n rule: fresh_call.induct) (subst fresh_call.simps, simp)

definition uses :: "block list \<Rightarrow> string list" where
  "uses bs = map b_tool_id (filter (\<lambda>b. b_kind b = BlockToolUse) bs)"

lemma uses_simps [simp]:
  "uses [] = []"
  "uses (b # bs) = (if b_kind b = BlockToolUse then b_tool_id b # uses bs else uses bs)"
  "uses (xs @ ys) = uses xs @ uses ys"
  by (simp_all add: uses_def)

definition sans_id :: "block \<Rightarrow> block" where
  "sans_id b = b\<lparr>b_tool_id := []\<rparr>"

lemma sans_id_simps [simp]:
  "sans_id (b\<lparr>b_tool_id := i\<rparr>) = sans_id b" "b_kind (sans_id b) = b_kind b"
  by (simp_all add: sans_id_def)

lemma rename_run_sans [simp]: "map sans_id (rename_run old new ms) = map sans_id ms"
  by (induction ms) auto

lemma call_id_new: "call_id st b = (i, n) \<Longrightarrow> i \<notin> set (id_seen st) \<and> i \<noteq> []"
  by (auto simp: call_id_def fresh_call_new split: if_splits)

lemma unique_blocks_facts:
  "unique_blocks st bs = (st', bs') \<Longrightarrow>
     map sans_id bs' = map sans_id bs
   \<and> distinct (uses bs') \<and> [] \<notin> set (uses bs')
   \<and> set (uses bs') \<inter> set (id_seen st) = {} \<and> set (id_seen st') = set (uses bs') \<union> set (id_seen st)"
proof (induction st bs arbitrary: st' bs' rule: unique_blocks.induct)
  case (1 st)
  then show ?case by simp
next
  case (2 st b bs)
  note prems = "2.prems" [unfolded unique_blocks.simps]
  show ?case
  proof (cases "b_kind b = BlockToolUse")
    case True
    obtain i n where i: "call_id st b = (i, n)" by fastforce
    let ?st = "st\<lparr>id_seen := i # id_seen st,
        id_pending := (id_pending st)(b_tool_id b := id_pending st (b_tool_id b) @ [i]), id_next := n\<rparr>"
    obtain st1 bs1 where r: "unique_blocks ?st bs = (st1, bs1)" by fastforce
    with prems True i have e: "st' = st1" "bs' = b\<lparr>b_tool_id := i\<rparr> # bs1" by (simp_all add: Let_def)
    from "2.IH"(1) [OF True refl i [symmetric] refl r] call_id_new [OF i] True
    show ?thesis unfolding e by auto
  next
    case use: False
    show ?thesis
    proof (cases "b_kind b = BlockToolResult \<and> id_pending st (b_tool_id b) \<noteq> []")
      case True
      let ?q = "id_pending st (b_tool_id b)"
      let ?st = "st\<lparr>id_pending := (id_pending st)(b_tool_id b := tl ?q)\<rparr>"
      obtain st1 bs1 where r: "unique_blocks ?st (rename_run (b_tool_id b) (hd ?q) bs) = (st1, bs1)" by fastforce
      with prems use True have e: "st' = st1" "bs' = b\<lparr>b_tool_id := hd ?q\<rparr> # bs1" by (simp_all add: Let_def)
      from "2.IH"(2) [OF use True refl refl refl r] use show ?thesis unfolding e by simp
    next
      case False
      obtain st1 bs1 where r: "unique_blocks st bs = (st1, bs1)" by fastforce
      with prems use False have e: "st' = st1" "bs' = b # bs1" by (auto simp: Let_def)
      from "2.IH"(3) [OF use False r] use show ?thesis unfolding e by simp
    qed
  qed
qed

definition entry_blocks :: "entry list \<Rightarrow> block list" where
  "entry_blocks es = concat (map e_content es)"

lemma entry_blocks_simps [simp]:
  "entry_blocks [] = []" "entry_blocks (e # es) = e_content e @ entry_blocks es"
  "entry_blocks (xs @ ys) = entry_blocks xs @ entry_blocks ys"
  by (simp_all add: entry_blocks_def)

text \<open>An entry without the tool IDs in it: what \<open>uniqueToolIDs\<close> leaves as it is.\<close>

definition sans_ids :: "entry \<Rightarrow> entry" where
  "sans_ids e = set_content (map sans_id (e_content e)) e"

lemma set_content_twice [simp]: "set_content c (set_content d e) = set_content c e"
  by (cases e) simp

lemma unique_entries_facts:
  "map sans_ids (unique_entries st es) = map sans_ids es
   \<and> distinct (uses (entry_blocks (unique_entries st es)))
   \<and> [] \<notin> set (uses (entry_blocks (unique_entries st es)))
   \<and> set (uses (entry_blocks (unique_entries st es))) \<inter> set (id_seen st) = {}"
proof (induction es arbitrary: st)
  case Nil
  then show ?case by simp
next
  case (Cons e es)
  obtain st1 bs1 where r: "unique_blocks st (e_content e) = (st1, bs1)" by fastforce
  from unique_blocks_facts [OF this] Cons.IH [of st1] r show ?case
    by (auto simp: sans_ids_def)
qed

section \<open>Facts: one result per entry\<close>

definition one_result :: "block list \<Rightarrow> bool" where
  "one_result r \<longleftrightarrow>
     r \<noteq> [] \<and> b_kind (hd r) = BlockToolResult
     \<and> (\<forall>b \<in> set (tl r). is_media b \<and> b_tool_id b = b_tool_id (hd r))"

lemma is_media_kind: "is_media b \<Longrightarrow> b_kind b \<noteq> BlockToolResult"
  by (auto simp: is_media_def)

lemma one_result_snoc:
  "one_result r \<Longrightarrow> is_media b \<Longrightarrow> b_tool_id b = b_tool_id (hd r) \<Longrightarrow> one_result (r @ [b])"
  by (cases r) (auto simp: one_result_def)

lemma group_results_facts:
  assumes "group_results rest results bs = (rest', results')" "\<forall>r \<in> set results. one_result r"
    "\<forall>b \<in> set rest. b_kind b \<noteq> BlockToolResult"
  shows "(\<forall>r \<in> set results'. one_result r) \<and> (\<forall>b \<in> set rest'. b_kind b \<noteq> BlockToolResult)
    \<and> mset (rest' @ concat results') = mset (rest @ concat results) + mset bs"
  using assms
proof (induction rest results bs rule: group_results.induct)
  case (1 rest results)
  then show ?case by simp
next
  case (2 rest results b bs)
  show ?case
  proof (cases "b_kind b = BlockToolResult")
    case True
    then have g: "group_results rest (results @ [[b]]) bs = (rest', results')"
      using "2.prems"(1) by simp
    have "\<forall>r \<in> set (results @ [[b]]). one_result r"
      using "2.prems"(2) True by (auto simp: one_result_def)
    from "2.IH"(1) [OF True g this "2.prems"(3)] show ?thesis by simp
  next
    case kind: False
    let ?media = "b_tool_id b \<noteq> [] \<and> is_media b \<and> results \<noteq> [] \<and> b_tool_id (hd (last results)) = b_tool_id b"
    show ?thesis
    proof (cases ?media)
      case True
      then have res: "results = butlast results @ [last results]" by simp
      then have last: "one_result (last results)" and but: "\<forall>r \<in> set (butlast results). one_result r"
        using "2.prems"(2) by (metis Un_iff list.set_intros(1) set_append)+
      let ?rs = "butlast results @ [last results @ [b]]"
      have all: "\<forall>r \<in> set ?rs. one_result r"
        using one_result_snoc [OF last] True but by auto
      have "concat results = concat (butlast results @ [last results])"
        using True by simp
      then have c: "concat results = concat (butlast results) @ last results"
        by simp
      have g: "group_results rest ?rs bs = (rest', results')"
        using "2.prems"(1) kind True by simp
      from "2.IH"(2) [OF kind True g all "2.prems"(3)] c show ?thesis by simp
    next
      case False
      have g: "group_results (rest @ [b]) results bs = (rest', results')"
        using "2.prems"(1) kind False by (simp only: group_results.simps if_False)
      have "\<forall>b' \<in> set (rest @ [b]). b_kind b' \<noteq> BlockToolResult" using "2.prems"(3) kind by auto
      from "2.IH"(3) [OF kind False g "2.prems"(2) this] show ?thesis by simp
    qed
  qed
qed

lemma result_entries_contents: "map e_content (result_entries e first n rs) = rs"
  by (induction rs arbitrary: first n) (simp_all add: Let_def)

lemma result_entries_hd: "rs \<noteq> [] \<Longrightarrow> e_id (hd (result_entries e True n rs)) = e_id e"
  by (cases rs) (simp_all add: Let_def)

lemma result_entries_same:
  "t \<in> set (result_entries e first n rs) \<Longrightarrow>
     e_parent t = e_parent e \<and> e_model_content t = e_model_content e \<and> e_audience t = e_audience e
   \<and> e_compaction t = e_compaction e \<and> e_raw t = e_raw e \<and> e_role t = RoleTool"
  by (induction rs arbitrary: first n) (auto simp: Let_def)

lemma split_results_same:
  assumes "t \<in> set (split_results e)"
  shows "e_parent t = e_parent e \<and> e_model_content t = e_model_content e \<and> e_audience t = e_audience e
    \<and> e_compaction t = e_compaction e \<and> e_raw t = e_raw e \<and> (e_role t = e_role e \<or> e_role t = RoleTool)"
  using assms
  by (auto simp: split_results_def split: prod.splits if_splits dest!: result_entries_same)

lemma split_results_hd: "split_results e \<noteq> [] \<and> e_id (hd (split_results e)) = e_id e"
proof -
  obtain rest results where g: "group_results [] [] (e_content e) = (rest, results)" by fastforce
  have "result_entries e True 1 results \<noteq> []" if "results \<noteq> []"
    using that result_entries_contents [of e True 1 results] by auto
  with g result_entries_hd [of results e 1] show ?thesis
    by (auto simp: split_results_def)
qed

section \<open>Facts: Portable\<close>

text \<open>What every new entry of the loop is, and where the kept positions point.\<close>

definition carried_ok :: "entry \<Rightarrow> bool" where
  "carried_ok e \<longleftrightarrow>
     e_parent e = [] \<and> e_raw e = None \<and> e_model_content e = None
   \<and> (e_compaction e = None \<longrightarrow>
        e_role e \<noteq> RoleOpaque \<and> (e_audience e = AudienceAll \<or> e_audience e = AudienceUser))
   \<and> (\<forall>c. e_compaction e = Some c \<longrightarrow>
        e_role e = RoleOpaque \<and> e_content e = [] \<and>
        list_all (\<lambda>m. e_audience m = AudienceAll \<and> e_compaction m = None \<and> e_raw m = None
                    \<and> e_parent m = [] \<and> e_model_content m = None) (c_summary c))"

lemma marker_ok: "carried_ok (marker_of e c)"
  by (auto simp: carried_ok_def marker_of_def portable_summary_def list_all_iff)

lemma portable_entry_ok:
  assumes "e_compaction e = None" "e_role e \<noteq> RoleOpaque" "e_audience e \<noteq> AudienceNone"
    "e_audience e \<noteq> AudienceModel" "t \<in> set (portable_entry h e)"
  shows "carried_ok t"
proof -
  have "e_audience e = AudienceAll \<or> e_audience e = AudienceUser"
    using assms(3,4) by (cases "e_audience e") auto
  with split_results_same [OF assms(5) [unfolded portable_entry_def]] assms(1,2) show ?thesis
    by (auto simp: carried_ok_def)
qed

definition carry_ok :: "carry \<Rightarrow> bool" where
  "carry_ok cy \<longleftrightarrow>
     list_all carried_ok (cy_out cy)
   \<and> (\<forall>i \<in> set (cy_carried cy). i \<noteq> [] \<and> i \<in> e_id ` set (cy_out cy))"

lemma portable_entry_id: "e_id e \<in> e_id ` set (portable_entry h e)"
proof -
  let ?e = "set_content (map (inline_local h) (e_content e))
       (set_parent [] (set_raw None (set_model_content None e)))"
  have "e_id (hd (split_results ?e)) = e_id ?e" "hd (split_results ?e) \<in> set (split_results ?e)"
    using split_results_hd [of ?e] by simp_all
  then show ?thesis unfolding portable_entry_def by (metis image_eqI set_content_sel(1) set_model_content_sel(1)
      set_parent_sel(1) set_raw_sel(1))
qed

lemma portable_step_ok:
  assumes "carry_ok cy"
  shows "carry_ok (portable_step h on at e cy)"
proof (cases "e_compaction e")
  case (Some c)
  with assms show ?thesis by (auto simp: portable_step_def carry_ok_def marker_ok)
next
  case None
  show ?thesis
  proof (cases "e_role e = RoleOpaque \<or> e_audience e = AudienceNone \<or> e_audience e = AudienceModel")
    case True
    with assms None show ?thesis by (simp add: portable_step_def)
  next
    case False
    then have "list_all carried_ok (portable_entry h e)"
      unfolding list_all_iff using portable_entry_ok [OF None] by blast
    with assms None False portable_entry_id [of e h] show ?thesis
      by (auto simp: portable_step_def carry_ok_def image_Un)
  qed
qed

lemma portable_loop_ok: "carry_ok cy \<Longrightarrow> carry_ok (portable_loop h on at cy es)"
  by (induction es arbitrary: at cy) (simp_all add: portable_step_ok)

lemma set_keep_sel [simp]:
  "e_id (set_keep k e) = e_id e" "e_parent (set_keep k e) = e_parent e" "e_role (set_keep k e) = e_role e"
  "e_content (set_keep k e) = e_content e" "e_model_content (set_keep k e) = e_model_content e"
  "e_audience (set_keep k e) = e_audience e" "e_raw (set_keep k e) = e_raw e"
  by (simp_all add: set_keep_def)

lemma set_keep_ok: "carried_ok e \<Longrightarrow> carried_ok (set_keep k e)"
  by (auto simp: carried_ok_def set_keep_def split: option.splits)

definition keep_in :: "string set \<Rightarrow> entry \<Rightarrow> bool" where
  "keep_in ids e \<longleftrightarrow> (\<forall>c. e_compaction e = Some c \<longrightarrow> c_keep c = [] \<or> c_keep c \<in> ids)"

lemma keep_in_set_keep: "k = [] \<or> k \<in> ids \<Longrightarrow> keep_in ids (set_keep k e)"
  by (auto simp: keep_in_def set_keep_def split: option.splits)

lemma next_carried_in: "next_carried on carried k = [] \<or> next_carried on carried k \<in> set carried"
  by (auto simp: next_carried_def split: option.splits dest: find_SomeD)

lemma set_keeps_facts:
  assumes "\<forall>e \<in> set out. carried_ok e \<and> keep_in (set carried) e"
  shows "(\<forall>e \<in> set (set_keeps on carried keeps out). carried_ok e \<and> keep_in (set carried) e)
    \<and> map e_id (set_keeps on carried keeps out) = map e_id out
    \<and> map e_content (set_keeps on carried keeps out) = map e_content out"
  using assms
proof (induction keeps arbitrary: out)
  case Nil
  then show ?case by (simp add: set_keeps_def)
next
  case (Cons p keeps)
  obtain i k where p: "p = (i, k)" by (rule prod.exhaust)
  let ?new = "set_keep (next_carried on carried k) (out ! i)"
  let ?out = "out[i := ?new]"
  have new: "carried_ok ?new \<and> keep_in (set carried) ?new" if "i < length out"
    using Cons.prems that keep_in_set_keep [OF next_carried_in [of on carried k]] by (simp add: set_keep_ok)
  have "\<forall>e \<in> set ?out. carried_ok e \<and> keep_in (set carried) e"
  proof (cases "i < length out")
    case True
    with new Cons.prems set_update_subset_insert [of out i ?new] show ?thesis by blast
  next
    case False
    then have "?out = out" by (intro list_update_beyond) simp
    with Cons.prems show ?thesis by metis
  qed
  moreover have "map e_id ?out = map e_id out" "map e_content ?out = map e_content out"
    by (simp_all add: map_update) (metis list_update_id map_update)+
  moreover have "set_keeps on carried (p # keeps) out = set_keeps on carried keeps ?out"
    by (simp add: set_keeps_def p)
  ultimately show ?case
    using Cons.IH [of ?out] by metis
qed

lemma sans_ids_sel:
  "sans_ids e = sans_ids e' \<Longrightarrow>
     e_id e = e_id e' \<and> e_parent e = e_parent e' \<and> e_role e = e_role e' \<and> e_audience e = e_audience e'
   \<and> e_compaction e = e_compaction e' \<and> e_raw e = e_raw e' \<and> e_model_content e = e_model_content e'
   \<and> map sans_id (e_content e) = map sans_id (e_content e')"
  by (cases e; cases e') (simp add: sans_ids_def)

lemma unique_ids_carried:
  assumes "list_all P es" "\<And>e e'. sans_ids e = sans_ids e' \<Longrightarrow> P e \<Longrightarrow> P e'"
  shows "list_all P (unique_tool_ids es)" "map e_id (unique_tool_ids es) = map e_id es"
proof -
  have m: "map sans_ids (unique_tool_ids es) = map sans_ids es"
    unfolding unique_tool_ids_def using unique_entries_facts by blast
  then have l: "length (unique_tool_ids es) = length es" by (rule map_eq_imp_length_eq)
  have eq: "sans_ids (unique_tool_ids es ! i) = sans_ids (es ! i)" if "i < length es" for i
    using m l that by (metis nth_map)
  show "list_all P (unique_tool_ids es)"
    using assms l eq by (metis list_all_length)
  show "map e_id (unique_tool_ids es) = map e_id es"
  proof (rule nth_equalityI)
    show "map e_id (unique_tool_ids es) ! i = map e_id es ! i" if "i < length (map e_id (unique_tool_ids es))" for i
      using that l sans_ids_sel [OF eq, of i] by simp
  qed (simp add: l)
qed

lemma carried_ok_sans: "sans_ids e = sans_ids e' \<Longrightarrow> carried_ok e \<Longrightarrow> carried_ok e'"
  using sans_ids_sel [of e e'] by (auto simp: carried_ok_def)

lemma portable_entries:
  fixes s :: "'v session" and h :: host
  defines "cy \<equiv> portable_loop h (on_branch s) 0 \<lparr>cy_out = [], cy_keeps = [], cy_carried = []\<rparr> (on_branch s)"
  shows "s_entries (portable h s) =
      set_keeps (on_branch s) (cy_carried cy) (cy_keeps cy) (unique_tool_ids (cy_out cy))"
    and "carry_ok cy"
proof -
  show "s_entries (portable h s) =
      set_keeps (on_branch s) (cy_carried cy) (cy_keeps cy) (unique_tool_ids (cy_out cy))"
    by (simp add: portable_def cy_def Let_def)
  show "carry_ok cy"
    unfolding cy_def by (rule portable_loop_ok) (simp add: carry_ok_def)
qed

lemma portable_step_keep_empty:
  assumes "\<forall>e \<in> set (cy_out cy). keep_in {} e"
  shows "\<forall>e \<in> set (cy_out (portable_step h on at e cy)). keep_in {} e"
proof (cases "e_compaction e")
  case (Some c)
  then have "keep_in {} (marker_of e c)" by (simp add: keep_in_def marker_of_def)
  with Some assms show ?thesis by (simp add: portable_step_def)
next
  case None
  have "keep_in {} t" if "t \<in> set (portable_entry h e)" for t
    using split_results_same [OF that [unfolded portable_entry_def]] None by (simp add: keep_in_def)
  with assms None show ?thesis by (auto simp: portable_step_def)
qed

lemma portable_loop_keep_empty:
  "\<forall>e \<in> set (cy_out cy). keep_in {} e \<Longrightarrow> \<forall>e \<in> set (cy_out (portable_loop h on at cy es)). keep_in {} e"
  by (induction es arbitrary: at cy) (simp, metis portable_loop.simps(2) portable_step_keep_empty)

lemma keep_in_sans: "sans_ids e = sans_ids e' \<Longrightarrow> keep_in ids e \<Longrightarrow> keep_in ids e'"
  using sans_ids_sel [of e e'] by (simp add: keep_in_def)

lemma keep_in_mono: "keep_in ids e \<Longrightarrow> ids \<subseteq> ids' \<Longrightarrow> keep_in ids' e"
  unfolding keep_in_def by blast

lemma portable_facts:
  "(\<forall>e \<in> set (s_entries (portable h s)).
      carried_ok e \<and> keep_in (e_id ` set (s_entries (portable h s))) e)
   \<and> distinct (uses (entry_blocks (s_entries (portable h s))))
   \<and> [] \<notin> set (uses (entry_blocks (s_entries (portable h s))))"
proof -
  define cy where
    "cy = portable_loop h (on_branch s) 0 \<lparr>cy_out = [], cy_keeps = [], cy_carried = []\<rparr> (on_branch s)"
  let ?u = "unique_tool_ids (cy_out cy)" and ?C = "set (cy_carried cy)"
  let ?out = "set_keeps (on_branch s) (cy_carried cy) (cy_keeps cy) ?u"
  have out: "s_entries (portable h s) = ?out" and ok: "carry_ok cy"
    using portable_entries [of h s] by (simp_all add: cy_def)
  have "\<forall>e \<in> set (cy_out cy). keep_in {} e"
    unfolding cy_def by (rule portable_loop_keep_empty) simp
  then have c: "list_all (\<lambda>e. carried_ok e \<and> keep_in ?C e) (cy_out cy)"
    using ok keep_in_mono [of "{}" _ ?C] unfolding carry_ok_def list_all_iff by blast
  have u1: "list_all (\<lambda>e. carried_ok e \<and> keep_in ?C e) ?u"
    by (rule unique_ids_carried(1) [OF c]) (metis carried_ok_sans keep_in_sans)
  have u2: "map e_id ?u = map e_id (cy_out cy)"
    by (rule unique_ids_carried(2) [OF c]) (metis carried_ok_sans keep_in_sans)
  have k: "\<forall>e \<in> set ?out. carried_ok e \<and> keep_in ?C e" "map e_id ?out = map e_id ?u"
    "map e_content ?out = map e_content ?u"
    using set_keeps_facts [of ?u "cy_carried cy"] u1 unfolding list_all_iff by blast+
  have "e_id ` set ?out = e_id ` set (cy_out cy)"
    using k(2) u2 by (metis set_map)
  then have "?C \<subseteq> e_id ` set ?out"
    using ok unfolding carry_ok_def by blast
  then have "\<forall>e \<in> set ?out. carried_ok e \<and> keep_in (e_id ` set ?out) e"
    using k(1) keep_in_mono by blast
  moreover have "entry_blocks ?out = entry_blocks ?u"
    using k(3) by (simp add: entry_blocks_def)
  ultimately show ?thesis
    unfolding out using unique_entries_facts [of "\<lparr>id_seen = [], id_pending = (\<lambda>_. []), id_next = 0\<rparr>" "cy_out cy"]
    by (simp add: unique_tool_ids_def)
qed

lemma portable_shape: "s_restart (portable h s) = False" "s_leaf (portable h s) = []"
    "s_agent (portable h s) = []" "s_vendor (portable h s) = None"
  by (simp_all add: portable_def Let_def)

section \<open>Facts: Unkept\<close>

lemma unkept_step_length [simp]: "i < length out \<Longrightarrow> length (unkept_step out i) = length out"
  by (auto simp: unkept_step_def Let_def split: option.splits dest!: keep_index_bound)

lemma unkept_step_plain: "plain_at out i \<Longrightarrow> unkept_step out i = out"
  by (simp add: unkept_step_def plain_at_def)

lemma unkept_step_append:
  assumes "i < length xs"
  shows "unkept_step (xs @ ys) i = unkept_step xs i @ ys"
proof (cases "e_compaction (xs ! i)")
  case None
  with assms show ?thesis by (simp add: unkept_step_def nth_append)
next
  case (Some c)
  let ?m = "set_compaction (Some (Compaction (c_summary c) [])) (xs ! i)"
  have "take i ((xs @ ys)[i := ?m]) = take i (xs[i := ?m])"
    using assms by (simp add: list_update_append)
  moreover have "k \<le> length xs" if "keep_index c (take i (xs[i := ?m])) = Some k" for k
    using keep_index_bound [OF that] assms by simp
  ultimately show ?thesis
    using assms Some by (auto simp: unkept_step_def nth_append list_update_append Let_def split: option.splits)
qed

lemma unkept_prefix:
  "n \<le> length xs \<Longrightarrow> foldl unkept_step (xs @ ys) [0..<n] = foldl unkept_step xs [0..<n] @ ys
     \<and> length (foldl unkept_step xs [0..<n]) = length xs"
proof (induction n)
  case 0
  then show ?case by simp
next
  case (Suc n)
  then show ?case using unkept_step_append [of n "foldl unkept_step xs [0..<n]" ys] by simp
qed

lemma unkept_length: "length (unkept es) = length es"
  using unkept_prefix [of "length es" es "[]"] by (simp add: unkept_def)

lemma unkept_step_ids: "i < length out \<Longrightarrow> mset (map e_id (unkept_step out i)) = mset (map e_id out)"
proof -
  assume i: "i < length out"
  have put: "map e_id (out[i := set_compaction k (out ! i)]) = map e_id out" for k
    by (simp add: map_update) (metis list_update_id map_update)
  have move: "mset (map e_id (take j os @ m # drop j (take i os) @ drop (Suc i) os)) = mset (map e_id os)"
    if "os ! i = m" "j \<le> i" "i < length os" for os m j
  proof -
    have "os = take i os @ os ! i # drop (Suc i) os" using that(3) by (rule id_take_nth_drop)
    moreover have "take i os = take j os @ drop j (take i os)"
      using that(2) by (metis append_take_drop_id min.absorb1 take_take)
    ultimately have "mset os = mset (take j os @ m # drop j (take i os) @ drop (Suc i) os)"
      using that(1) by (metis (no_types, lifting) append_assoc mset_append mset.simps(2) union_mset_add_mset_left union_mset_add_mset_right)
    then show ?thesis by (metis mset_map)
  qed
  show ?thesis
  proof (cases "e_compaction (out ! i)")
    case None
    then show ?thesis by (simp add: unkept_step_def)
  next
    case (Some c)
    let ?m = "set_compaction (Some (Compaction (c_summary c) [])) (out ! i)"
    let ?os = "out[i := ?m]"
    have p: "mset (map e_id ?os) = mset (map e_id out)" by (simp only: put)
    show ?thesis
    proof (cases "keep_index c (take i ?os)")
      case None
      with Some p show ?thesis by (simp only: unkept_step_def Let_def option.case if_cancel split: if_split) simp
    next
      case (Some j)
      then have "j \<le> i" using keep_index_bound [OF Some] by simp
      then have "mset (map e_id (take j ?os @ ?m # drop j (take i ?os) @ drop (Suc i) ?os)) = mset (map e_id ?os)"
        using i by (intro move) simp_all
      with p Some \<open>e_compaction (out ! i) = Some c\<close> show ?thesis
        by (simp only: unkept_step_def Let_def option.case split: if_split) simp
    qed
  qed
qed

lemma unkept_ids: "mset (map e_id (unkept es)) = mset (map e_id es)"
proof -
  have "n \<le> length es \<Longrightarrow> mset (map e_id (foldl unkept_step es [0..<n])) = mset (map e_id es)" for n
  proof (induction n)
    case (Suc n)
    then show ?case
      using unkept_step_ids [of n "foldl unkept_step es [0..<n]"] unkept_prefix [of n es "[]"] by simp
  qed simp
  then show ?thesis by (simp add: unkept_def)
qed

lemma foldl_unkept_plain:
  "a \<le> b \<Longrightarrow> \<forall>q \<in> {a..<b}. plain_at es q \<Longrightarrow> foldl unkept_step es [a..<b] = es"
proof (induction "b - a" arbitrary: a)
  case 0
  then show ?case by simp
next
  case (Suc d)
  then have "[a..<b] = a # [Suc a..<b]" by (simp add: upt_conv_Cons)
  with Suc show ?case by (simp add: unkept_step_plain)
qed

lemma upt_split: "a \<le> b \<Longrightarrow> b \<le> c \<Longrightarrow> [a..<c] = [a..<b] @ [b..<c]"
  using upt_add_eq_append [of a b "c - b"] by simp

lemma unkept_plain_tail:
  assumes "list_all (\<lambda>e. e_compaction e = None) ys"
  shows "unkept (xs @ ys) = unkept xs @ ys"
proof -
  let ?out = "foldl unkept_step xs [0..<length xs]"
  have l: "length ?out = length xs" using unkept_prefix [of "length xs" xs "[]"] by simp
  have "plain_at (?out @ ys) q" if "q \<in> {length xs..<length xs + length ys}" for q
    using that l assms by (auto simp: plain_at_def nth_append list_all_length)
  then have "foldl unkept_step (?out @ ys) [length xs..<length (xs @ ys)] = ?out @ ys"
    by (intro foldl_unkept_plain) auto
  then show ?thesis
    using unkept_prefix [of "length xs" xs ys] upt_split [of 0 "length xs" "length (xs @ ys)"]
    by (simp add: unkept_def)
qed

lemma unkept_marker:
  "unkept (pre @ [m]) = unkept_step (unkept pre @ [m]) (length pre)"
  using unkept_prefix [of "length pre" pre "[m]"] by (simp add: unkept_def)

lemma keep_index_skip:
  assumes "c_keep c \<notin> set (map e_id xs)"
  shows "keep_index c (xs @ ys) = map_option (\<lambda>j. length xs + j) (keep_index c ys)"
proof -
  have "index_of (\<lambda>e. e_id e = c_keep c) xs = None"
    unfolding index_of_None using assms by (metis image_eqI set_map)
  then show ?thesis by (simp add: keep_index_def index_of_append)
qed

lemma unkept_keep_index:
  assumes "keep_index c pre = Some k" "list_all (\<lambda>e. e_compaction e = None) (drop k pre)"
  shows "unkept pre = unkept (take k pre) @ drop k pre" "keep_index c (unkept pre) = Some k"
proof -
  have k: "k < length pre" "e_id (pre ! k) = c_keep c" "\<forall>i < k. e_id (pre ! i) \<noteq> c_keep c" "c_keep c \<noteq> []"
    using assms(1) by (auto simp: keep_index_def split: if_splits dest!: index_of_Some)
  show u: "unkept pre = unkept (take k pre) @ drop k pre"
    using unkept_plain_tail [OF assms(2), of "take k pre"] by simp
  have "c_keep c \<notin> set (map e_id (take k pre))"
    using k(1,3) by (fastforce simp: in_set_conv_nth)
  then have "c_keep c \<notin> set (map e_id (unkept (take k pre)))"
    using unkept_ids [of "take k pre"] by (metis mset_eq_setD)
  moreover have "keep_index c (drop k pre) = Some 0"
    using k by (auto simp: keep_index_def Cons_nth_drop_Suc [symmetric])
  ultimately show "keep_index c (unkept pre) = Some k"
    unfolding u using k(1) by (simp add: keep_index_skip unkept_length)
qed

lemma unkept_keep_none:
  assumes "keep_index c pre = None"
  shows "keep_index c (unkept pre) = None"
proof -
  have "set (map e_id (unkept pre)) = set (map e_id pre)"
    using unkept_ids [of pre] by (metis mset_eq_setD)
  then have "e_id ` set (unkept pre) = e_id ` set pre" by simp
  then have "(\<exists>e \<in> set (unkept pre). e_id e = k) \<longleftrightarrow> (\<exists>e \<in> set pre. e_id e = k)" for k
    by (metis (no_types, lifting) image_iff)
  with assms show ?thesis
    by (auto simp: keep_index_def index_of_None split: if_splits)
qed

text \<open>The list \<open>Unkept\<close> makes of a history whose last compaction is \<open>m\<close>.\<close>

lemma unkept_last:
  assumes c: "e_compaction m = Some c" and post: "list_all (\<lambda>e. e_compaction e = None) post"
    and kept: "\<And>k. keep_index c pre = Some k \<Longrightarrow> list_all (\<lambda>e. e_compaction e = None) (drop k pre)"
  shows "\<exists>pre' m'. e_compaction m' = Some (Compaction (c_summary c) [])
     \<and> unkept (pre @ m # post) = pre' @ m' #
          (case keep_index c pre of None \<Rightarrow> [] | Some k \<Rightarrow> drop k pre) @ post"
proof -
  let ?m = "set_compaction (Some (Compaction (c_summary c) [])) m"
  let ?u = "unkept pre"
  have u: "unkept (pre @ m # post) = unkept_step (?u @ [m]) (length pre) @ post"
    using unkept_plain_tail [OF post, of "pre @ [m]"] unkept_marker [of pre m] by simp
  have l: "length ?u = length pre" by (rule unkept_length)
  then have at: "(?u @ [m]) ! length pre = m" "(?u @ [m])[length pre := x] = ?u @ [x]" for x
    by (metis nth_append_length, metis list_update_length)
  show ?thesis
  proof (cases "keep_index c pre")
    case None
    show ?thesis
    proof (cases "c_keep c = []")
      case True
      then have "unkept_step (?u @ [m]) (length pre) = ?u @ [m]"
        by (simp add: unkept_step_def at c)
      moreover have "e_compaction m = Some (Compaction (c_summary c) [])" using c True by (cases c) simp
      ultimately show ?thesis using u None by auto
    next
      case False
      then have "unkept_step (?u @ [m]) (length pre) = ?u @ [?m]"
        using unkept_keep_none [OF None] l by (simp add: unkept_step_def at c Let_def)
      with u None show ?thesis by (intro exI [of _ ?u] exI [of _ ?m]) simp
    qed
  next
    case (Some k)
    then have k: "k < length pre" "c_keep c \<noteq> []"
      using keep_index_bound by (auto simp: keep_index_def split: if_splits)
    note ki = unkept_keep_index [OF Some kept [OF Some]]
    have tk: "take k ?u = unkept (take k pre)" "drop k ?u = drop k pre"
      using ki(1) k(1) unkept_length [of "take k pre"] by simp_all
    have "\<not> list_ex (\<lambda>e. e_compaction e \<noteq> None) (drop k pre)"
      using kept [OF Some] by (auto simp: list_all_iff list_ex_iff)
    then have "unkept_step (?u @ [m]) (length pre) = unkept (take k pre) @ ?m # drop k pre"
      using ki(2) k l tk by (simp add: unkept_step_def at c Let_def)
    with u Some show ?thesis by (intro exI [of _ "unkept (take k pre)"] exI [of _ ?m]) simp
  qed
qed

section \<open>Facts: Lower\<close>

text \<open>A list of the entries of another at the positions \<open>keep\<close> says, in order.\<close>

definition picked :: "(nat \<Rightarrow> bool) \<Rightarrow> entry list \<Rightarrow> nat \<Rightarrow> entry list" where
  "picked keep es n = map ((!) es) (filter keep [0..<n])"

lemma picked_Suc: "picked keep es (Suc n) = picked keep es n @ (if keep n then [es ! n] else [])"
  by (simp add: picked_def)

lemma picked_split: "k \<le> n \<Longrightarrow> \<exists>t. picked keep es n = picked keep es k @ t"
  by (auto simp: picked_def upt_split [of 0 k n])

lemma picked_length_mono: "k \<le> n \<Longrightarrow> length (picked keep es k) \<le> length (picked keep es n)"
  using picked_split [of k n keep es] by auto

lemma picked_take: "k \<le> n \<Longrightarrow> take (length (picked keep es k)) (picked keep es n) = picked keep es k"
  using picked_split [of k n keep es] by auto

lemma picked_nth: "keep k \<Longrightarrow> k < n \<Longrightarrow> picked keep es n ! length (picked keep es k) = es ! k"
  using picked_split [of "Suc k" n keep es] by (auto simp: picked_Suc nth_append)

lemma picked_less:
  "keep p \<Longrightarrow> length (picked keep es k) \<le> length (picked keep es p) \<longleftrightarrow> k \<le> p"
proof -
  assume "keep p"
  then have "length (picked keep es (Suc p)) = Suc (length (picked keep es p))" by (simp add: picked_Suc)
  then show ?thesis
    using picked_length_mono [of k p keep es] picked_length_mono [of "Suc p" k keep es] by force
qed

lemma picked_subset: "n \<le> length es \<Longrightarrow> set (picked keep es n) \<subseteq> set (take n es)"
proof
  fix x
  assume "n \<le> length es" "x \<in> set (picked keep es n)"
  then obtain i where "i < n" "x = es ! i" "i < length (take n es)" by (auto simp: picked_def)
  then show "x \<in> set (take n es)" by (metis nth_mem nth_take)
qed

lemma picked_keep_index:
  assumes "n \<le> length es" "\<And>k. keep_index c (take n es) = Some k \<Longrightarrow> keep k"
  shows "keep_index c (picked keep es n) = map_option (\<lambda>k. length (picked keep es k)) (keep_index c (take n es))"
proof (cases "keep_index c (take n es)")
  case None
  then have "keep_index c (picked keep es n) = None"
    using picked_subset [OF assms(1), of keep] by (auto simp: keep_index_def index_of_None split: if_splits)
  with None show ?thesis by simp
next
  case (Some k)
  then have k: "k < n" "e_id (es ! k) = c_keep c" "\<forall>i < k. e_id (es ! i) \<noteq> c_keep c" "c_keep c \<noteq> []"
    using assms(1) by (auto simp: keep_index_def split: if_splits dest!: index_of_Some)
  obtain t where "picked keep es n = picked keep es (Suc k) @ t"
    using picked_split [of "Suc k" n] k(1) by auto
  then have p: "picked keep es n = picked keep es k @ es ! k # t"
    using assms(2) [OF Some] by (simp add: picked_Suc)
  have "c_keep c \<notin> set (map e_id (picked keep es k))"
    using k(3) by (fastforce simp: picked_def)
  moreover have "keep_index c (es ! k # t) = Some 0" using k by (simp add: keep_index_def)
  ultimately show ?thesis using Some by (simp add: p keep_index_skip)
qed

lemma gather_positions:
  "p \<in> set (gather inc es n) \<Longrightarrow> inc (fst p) \<or> \<not> plain_at es (fst p)"
  by (induction n) (auto split: option.splits if_splits simp: plain_at_def)

lemma gather_picked:
  assumes "n \<le> length es" "\<And>q. q < length es \<Longrightarrow> \<not> plain_at es q \<Longrightarrow> keep q"
    and "\<And>q c k. q < length es \<Longrightarrow> e_compaction (es ! q) = Some c \<Longrightarrow> keep_index c (take q es) = Some k \<Longrightarrow> keep k"
  shows "gather (\<lambda>i. P (picked keep es (length es) ! i)) (picked keep es (length es)) (length (picked keep es n))
    = map (\<lambda>p. (length (picked keep es (fst p)), snd p)) (gather (\<lambda>p. keep p \<and> P (es ! p)) es n)"
  using assms(1)
proof (induction n)
  case 0
  then show ?case by (simp add: picked_def)
next
  case (Suc n)
  let ?f = "\<lambda>k. length (picked keep es k)" and ?es = "picked keep es (length es)"
  let ?G = "gather (\<lambda>p. keep p \<and> P (es ! p)) es n"
  have n: "n < length es" using Suc.prems by simp
  show ?case
  proof (cases "keep n")
    case False
    then have "e_compaction (es ! n) = None" using assms(2) [OF n] by (metis plain_at_def)
    with False Suc show ?thesis by (simp add: picked_Suc)
  next
    case True
    have at: "?es ! ?f n = es ! n" "take (?f n) ?es = picked keep es n" "?f (Suc n) = Suc (?f n)"
      using True n by (simp_all add: picked_nth picked_take picked_Suc)
    show ?thesis
    proof (cases "e_compaction (es ! n)")
      case None
      with True Suc at n show ?thesis by simp
    next
      case (Some c)
      have ki: "keep_index c (take (?f n) ?es) = map_option ?f (keep_index c (take n es))"
        unfolding at(2) by (rule picked_keep_index) (use n assms(3) [OF n Some] in auto)
      have "filter (\<lambda>p. ?f k \<le> fst p) (map (\<lambda>p. (?f (fst p), snd p)) ?G)
          = map (\<lambda>p. (?f (fst p), snd p)) (filter (\<lambda>p. k \<le> fst p) ?G)" for k
      proof -
        have "?f k \<le> ?f (fst p) \<longleftrightarrow> k \<le> fst p" if "p \<in> set ?G" for p
          using gather_positions [OF that] gather_below [OF that] assms(2) [of "fst p"] n
          by (intro picked_less) auto
        then show ?thesis by (auto simp: filter_map o_def intro!: filter_cong arg_cong [where f = "map _"])
      qed
      with Suc n Some at ki show ?thesis
        by (simp only: at(3) gather.simps at(1) ki option.case) (auto split: option.splits)
    qed
  qed
qed

text \<open>\<open>retired\<close> is the opposite of surviving, for an entry that is no compaction.\<close>

lemma retired_survives:
  assumes "p < length es" "plain_at es p"
  shows "p \<in> set (retired es) \<longleftrightarrow> \<not> survives es (length es) p"
proof -
  have "p \<in> set (retired_by es q) \<longleftrightarrow> p < q \<and> \<not> spares es q p" if "q < length es" for q
    using assms(2) keep_index_bound [of _ "take q es"] that
    by (fastforce simp: retired_by_def spares_def plain_at_def Let_def split: option.splits)
  then show ?thesis
    by (auto simp: retired_def survives_def)
qed

text \<open>An entry at a position as \<open>lower\<close> writes it, and the positions it writes.\<close>

definition lowered :: "writer_caps \<Rightarrow> entry list \<Rightarrow> nat \<Rightarrow> entry" where
  "lowered c es i =
     (if e_compaction (es ! i) \<noteq> None \<or> writer_keeps c (es ! i) then es ! i
      else set_audience AudienceAll (es ! i))"

definition written :: "writer_caps \<Rightarrow> entry list \<Rightarrow> nat \<Rightarrow> bool" where
  "written c es i \<longleftrightarrow> \<not> plain_at es i \<or> writer_keeps c (es ! i) \<or> i \<in> set (retired es)"

definition all_lowered :: "writer_caps \<Rightarrow> entry list \<Rightarrow> entry list" where
  "all_lowered c es = map (lowered c es) [0..<length es]"

lemma all_lowered_nth [simp]: "i < length es \<Longrightarrow> all_lowered c es ! i = lowered c es i"
  by (simp add: all_lowered_def)

lemma all_lowered_length [simp]: "length (all_lowered c es) = length es"
  by (simp add: all_lowered_def)

lemma lowered_sel [simp]:
  "e_id (lowered c es i) = e_id (es ! i)" "e_compaction (lowered c es i) = e_compaction (es ! i)"
  "e_parent (lowered c es i) = e_parent (es ! i)" "e_role (lowered c es i) = e_role (es ! i)"
  by (simp_all add: lowered_def)

lemma lower_picked:
  "wc_compaction c \<Longrightarrow> lower_entries c es = picked (written c es) (all_lowered c es) (length es)"
proof -
  have "concat (map (lower_entry c es) ps) = map ((!) (all_lowered c es)) (filter (written c es) ps)"
    if "\<forall>p \<in> set ps. p < length es" for ps
    using that by (induction ps) (auto simp: lower_entry_def written_def lowered_def plain_at_def)
  then show "wc_compaction c \<Longrightarrow> ?thesis"
    by (simp add: lower_entries_def picked_def)
qed

lemma index_of_ids: "map e_id xs = map e_id ys \<Longrightarrow> index_of (\<lambda>e. e_id e = k) xs = index_of (\<lambda>e. e_id e = k) ys"
  using index_of_map [of "\<lambda>i. i = k" e_id xs] index_of_map [of "\<lambda>i. i = k" e_id ys] by (simp add: o_def)

lemma keep_index_lowered: "n \<le> length es \<Longrightarrow> keep_index c (take n (all_lowered cs es)) = keep_index c (take n es)"
proof -
  assume "n \<le> length es"
  then have "map e_id (take n (all_lowered cs es)) = map e_id (take n es)"
    by (intro nth_equalityI) simp_all
  from index_of_ids [OF this] show ?thesis by (simp add: keep_index_def)
qed

lemma survives_lowered: "survives (all_lowered cs es) (length es) = survives es (length es)"
proof
  fix p
  have "spares (all_lowered cs es) q p = spares es q p" if "q < length es" for q
    using that by (cases "e_compaction (es ! q)") (simp_all add: spares_def keep_index_lowered)
  then show "survives (all_lowered cs es) (length es) p = survives es (length es) p"
    by (simp add: survives_def)
qed

text \<open>
  What \<open>Keep\<close> has to name: an entry the writer keeps, retires or knows as a compaction. It is
  the condition under which a writer that records compactions loses nothing.
\<close>

definition keeps_travel :: "writer_caps \<Rightarrow> entry list \<Rightarrow> bool" where
  "keeps_travel c es \<longleftrightarrow>
     list_all (\<lambda>q. case e_compaction (es ! q) of
         None \<Rightarrow> True
       | Some k \<Rightarrow> (case keep_index k (take q es) of None \<Rightarrow> True | Some j \<Rightarrow> written c es j))
       [0..<length es]"

lemma lower_applied:
  assumes c: "wc_compaction c" and k: "keeps_travel c es"
  shows "apply_compactions (lower_entries c es) model_reads = apply_compactions es model_reads"
proof -
  let ?L = "all_lowered c es" and ?w = "written c es"
  let ?P = "picked ?w ?L (length es)"
  have pw: "\<not> plain_at ?L q \<Longrightarrow> ?w q" if "q < length es" for q
    using that by (simp add: written_def plain_at_def)
  have kw: "?w j" if "q < length es" "e_compaction (?L ! q) = Some d" "keep_index d (take q ?L) = Some j" for q d j
    using that k by (auto simp: keeps_travel_def keep_index_lowered list_all_iff dest!: bspec [of _ _ q])
  have "gather (\<lambda>i. model_reads (?P ! i)) ?P (length ?P)
      = map (\<lambda>p. (length (picked ?w ?L (fst p)), snd p)) (gather (\<lambda>p. ?w p \<and> model_reads (?L ! p)) ?L (length es))"
    using gather_picked [of "length es" ?L ?w model_reads] pw kw by simp
  then have a: "apply_compactions (lower_entries c es) model_reads
      = map snd (gather (\<lambda>p. ?w p \<and> model_reads (?L ! p)) ?L (length es))"
    by (simp add: lower_picked [OF c] apply_compactions_gather o_def)
  have same: "(plain_at ?L p \<and> (?w p \<and> model_reads (?L ! p)) \<and> survives ?L (length es) p)
      = (plain_at es p \<and> model_reads (es ! p) \<and> survives es (length es) p)
    \<and> (plain_at es p \<and> model_reads (es ! p) \<and> survives es (length es) p \<longrightarrow> ?L ! p = es ! p)"
    if "p < length es" for p
    using that retired_survives [OF that]
    by (auto simp: survives_lowered plain_at_def written_def lowered_def writer_keeps_def model_reads_def)
  have sums: "map (summary_at ?L) (filter (survives ?L (length es)) (rev [0..<length es]))
      = map (summary_at es) (filter (survives es (length es)) (rev [0..<length es]))"
    unfolding survives_lowered by (rule map_cong [OF refl]) (simp add: summary_at_def)
  have "map ((!) ?L) (filter (\<lambda>p. plain_at ?L p \<and> (?w p \<and> model_reads (?L ! p)) \<and> survives ?L (length es) p) [0..<length es])
      = map ((!) es) (filter (\<lambda>p. plain_at es p \<and> model_reads (es ! p) \<and> survives es (length es) p) [0..<length es])"
    by (rule map_cong [OF filter_upt_cong]) (use same in auto)
  with sums show ?thesis
    unfolding a unfolding apply_compactions_gather gather_closed by (simp add: map_concat o_def)
qed

text \<open>Without compactions of its own, the writer takes what the model has.\<close>

definition summaries_ok :: "entry list \<Rightarrow> bool" where
  "summaries_ok es \<longleftrightarrow>
     (\<forall>e \<in> set es. \<forall>c. e_compaction e = Some c \<longrightarrow>
        (\<forall>m \<in> set (c_summary c). e_compaction m = None \<and> e_parent m = [] \<and> model_reads m))"

lemma summary_at_ok:
  "summaries_ok es \<Longrightarrow> q < length es \<Longrightarrow> m \<in> set (summary_at es q) \<Longrightarrow>
   e_compaction m = None \<and> e_parent m = [] \<and> model_reads m"
  unfolding summaries_ok_def summary_at_def by (cases "e_compaction (es ! q)") (simp, force)

lemma filter_applied:
  assumes "summaries_ok es" "\<And>e. model_reads e \<Longrightarrow> P e"
  shows "filter model_reads (apply_compactions es P) = apply_compactions es model_reads"
proof -
  let ?n = "length es"
  have "filter model_reads (concat (map (summary_at es) qs)) = concat (map (summary_at es) qs)"
    if "\<forall>q \<in> set qs. q < ?n" for qs
    using that summary_at_ok [OF assms(1)] by (induction qs) (auto intro: filter_True)
  then have s: "filter model_reads (concat (map (summary_at es) (filter (survives es ?n) (rev [0..<?n]))))
      = concat (map (summary_at es) (filter (survives es ?n) (rev [0..<?n])))" by simp
  have "filter model_reads (map ((!) es) (filter (\<lambda>p. plain_at es p \<and> P (es ! p) \<and> survives es ?n p) [0..<?n]))
      = map ((!) es) (filter (\<lambda>p. plain_at es p \<and> model_reads (es ! p) \<and> survives es ?n p) [0..<?n])"
    by (auto simp: filter_map intro!: arg_cong [where f = "map _"] filter_upt_cong assms(2))
  with s show ?thesis
    unfolding apply_compactions_gather gather_closed by (simp add: map_concat o_def)
qed

lemma applied_plain:
  assumes "summaries_ok es"
  shows "list_all (\<lambda>e. e_compaction e = None) (apply_compactions es P)"
  unfolding list_all_iff apply_compactions_gather gather_closed
  using summary_at_ok [OF assms] by (auto simp: plain_at_def)

lemma applied_parents:
  assumes "summaries_ok es" "\<forall>e \<in> set es. e_parent e = []"
  shows "\<forall>e \<in> set (apply_compactions es P). e_parent e = []"
  unfolding apply_compactions_gather gather_closed
  using summary_at_ok [OF assms(1)] assms(2) by auto

lemma lower_entries_applied:
  assumes "summaries_ok es" "wc_compaction c \<longrightarrow> keeps_travel c es"
  shows "apply_compactions (lower_entries c es) model_reads = apply_compactions es model_reads"
proof (cases "wc_compaction c")
  case True
  with lower_applied assms(2) show ?thesis by blast
next
  case False
  have "apply_compactions (lower_entries c es) model_reads = filter model_reads (apply_compactions es (writer_keeps c))"
    using False apply_none [OF applied_plain [OF assms(1)]] by (simp add: lower_entries_def)
  also have "\<dots> = apply_compactions es model_reads"
    by (rule filter_applied [OF assms(1)]) (simp add: writer_keeps_def model_reads_def)
  finally show ?thesis .
qed

lemma lower_entries_parents:
  assumes "summaries_ok es" "\<forall>e \<in> set es. e_parent e = []"
  shows "\<forall>e \<in> set (lower_entries c es). e_parent e = []"
proof (cases "wc_compaction c")
  case True
  with assms(2) show ?thesis by (auto simp: lower_picked picked_def)
next
  case False
  then show ?thesis using applied_parents [OF assms] by (simp add: lower_entries_def)
qed

section \<open>Properties\<close>

text \<open>C33. What another agent's writer is handed carries nothing of the agent it came from and is
  one list: no vendor rows, no links, no content the agent had added for itself, no vendor state, no
  pinned leaf; a message in it is for the person or for everyone, a compaction row is an opaque
  marker whose summary is plain conversation, and every \<open>Keep\<close> names an entry that travelled.\<close>

theorem portable_selfcontained:
  "s_agent (portable h s) = [] \<and> s_leaf (portable h s) = [] \<and> s_vendor (portable h s) = None
   \<and> on_branch (portable h s) = s_entries (portable h s)
   \<and> list_all carried_ok (s_entries (portable h s))
   \<and> list_all (keep_in (e_id ` set (s_entries (portable h s)))) (s_entries (portable h s))"
proof -
  have "on_branch (portable h s) = s_entries (portable h s)"
    by (rule on_branch_list) (use portable_facts [of h s] in \<open>auto simp: portable_shape carried_ok_def\<close>)
  then show ?thesis
    using portable_facts [of h s] by (simp add: portable_shape list_all_iff)
qed


text \<open>Giving the calls IDs changes nothing but the IDs: every entry keeps its identity, role,
  audience, compaction and every other field of every block, and afterwards no two calls share an ID.\<close>

theorem unique_tool_ids_only_ids:
  "map sans_ids (unique_tool_ids es) = map sans_ids es
   \<and> distinct (uses (entry_blocks (unique_tool_ids es)))"
  unfolding unique_tool_ids_def using unique_entries_facts by blast

text \<open>Splitting an entry loses no block and adds none: the new entries hold exactly the old
  blocks, the first of them answers to the old entry's ID, so a compaction that keeps from it still
  does, and when there is more than one, each holds either no tool result or exactly one at its head,
  followed by the media that tool returned.\<close>

theorem split_results_content:
  "mset (entry_blocks (split_results e)) = mset (e_content e)
   \<and> e_id (hd (split_results e)) = e_id e
   \<and> (length (split_results e) = 1
      \<or> list_all (\<lambda>t. one_result (e_content t) \<or> list_all (\<lambda>b. b_kind b \<noteq> BlockToolResult) (e_content t))
          (split_results e))"
proof -
  obtain rest results where g: "group_results [] [] (e_content e) = (rest, results)" by fastforce
  from group_results_facts [OF g] have f: "\<forall>r \<in> set results. one_result r"
    "\<forall>b \<in> set rest. b_kind b \<noteq> BlockToolResult" "mset (rest @ concat results) = mset (e_content e)"
    by simp_all
  note c = result_entries_contents [of e "rest = []" 1 results]
  show ?thesis
  proof (cases "results = [] \<or> (length results = 1 \<and> rest = [])")
    case True
    with g show ?thesis by (simp add: split_results_def)
  next
    case False
    then have s: "split_results e = (if rest = [] then [] else [set_content rest e]) @ result_entries e (rest = []) 1 results"
      using g by (auto simp: split_results_def)
    have "list_all one_result (map e_content (result_entries e (rest = []) 1 results))"
      unfolding c using f(1) by (simp add: list_all_iff)
    then have "list_all (\<lambda>t. one_result (e_content t)) (result_entries e (rest = []) 1 results)"
      by (simp add: list_all_iff)
    then show ?thesis
      using f(2,3) split_results_hd [of e] c unfolding s entry_blocks_def
      by (auto simp: list_all_iff)
  qed
qed

text \<open>Moving compactions to where nothing has to be kept changes nothing for the model: when
  what the last compaction keeps holds no earlier compaction, the entries the model is given are
  those it was given before, and that compaction now keeps nothing.\<close>

theorem unkept_context:
  assumes "e_compaction m = Some c" "list_all (\<lambda>e. e_compaction e = None) post"
    and "case keep_index c pre of None \<Rightarrow> True | Some k \<Rightarrow> list_all (\<lambda>e. e_compaction e = None) (drop k pre)"
  shows "apply_compactions (unkept (pre @ m # post)) include = apply_compactions (pre @ m # post) include
    \<and> length (unkept (pre @ m # post)) = length (pre @ m # post)"
proof -
  have kept: "list_all (\<lambda>e. e_compaction e = None) (drop k pre)" if "keep_index c pre = Some k" for k
    using assms(3) that by simp
  let ?kept = "case keep_index c pre of None \<Rightarrow> [] | Some k \<Rightarrow> drop k pre"
  obtain pre' m' where m: "e_compaction m' = Some (Compaction (c_summary c) [])"
    and u: "unkept (pre @ m # post) = pre' @ m' # (?kept @ post)"
    using unkept_last [OF assms(1,2) kept] by auto
  have "list_all (\<lambda>e. e_compaction e = None) (?kept @ post)"
    using assms(2) kept by (auto split: option.splits)
  from apply_last [OF m this, of pre' "include"]
  have "apply_compactions (unkept (pre @ m # post)) include = c_summary c @ filter include ?kept @ filter include post"
    unfolding u by (simp add: keep_index_def)
  moreover have "apply_compactions (pre @ m # post) include =
      c_summary c @ (case keep_index c pre of None \<Rightarrow> [] | Some k \<Rightarrow> filter include (drop k pre)) @ filter include post"
    by (rule apply_last [OF assms(1,2) kept])
  ultimately show ?thesis
    using unkept_length by (auto split: option.splits)
qed

theorem unkept_context_witness:
  "let m = set_compaction (Some (Compaction [sample_row ''sum'' []] ''b'')) (sample_row ''m'' []);
       es = [sample_row ''a'' [], sample_row ''b'' []] @ m # [sample_row ''c'' []]
   in map e_id (apply_compactions (unkept es) model_reads) = map e_id (apply_compactions es model_reads)
      \<and> map e_id (unkept es) = [''a'', ''m'', ''b'', ''c'']"
proof -
  let ?c = "Compaction [sample_row ''sum'' []] ''b''"
  let ?m = "set_compaction (Some ?c) (sample_row ''m'' [])"
  have "apply_compactions (unkept ([sample_row ''a'' [], sample_row ''b'' []] @ ?m # [sample_row ''c'' []])) model_reads
      = apply_compactions ([sample_row ''a'' [], sample_row ''b'' []] @ ?m # [sample_row ''c'' []]) model_reads"
    by (rule unkept_context [where c = ?c, THEN conjunct1]) (simp_all add: sample_row_def keep_index_def)
  moreover have "map e_id (unkept ([sample_row ''a'' [], sample_row ''b'' []] @ ?m # [sample_row ''c'' []])) = [''a'', ''m'', ''b'', ''c'']"
    by (simp add: unkept_def unkept_step_def sample_row_def keep_index_def upt_rec)
  ultimately show ?thesis by simp
qed

end
