(* ===== verification/Transcript_Names.thy ===== *)
theory Transcript_Names
  imports Transcript_Portable
begin

text \<open>
  Names and attachments: how a working directory becomes a directory name (\<open>ProjectDir.Name\<close> and
  \<open>Layout.Dir\<close> of \<open>transcript/jsonl.go\<close>), and \<open>data:\<close> URLs (\<open>transcript/media.go\<close>), with the
  parts of \<open>net/url\<close> and \<open>encoding/base64\<close> both need.

  The program's builds for Windows, which lowercase a directory first, are not modelled.
\<close>

section \<open>Percent encoding (url.PathEscape, url.PathUnescape)\<close>

definition is_alnum :: "char \<Rightarrow> bool" where
  "is_alnum c \<longleftrightarrow> in_range 97 122 c \<or> in_range 65 90 c \<or> in_range 48 57 c"

definition path_safe :: "char \<Rightarrow> bool" where
  "path_safe c \<longleftrightarrow> is_alnum c \<or> c \<in> set ''-_.~$&+:=@''"

definition upper_hex :: "nat \<Rightarrow> char" where
  "upper_hex d = (if d < 10 then char_of (48 + d) else char_of (55 + d))"

definition path_escape :: "string \<Rightarrow> string" where
  "path_escape s =
     concat (map (\<lambda>c. if path_safe c then [c]
                      else [CHR ''%'', upper_hex (byte c div 16), upper_hex (byte c mod 16)]) s)"

fun path_unescape :: "string \<Rightarrow> string option" where
  "path_unescape [] = Some []"
| "path_unescape (c # cs) =
     (if c = CHR ''%'' then
        (case cs of
           a # b # r \<Rightarrow>
             (case (hex_val a, hex_val b) of
                (Some x, Some y) \<Rightarrow> map_option ((#) (char_of (16 * x + y))) (path_unescape r)
              | _ \<Rightarrow> None)
         | _ \<Rightarrow> None)
      else map_option ((#) c) (path_unescape cs))"

section \<open>Directory names (ProjectDir)\<close>

datatype project_dir = NoProjectDir | MangledCwd | CwdBase | EscapedCwd | DashWrappedCwd | SanitizedCwd

definition dashes :: "string \<Rightarrow> string \<Rightarrow> string" where
  "dashes cs = map (\<lambda>c. if c \<in> set cs then CHR ''-'' else c)"

text \<open>
  \<open>SanitizedCwd\<close> goes by code points: a sequence of bytes that is no code point counts as one
  per byte (Go reads each as U+FFFD), and a code point of four bytes is beyond U+FFFF.
\<close>

definition sanitize_chunk :: "string \<Rightarrow> string" where
  "sanitize_chunk w =
     (case w of
        [c] \<Rightarrow> if is_alnum c then [c] else ''-''
      | _ \<Rightarrow> if length w = 4 then ''--'' else ''-'')"

fun project_dir_name :: "project_dir \<Rightarrow> string \<Rightarrow> string" where
  "project_dir_name MangledCwd cwd = dashes [CHR ''/'', CHR 0x5C] cwd"
| "project_dir_name CwdBase cwd = path_base cwd"
| "project_dir_name EscapedCwd cwd = path_escape cwd"
| "project_dir_name DashWrappedCwd cwd =
     ''--'' @ dashes [CHR ''/'', CHR 0x5C, CHR '':'']
       (dropWhile (\<lambda>c. c = CHR ''/'' \<or> c = CHR 0x5C) cwd) @ ''--''"
| "project_dir_name SanitizedCwd cwd = concat (map sanitize_chunk (chunks cwd))"
| "project_dir_name NoProjectDir cwd = []"

text \<open>\<open>Layout.Dir\<close>; \<open>filepath.Join\<close>, which also cleans the path, is the argument \<open>joins\<close>.\<close>

definition layout_dir ::
  "(string list \<Rightarrow> string) \<Rightarrow> string \<Rightarrow> project_dir \<Rightarrow> string \<Rightarrow> string \<Rightarrow> string" where
  "layout_dir joins root p home cwd =
     (let base = joins [home, root] in
      if p = NoProjectDir then base
      else if cwd = [] then joins [base, ''*'']
      else joins [base, project_dir_name p cwd])"

section \<open>Base64 (base64.StdEncoding)\<close>

definition b64_digit :: "nat \<Rightarrow> char" where
  "b64_digit d =
     (if d < 26 then char_of (65 + d) else if d < 52 then char_of (97 + (d - 26))
      else if d < 62 then char_of (48 + (d - 52)) else if d = 62 then CHR ''+'' else CHR ''/'')"

definition b64_val :: "char \<Rightarrow> nat option" where
  "b64_val c =
     (if in_range 65 90 c then Some (byte c - 65)
      else if in_range 97 122 c then Some (byte c - 97 + 26)
      else if in_range 48 57 c then Some (byte c - 48 + 52)
      else if c = CHR ''+'' then Some 62 else if c = CHR ''/'' then Some 63 else None)"

fun b64_encode :: "string \<Rightarrow> string" where
  "b64_encode [] = []"
| "b64_encode [a] =
     [b64_digit (byte a div 4), b64_digit (byte a mod 4 * 16), CHR ''='', CHR ''='']"
| "b64_encode [a, b] =
     [b64_digit (byte a div 4), b64_digit (byte a mod 4 * 16 + byte b div 16),
      b64_digit (byte b mod 16 * 4), CHR ''='']"
| "b64_encode (a # b # c # r) =
     [b64_digit (byte a div 4), b64_digit (byte a mod 4 * 16 + byte b div 16),
      b64_digit (byte b mod 16 * 4 + byte c div 64), b64_digit (byte c mod 64)] @ b64_encode r"

text \<open>Groups of four digits; the last may end in padding. Line breaks are skipped.\<close>

definition b64_three :: "nat \<Rightarrow> nat \<Rightarrow> nat \<Rightarrow> nat \<Rightarrow> string" where
  "b64_three w x y z =
     [char_of (w * 4 + x div 16), char_of (x mod 16 * 16 + y div 4), char_of (y mod 4 * 64 + z)]"

fun b64_groups :: "string \<Rightarrow> string option" where
  "b64_groups [] = Some []"
| "b64_groups (a # b # c # d # r) =
     (case (b64_val a, b64_val b) of
        (Some w, Some x) \<Rightarrow>
          if c = CHR ''='' then
            (if d = CHR ''='' \<and> r = [] then Some (take 1 (b64_three w x 0 0)) else None)
          else (case b64_val c of
              None \<Rightarrow> None
            | Some y \<Rightarrow>
                if d = CHR ''='' then (if r = [] then Some (take 2 (b64_three w x y 0)) else None)
                else (case b64_val d of
                    None \<Rightarrow> None
                  | Some z \<Rightarrow> map_option (\<lambda>t. b64_three w x y z @ t) (b64_groups r)))
      | _ \<Rightarrow> None)"
| "b64_groups s = None"

definition b64_decode :: "string \<Rightarrow> string option" where
  "b64_decode s = b64_groups (filter (\<lambda>c. c \<noteq> CHR 0x0A \<and> c \<noteq> CHR 0x0D) s)"

section \<open>data: URLs (media.go)\<close>

text \<open>\<open>strings.Cut\<close> on one byte: before and after the first, \<open>None\<close> when there is none.\<close>

definition cut_at :: "char \<Rightarrow> string \<Rightarrow> (string \<times> string) option" where
  "cut_at c s =
     (if c \<in> set s then Some (takeWhile (\<lambda>x. x \<noteq> c) s, tl (dropWhile (\<lambda>x. x \<noteq> c) s)) else None)"

definition parse_data_url :: "string \<Rightarrow> (string \<times> string) option" where
  "parse_data_url u =
     (case cut_prefix u ''data:'' of
        None \<Rightarrow> None
      | Some rest \<Rightarrow>
          (case cut_at (CHR '','') rest of
             None \<Rightarrow> None
           | Some (meta, payload) \<Rightarrow>
               (let (media_type, params) = (case cut_at (CHR '';'') meta of None \<Rightarrow> (meta, []) | Some p \<Rightarrow> p)
                in if has_suffix params ''base64''
                   then map_option (\<lambda>d. (media_type, d)) (b64_decode payload)
                   else map_option (\<lambda>d. (media_type, d)) (path_unescape payload))))"

definition data_url :: "string \<Rightarrow> string \<Rightarrow> string" where
  "data_url media_type data = ''data:'' @ media_type @ '';base64,'' @ b64_encode data"

definition media_block :: "block_kind \<Rightarrow> string \<Rightarrow> string \<Rightarrow> string \<Rightarrow> block option" where
  "media_block kind media_type b64 tool_id =
     (case b64_decode b64 of
        None \<Rightarrow> None
      | Some data \<Rightarrow>
          Some ((empty_block kind)\<lparr>b_media_type := media_type, b_data := data, b_tool_id := tool_id\<rparr>))"

section \<open>Facts\<close>

lemma byte_bound: "byte c < 256"
  by (simp add: byte_def nat_of_char_less_256)

lemma byte_char [simp]: "n < 256 \<Longrightarrow> byte (char_of n) = n"
  by (simp add: byte_def)

lemma char_byte [simp]: "char_of (byte c) = c"
  by (simp add: byte_def)

lemma upper_hex_val: "d < 16 \<Longrightarrow> hex_val (upper_hex d) = Some d"
  by (auto simp: upper_hex_def hex_val_def in_range_def)

lemma percent_not_safe: "\<not> path_safe (CHR ''%'')"
  by (simp add: path_safe_def is_alnum_def in_range_def byte_def)

lemma path_unescape_escape: "path_unescape (path_escape s) = Some s"
proof (induction s)
  case Nil
  then show ?case by (simp add: path_escape_def)
next
  case (Cons c s)
  have e: "16 * (byte c div 16) + byte c mod 16 = byte c" by simp
  show ?case
  proof (cases "path_safe c")
    case True
    with percent_not_safe have "c \<noteq> CHR ''%''" by metis
    with True Cons show ?thesis by (simp add: path_escape_def)
  next
    case False
    have "byte c div 16 < 16" using byte_bound [of c] by simp
    with False Cons show ?thesis by (simp add: path_escape_def upper_hex_val e)
  qed
qed

lemma b64_val_digit: "d < 64 \<Longrightarrow> b64_val (b64_digit d) = Some d"
  by (auto simp: b64_digit_def b64_val_def in_range_def byte_def)

lemma b64_digit_plain:
  assumes "d < 64"
  shows "b64_digit d \<noteq> CHR ''=''" "b64_digit d \<noteq> CHR 0x0A" "b64_digit d \<noteq> CHR 0x0D"
proof -
  have "b64_val (CHR ''='') = None" "b64_val (CHR 0x0A) = None" "b64_val (CHR 0x0D) = None"
    by (simp_all add: b64_val_def in_range_def byte_def)
  with b64_val_digit [OF assms] show "b64_digit d \<noteq> CHR ''=''" "b64_digit d \<noteq> CHR 0x0A" "b64_digit d \<noteq> CHR 0x0D"
    by (metis option.distinct(1))+
qed

lemma sextets:
  "byte a div 4 < 64" "byte a mod 4 * 16 < 64" "byte a mod 4 * 16 + byte b div 16 < 64"
  "byte b mod 16 * 4 < 64" "byte b mod 16 * 4 + byte c div 64 < 64" "byte c mod 64 < 64"
  using byte_bound [of a] byte_bound [of b] byte_bound [of c] by simp_all

lemma sextets_back:
  "byte b div 16 div 16 = 0" "byte b div 16 mod 16 = byte b div 16"
  "byte c div 64 div 4 = 0" "byte c div 64 mod 4 = byte c div 64"
  using byte_bound [of b] byte_bound [of c] by simp_all

lemma b64_decode_encode: "b64_decode (b64_encode s) = Some s"
proof -
  have "filter (\<lambda>c. c \<noteq> CHR 0x0A \<and> c \<noteq> CHR 0x0D) (b64_encode s) = b64_encode s"
    by (induction s rule: b64_encode.induct) (simp_all add: b64_digit_plain sextets)
  moreover have "b64_groups (b64_encode s) = Some s"
    by (induction s rule: b64_encode.induct)
      (simp_all add: b64_digit_plain sextets b64_val_digit b64_three_def sextets_back)
  ultimately show ?thesis by (simp add: b64_decode_def)
qed

lemma cut_at_append: "c \<notin> set s \<Longrightarrow> cut_at c (s @ c # t) = Some (s, t)"
proof -
  assume "c \<notin> set s"
  then have "takeWhile (\<lambda>x. x \<noteq> c) s = s" "dropWhile (\<lambda>x. x \<noteq> c) s = []" "\<forall>x \<in> set s. x \<noteq> c"
    by (auto simp: takeWhile_eq_all_conv dropWhile_eq_Nil_conv)
  then show ?thesis by (simp add: cut_at_def takeWhile_append dropWhile_append)
qed

lemma dashes_no: "c \<in> set cs \<Longrightarrow> c \<noteq> CHR ''-'' \<Longrightarrow> c \<notin> set (dashes cs s)"
  by (auto simp: dashes_def)

lemma upper_hex_not: "d < 16 \<Longrightarrow> upper_hex d \<noteq> CHR ''/''"
proof
  assume d: "d < 16" and "upper_hex d = CHR ''/''"
  then have "byte (upper_hex d) = 47" by (simp add: byte_def)
  with d show False by (auto simp: upper_hex_def split: if_splits)
qed

lemma path_escape_no_slash: "CHR ''/'' \<notin> set (path_escape s)"
proof -
  have "\<not> path_safe (CHR ''/'')" by (simp add: path_safe_def is_alnum_def in_range_def byte_def)
  moreover have "upper_hex (byte c div 16) \<noteq> CHR ''/''" "upper_hex (byte c mod 16) \<noteq> CHR ''/''" for c
    using byte_bound [of c] by (simp_all add: upper_hex_not)
  ultimately show ?thesis by (induction s) (simp_all add: path_escape_def, metis)
qed

lemma sanitize_chunk_chars: "c \<in> set (sanitize_chunk w) \<Longrightarrow> is_alnum c \<or> c = CHR ''-''"
  by (auto simp: sanitize_chunk_def split: list.splits if_splits)

lemma slash_not_alnum: "\<not> is_alnum (CHR ''/'')"
  by (simp add: is_alnum_def in_range_def byte_def)

section \<open>Properties\<close>

text \<open>The directory a session goes to is directly below the agent's root: the name made from a
  working directory, whatever the directory and its characters, holds no path separator, and the
  sanitized form is only letters, digits and dashes.\<close>

theorem project_dir_name_flat:
  assumes "p \<noteq> CwdBase"
  shows "CHR ''/'' \<notin> set (project_dir_name p cwd)
    \<and> (p = SanitizedCwd \<longrightarrow> list_all (\<lambda>c. is_alnum c \<or> c = CHR ''-'') (project_dir_name p cwd))"
proof (cases p)
  case SanitizedCwd
  then show ?thesis
    using sanitize_chunk_chars [of "CHR ''/''"] sanitize_chunk_chars slash_not_alnum by (auto simp: list_all_iff)
qed (use assms dashes_no path_escape_no_slash in auto)

theorem project_dir_name_flat_witness:
  "project_dir_name SanitizedCwd ''/a/b.c d'' = ''-a-b-c-d''
   \<and> CHR ''/'' \<notin> set (project_dir_name SanitizedCwd ''/a/b.c d'')"
  using project_dir_name_flat [of SanitizedCwd "''/a/b.c d''"]
  by (simp add: sanitize_chunk_def is_alnum_def in_range_def byte_def)

text \<open>Percent-encoded directories never collide: the name gives the working directory back, so
  two different directories have different names.\<close>

theorem escaped_cwd_injective:
  "path_unescape (project_dir_name EscapedCwd a) = Some a
   \<and> (project_dir_name EscapedCwd a = project_dir_name EscapedCwd b \<longleftrightarrow> a = b)"
proof -
  have "path_escape a = path_escape b \<Longrightarrow> a = b"
    using path_unescape_escape [of a] path_unescape_escape [of b] by (metis option.inject)
  then show ?thesis using path_unescape_escape [of a] by (simp only: project_dir_name.simps) blast
qed

text \<open>An attachment survives being written as a data: URL: reading the URL gives the media type
  and the bytes back, for every content.\<close>

theorem data_url_roundtrip:
  assumes "CHR '','' \<notin> set mt" "CHR '';'' \<notin> set mt"
  shows "parse_data_url (data_url mt d) = Some (mt, d)"
proof -
  have "data_url mt d = ''data:'' @ (mt @ '';base64'') @ CHR '','' # b64_encode d"
    by (simp add: data_url_def)
  then have p: "cut_prefix (data_url mt d) ''data:'' = Some ((mt @ '';base64'') @ CHR '','' # b64_encode d)"
    by (simp only: cut_prefix_append)
  have c: "cut_at (CHR '','') ((mt @ '';base64'') @ CHR '','' # b64_encode d) = Some (mt @ '';base64'', b64_encode d)"
    by (rule cut_at_append) (use assms in simp)
  have s: "cut_at (CHR '';'') (mt @ '';base64'') = Some (mt, ''base64'')"
    using cut_at_append [OF assms(2), of "''base64''"] by simp
  show ?thesis
    unfolding parse_data_url_def p option.case c prod.case s Let_def
    by (simp add: b64_decode_encode has_suffix_def)
qed

theorem data_url_roundtrip_witness:
  "parse_data_url (data_url ''image/png'' [CHR 0x89, CHR ''P'']) = Some (''image/png'', [CHR 0x89, CHR ''P''])"
  by (rule data_url_roundtrip) simp_all

end
