(* ===== verification/Transcript_Jsonl.thy ===== *)
theory Transcript_Jsonl
  imports Transcript_Names "HOL-Library.Word"
begin

text \<open>
  The store of one file per session (\<open>transcript/jsonl.go\<close>): entry ids (\<open>IDScheme\<close>, \<open>UUIDs\<close>,
  \<open>AssignIDs\<close>), reading a session (\<open>Read\<close> with \<open>decodeAll\<close>), writing one (\<open>Write\<close>), and the atomic
  file write it ends in (\<open>WriteFileAtomic\<close>).

  What an agent's codec supplies, the fields of the Go struct \<open>JSONL\<close>, is the record \<open>jsonl\<close>; a
  callback that gets the session by pointer returns the session it leaves. The source of new ids
  is a supply \<open>nat \<Rightarrow> string\<close>, and the number of the next one. A read gets the file's bytes, and a
  write gives the id and the bytes it hands to \<open>WriteFileAtomic\<close>; looking up the file, the clock,
  and the callback \<open>After\<close>, which runs when the file is there, are outside.
\<close>

section \<open>Entry ids\<close>

text \<open>What the engine relies on in a scheme: the ids it mints are ids it accepts.\<close>

locale id_scheme =
  fixes new :: "nat \<Rightarrow> string" and valid :: "string \<Rightarrow> bool"
  assumes new_valid: "valid (new k)" and valid_nonempty: "\<not> valid []"
begin

lemma new_nonempty: "new k \<noteq> []"
  using new_valid valid_nonempty by metis

end

definition hex_lower :: "nat \<Rightarrow> char" where
  "hex_lower d = (if d < 10 then char_of (48 + d) else char_of (87 + d))"

definition hex_byte :: "8 word \<Rightarrow> string" where
  "hex_byte b = [hex_lower (unat b div 16), hex_lower (unat b mod 16)]"

text \<open>\<open>NewUUID\<close> from sixteen random bytes.\<close>

unbundle bit_operations_syntax

definition uuid_bytes :: "(nat \<Rightarrow> 8 word) \<Rightarrow> nat \<Rightarrow> 8 word" where
  "uuid_bytes b = b(6 := (b 6 AND 0x0f) OR 0x40, 8 := (b 8 AND 0x3f) OR 0x80)"

definition new_uuid :: "(nat \<Rightarrow> 8 word) \<Rightarrow> string" where
  "new_uuid b =
     (let h = (\<lambda>i j. concat (map (\<lambda>k. hex_byte (uuid_bytes b k)) [i..<j])) in
      h 0 4 @ ''-'' @ h 4 6 @ ''-'' @ h 6 8 @ ''-'' @ h 8 10 @ ''-'' @ h 10 16)"

definition is_hex_digit :: "char \<Rightarrow> bool" where
  "is_hex_digit c \<longleftrightarrow> c \<in> set ''0123456789abcdefABCDEF''"

definition is_uuid :: "string \<Rightarrow> bool" where
  "is_uuid s \<longleftrightarrow>
     length s = 36 \<and>
     list_all (\<lambda>i. if i \<in> {8, 13, 18, 23} then s ! i = CHR ''-'' else is_hex_digit (s ! i)) [0..<36]"

lemma hex_lower_digit: "d < 16 \<Longrightarrow> is_hex_digit (hex_lower d)"
proof -
  have "list_all (\<lambda>d. is_hex_digit (hex_lower d)) [0..<16]"
    by (simp add: upt_rec is_hex_digit_def hex_lower_def char_of_eq_iff)
  then show "d < 16 \<Longrightarrow> ?thesis" by (simp add: list_all_iff)
qed

lemma hex_byte_digits: "list_all is_hex_digit (hex_byte b)" "length (hex_byte b) = 2"
proof -
  have "unat b < 2 ^ LENGTH(8)" by (rule unsigned_less)
  then have "unat b div 16 < 16" by simp
  then show "list_all is_hex_digit (hex_byte b)" "length (hex_byte b) = 2"
    by (simp_all add: hex_byte_def hex_lower_digit)
qed

lemma new_uuid_is_uuid: "is_uuid (new_uuid b)"
proof -
  obtain x where h: "hex_byte (uuid_bytes b k) = [x k True, x k False]"
    "is_hex_digit (x k True)" "is_hex_digit (x k False)" for k
  proof -
    have "hex_byte (uuid_bytes b k) = [hex_byte (uuid_bytes b k) ! 0, hex_byte (uuid_bytes b k) ! 1]"
      "is_hex_digit (hex_byte (uuid_bytes b k) ! 0)" "is_hex_digit (hex_byte (uuid_bytes b k) ! 1)" for k
      using hex_byte_digits(1) [of "uuid_bytes b k"] by (simp_all add: hex_byte_def)
    then show ?thesis
      by (intro that [of "\<lambda>k i. hex_byte (uuid_bytes b k) ! (if i then 0 else 1)"]) simp_all
  qed
  show ?thesis
    by (simp add: new_uuid_def h(1) is_uuid_def upt_rec h(2,3))
qed

interpretation uuids: id_scheme "\<lambda>k. new_uuid (rnd k)" is_uuid for rnd
  by unfold_locales (simp_all add: new_uuid_is_uuid, simp add: is_uuid_def)

section \<open>AssignIDs\<close>

text \<open>
  A scheme: the supply of new ids and the test an agent makes, \<open>None\<close> when it makes none. An
  entry a write creates is a message without a row of its own, or a compaction marker.
\<close>

record scheme =
  sch_new :: "nat \<Rightarrow> string"
  sch_valid :: "(string \<Rightarrow> bool) option"

definition created :: "entry \<Rightarrow> bool" where
  "created e \<longleftrightarrow> e_raw e = None \<and> (e_role e \<noteq> RoleOpaque \<or> e_compaction e \<noteq> None)"

definition needs_id :: "scheme \<Rightarrow> entry \<Rightarrow> bool" where
  "needs_id sch e \<longleftrightarrow>
     e_id e = [] \<or> (case sch_valid sch of None \<Rightarrow> False | Some valid \<Rightarrow> \<not> valid (e_id e))"

fun give_ids ::
  "scheme \<Rightarrow> nat \<Rightarrow> (string \<rightharpoonup> string) \<Rightarrow> entry list \<Rightarrow> nat \<times> (string \<rightharpoonup> string) \<times> entry list" where
  "give_ids sch n remap [] = (n, remap, [])"
| "give_ids sch n remap (e # es) =
     (if created e \<and> needs_id sch e then
        let i = sch_new sch n;
            (n, remap, es) = give_ids sch (Suc n) (if e_id e \<noteq> [] then remap(e_id e \<mapsto> i) else remap) es
        in (n, remap, set_id i e # es)
      else let (n, remap, es) = give_ids sch n remap es in (n, remap, e # es))"

definition follow_keep :: "(string \<rightharpoonup> string) \<Rightarrow> entry \<Rightarrow> entry" where
  "follow_keep remap e =
     (case e_compaction e of
        None \<Rightarrow> e
      | Some c \<Rightarrow>
          (if e_raw e \<noteq> None then e
           else case remap (c_keep c) of
                  None \<Rightarrow> e | Some i \<Rightarrow> set_compaction (Some (Compaction (c_summary c) i)) e))"

text \<open>The last loop: links are renamed too, and a tree's new entries follow one another.\<close>

fun link_ids ::
  "(string \<rightharpoonup> string) \<Rightarrow> bool \<Rightarrow> bool \<Rightarrow> string \<Rightarrow> string \<Rightarrow> bool \<Rightarrow> entry list \<Rightarrow> entry list" where
  "link_ids remap tree restart leaf prev first [] = []"
| "link_ids remap tree restart leaf prev first (e # es) =
     (if created e then
        let e1 = (case remap (e_parent e) of None \<Rightarrow> e | Some i \<Rightarrow> set_parent i e);
            prev = (if first \<and> restart then [] else if first \<and> leaf \<noteq> [] then leaf else prev);
            e2 = (if tree \<and> e_parent e1 = [] then set_parent prev e1 else e1)
        in e2 # link_ids remap tree restart leaf (if e_id e2 \<noteq> [] then e_id e2 else prev) False es
      else e # link_ids remap tree restart leaf (if e_id e \<noteq> [] then e_id e else prev) first es)"

definition assign_ids :: "scheme \<Rightarrow> bool \<Rightarrow> nat \<Rightarrow> 'v session \<Rightarrow> nat \<times> 'v session" where
  "assign_ids sch tree n s =
     (case give_ids sch n Map.empty (s_entries s) of
        (n, remap, es) \<Rightarrow>
          (n, s\<lparr>s_entries := link_ids remap tree (s_restart s) (s_leaf s) [] True (map (follow_keep remap) es)\<rparr>))"

section \<open>The engine\<close>

record 'v jsonl =
  j_agent :: string
  j_caps :: writer_caps
  j_header :: "(string \<Rightarrow> 'v session \<Rightarrow> (bool \<times> 'v session) result) option"
  j_decode :: "string \<Rightarrow> 'v session \<Rightarrow> (entry option \<times> 'v session) result"
  j_finish :: "('v session \<Rightarrow> 'v session result) option"
  j_encode :: "(entry \<Rightarrow> 'v session \<Rightarrow> string result) option"
  j_write_header :: "('v session \<Rightarrow> string list result) option"
  j_prepare :: "('v session \<Rightarrow> 'v session result) option"
  j_tree :: bool
  j_ids :: scheme

definition opaque_row :: "string \<Rightarrow> entry" where
  "opaque_row row = Entry [] [] RoleOpaque 0 [] None AudienceAll None (Some row)"

text \<open>
  \<open>bufio.Scanner\<close> with a limit of 64 MiB: the lines before the first that is too long, and
  whether there is one.
\<close>

definition max_line :: nat where
  "max_line = 64 * 2 ^ 20"

definition file_lines :: "string \<Rightarrow> string list" where
  "file_lines data =
     (let ls = split_on (CHR 0x0A) data in if last ls = [] then butlast ls else ls)"

definition scan_lines :: "string \<Rightarrow> string list \<times> bool" where
  "scan_lines data =
     (let ls = file_lines data; ok = takeWhile (\<lambda>l. length l < max_line) ls
      in (ok, length ok < length ls))"

definition add_entry :: "'v session \<Rightarrow> entry \<Rightarrow> 'v session" where
  "add_entry s e = s\<lparr>s_entries := s_entries s @ [e]\<rparr>"

fun decode_rows :: "'v jsonl \<Rightarrow> bool \<Rightarrow> 'v session \<Rightarrow> string list \<Rightarrow> 'v session result" where
  "decode_rows cfg first s [] = Inr s"
| "decode_rows cfg first s (l # ls) =
     (let row = trim_space l in
      if row = [] then decode_rows cfg first s ls
      else if \<not> json_valid row then decode_rows cfg first (add_entry s (opaque_row row)) ls
      else
        (case (if first then j_header cfg else None) of
           Some header \<Rightarrow>
             (case header row s of
                Inl e \<Rightarrow> Inl (''transcript: header: '' @ e)
              | Inr (True, s) \<Rightarrow> decode_rows cfg False (add_entry s (opaque_row row)) ls
              | Inr (False, s) \<Rightarrow>
                  (case j_decode cfg row s of
                     Inl e \<Rightarrow> Inl (''transcript: row: '' @ e)
                   | Inr (d, s) \<Rightarrow>
                       decode_rows cfg False
                         (add_entry s (case d of None \<Rightarrow> opaque_row row | Some e \<Rightarrow> set_raw (Some row) e)) ls))
         | None \<Rightarrow>
             (case j_decode cfg row s of
                Inl e \<Rightarrow> Inl (''transcript: row: '' @ e)
              | Inr (d, s) \<Rightarrow>
                  decode_rows cfg False
                    (add_entry s (case d of None \<Rightarrow> opaque_row row | Some e \<Rightarrow> set_raw (Some row) e)) ls)))"

definition set_created :: "'v session \<Rightarrow> 'v session" where
  "set_created s =
     (if s_created s = 0
      then (case find (\<lambda>e. e_time e \<noteq> 0) (s_entries s) of None \<Rightarrow> s | Some e \<Rightarrow> s\<lparr>s_created := e_time e\<rparr>)
      else s)"

definition decode_all :: "'v jsonl \<Rightarrow> string \<Rightarrow> 'v session \<Rightarrow> 'v session result" where
  "decode_all cfg data s =
     (case scan_lines data of
        (ls, too_long) \<Rightarrow>
          result_bind (decode_rows cfg True s ls)
            (\<lambda>s. if too_long then Inl ''bufio.Scanner: token too long'' else Inr (set_created s)))"

text \<open>\<open>Read\<close> of a session whose file is found: its id, the file's time and its bytes.\<close>

definition new_session :: "string \<Rightarrow> string \<Rightarrow> int \<Rightarrow> 'v session" where
  "new_session i agent updated =
     \<lparr>s_id = i, s_agent = agent, s_cwd = [], s_title = [], s_model = [], s_created = 0, s_updated = updated,
      s_entries = [], s_leaf = [], s_restart = False, s_vendor = None\<rparr>"

definition read_session :: "'v jsonl \<Rightarrow> string \<Rightarrow> int \<Rightarrow> string \<Rightarrow> 'v session result" where
  "read_session cfg i mtime data =
     result_bind (decode_all cfg data (new_session i (j_agent cfg) mtime))
       (\<lambda>s. case j_finish cfg of
              None \<Rightarrow> Inr s
            | Some finish \<Rightarrow>
                (case finish s of Inl e \<Rightarrow> Inl (''transcript: '' @ i @ '': '' @ e) | Inr s \<Rightarrow> Inr s))"

section \<open>Writing\<close>

text \<open>
  The inner loop of \<open>Write\<close>: from a parent that was left out to the parent it had. It has no
  bound, so not returning is \<open>None\<close>.
\<close>

partial_function (option) resolve :: "(string \<rightharpoonup> string) \<Rightarrow> string \<Rightarrow> string option" where
  "resolve dropped p = (case dropped p of None \<Rightarrow> Some p | Some q \<Rightarrow> resolve dropped q)"

definition line :: "string \<Rightarrow> string" where
  "line row = row @ [CHR 0x0A]"

text \<open>The rows of the entries: \<open>None\<close> when the loop above does not return.\<close>

fun write_rows ::
  "(entry \<Rightarrow> 'v session \<Rightarrow> string result) \<Rightarrow> 'v session \<Rightarrow> (string \<rightharpoonup> string) \<Rightarrow> string \<Rightarrow> entry list
     \<Rightarrow> string result option" where
  "write_rows encode s dropped buf [] = Some (Inr buf)"
| "write_rows encode s dropped buf (e # es) =
     Option.bind (resolve dropped (e_parent e))
       (\<lambda>p. let e = set_parent p e in
          (case (case e_raw e of Some row \<Rightarrow> Inr row | None \<Rightarrow> encode e s) of
             Inl err \<Rightarrow> Some (Inl err)
           | Inr row \<Rightarrow>
               if row = [] then
                 write_rows encode s
                   (if e_raw e = None \<and> e_id e \<noteq> [] then dropped(e_id e \<mapsto> e_parent e) else dropped) buf es
               else write_rows encode s dropped (buf @ line row) es))"

text \<open>\<open>Write\<close>: the id and the bytes. \<open>fresh\<close> is the session id it would mint, \<open>now\<close> the clock.\<close>

definition take_session :: "host \<Rightarrow> 'v jsonl \<Rightarrow> 'v session \<Rightarrow> 'v session" where
  "take_session h cfg s = (if s_agent s \<noteq> j_agent cfg then lower_session (j_caps cfg) (portable h s) else s)"

definition stamp :: "string \<Rightarrow> int \<Rightarrow> 'v session \<Rightarrow> 'v session" where
  "stamp fresh now s =
     (let s = (if s_id s = [] then s\<lparr>s_id := fresh\<rparr> else s);
          s = (if s_created s = 0 then s\<lparr>s_created := now\<rparr> else s)
      in if s_updated s = 0 then s\<lparr>s_updated := s_created s\<rparr> else s)"

definition is_foreign :: "'v session \<Rightarrow> bool" where
  "is_foreign s \<longleftrightarrow> s_entries s = [] \<or> e_raw (hd (s_entries s)) = None"

definition write_session ::
  "host \<Rightarrow> 'v jsonl \<Rightarrow> string \<Rightarrow> int \<Rightarrow> nat \<Rightarrow> 'v session \<Rightarrow> (string \<times> string) result option" where
  "write_session h cfg fresh now n s =
     (case j_encode cfg of
        None \<Rightarrow> Some (Inl ''transcript: store is read-only'')
      | Some encode \<Rightarrow>
          let s = take_session h cfg s in
          (case (case j_prepare cfg of None \<Rightarrow> Inr s | Some prepare \<Rightarrow> prepare s) of
             Inl e \<Rightarrow> Some (Inl e)
           | Inr s \<Rightarrow>
               let foreign = is_foreign s; s = snd (assign_ids (j_ids cfg) (j_tree cfg) n (stamp fresh now s)) in
               (case (if foreign then j_write_header cfg else None) of
                  None \<Rightarrow> map_option (map_sum id (\<lambda>b. (s_id s, b))) (write_rows encode s Map.empty [] (s_entries s))
                | Some write_header \<Rightarrow>
                    (case write_header s of
                       Inl e \<Rightarrow> Some (Inl e)
                     | Inr rows \<Rightarrow>
                         map_option (map_sum id (\<lambda>b. (s_id s, b)))
                           (write_rows encode s Map.empty (concat (map line rows)) (s_entries s))))))"

text \<open>\<open>pathFor\<close>, with the layout's own placement when it has one.\<close>

definition path_for ::
  "(string list \<Rightarrow> string) \<Rightarrow> (string \<Rightarrow> 'v session \<Rightarrow> string) option \<Rightarrow> string \<Rightarrow> project_dir \<Rightarrow> string
     \<Rightarrow> string \<Rightarrow> 'v session \<Rightarrow> string" where
  "path_for joins place root p ext home s =
     (case place of
        Some f \<Rightarrow> f home s
      | None \<Rightarrow> joins [layout_dir joins root p home (s_cwd s), s_id s @ ext])"

section \<open>The atomic write\<close>

text \<open>
  \<open>WriteFileAtomic\<close> as what the file system goes through: the temporary file is written, any
  part of it at a time, and then renamed into place. A crash leaves the files as some step does.
  A step that fails removes the temporary file and ends.
\<close>

type_synonym files = "string \<rightharpoonup> string"

definition tmp_of :: "string \<Rightarrow> string" where
  "tmp_of path = path @ ''.tmp''"

inductive write_step :: "string \<Rightarrow> string \<Rightarrow> files \<Rightarrow> files \<Rightarrow> bool" for path data where
  begin_tmp: "write_step path data fs (fs(tmp_of path \<mapsto> []))"
| grow_tmp: "fs (tmp_of path) = Some (take k data) \<Longrightarrow> k \<le> m \<Longrightarrow> write_step path data fs (fs(tmp_of path \<mapsto> take m data))"
| rename: "fs (tmp_of path) = Some data \<Longrightarrow> write_step path data fs (fs(path \<mapsto> data, tmp_of path := None))"
| give_up: "write_step path data fs (fs(tmp_of path := None))"

inductive write_reaches :: "string \<Rightarrow> string \<Rightarrow> files \<Rightarrow> files \<Rightarrow> bool" for path data fs where
  start: "write_reaches path data fs fs"
| more: "write_reaches path data fs fs' \<Longrightarrow> write_step path data fs' fs'' \<Longrightarrow> write_reaches path data fs fs''"

inductive_cases write_stepE: "write_step path data fs fs'"

section \<open>Facts: ids\<close>

lemma created_sel [simp]:
  "created (set_id i e) = created e" "created (set_parent p e) = created e"
  "created (follow_keep r e) = created e"
  by (auto simp: created_def follow_keep_def split: option.splits)

lemma follow_keep_sel [simp]:
  "e_id (follow_keep r e) = e_id e" "e_parent (follow_keep r e) = e_parent e"
  "e_raw (follow_keep r e) = e_raw e" "e_role (follow_keep r e) = e_role e"
  "e_content (follow_keep r e) = e_content e"
  by (auto simp: follow_keep_def split: option.splits)

lemma follow_keep_old: "\<not> created e \<Longrightarrow> follow_keep r e = e"
  by (auto simp: created_def follow_keep_def split: option.splits)

lemma give_ids_other:
  "give_ids sch n remap es = (n', remap', es') \<Longrightarrow>
     length es' = length es \<and> map created es' = map created es
   \<and> (\<forall>i < length es. (created (es ! i) \<and> needs_id sch (es ! i)) \<or> es' ! i = es ! i)
   \<and> map e_parent es' = map e_parent es"
proof (induction sch n remap es arbitrary: n' remap' es' rule: give_ids.induct)
  case (1 sch n remap)
  then show ?case by simp
next
  case (2 sch n remap e es)
  show ?case
  proof (cases "created e \<and> needs_id sch e")
    case True
    obtain n1 r1 es1 where r: "give_ids sch (Suc n) (if e_id e \<noteq> [] then remap(e_id e \<mapsto> sch_new sch n) else remap) es = (n1, r1, es1)"
      by (metis prod_cases3)
    from "2.IH"(1) [OF True refl r] "2.prems" True r show ?thesis
      by (auto simp: Let_def nth_Cons split: nat.splits)
  next
    case False
    obtain n1 r1 es1 where r: "give_ids sch n remap es = (n1, r1, es1)"
      by (metis prod_cases3)
    from "2.IH"(2) [OF False r] "2.prems" False r show ?thesis
      by (auto simp: Let_def nth_Cons split: nat.splits)
  qed
qed

lemma link_ids_sel:
  "map e_id (link_ids r tree rs lf prev first es) = map e_id es"
  "map e_raw (link_ids r tree rs lf prev first es) = map e_raw es"
  "map created (link_ids r tree rs lf prev first es) = map created es"
  by (induction r tree rs lf prev first es rule: link_ids.induct) (auto simp: Let_def split: option.splits)

lemma link_ids_old: "list_all (\<lambda>e. \<not> created e) es \<Longrightarrow> link_ids r tree rs lf prev first es = es"
  by (induction es arbitrary: prev first) simp_all

lemma give_ids_old: "list_all (\<lambda>e. \<not> created e) es \<Longrightarrow> give_ids sch n r es = (n, r, es)"
  by (induction es arbitrary: n r) simp_all

lemma assign_ids_old: "list_all (\<lambda>e. \<not> created e) (s_entries s) \<Longrightarrow> assign_ids sch tree n s = (n, s)"
proof -
  assume h: "list_all (\<lambda>e. \<not> created e) (s_entries s)"
  have "map (follow_keep Map.empty) (s_entries s) = s_entries s"
    by (rule map_idI) (use h in \<open>auto simp: follow_keep_old list_all_iff\<close>)
  then show ?thesis by (simp add: assign_ids_def give_ids_old [OF h] link_ids_old [OF h])
qed

text \<open>Every id the loop leaves on a created entry is one the scheme accepts.\<close>

definition scheme_ok :: "scheme \<Rightarrow> bool" where
  "scheme_ok sch \<longleftrightarrow>
     (case sch_valid sch of None \<Rightarrow> \<forall>k. sch_new sch k \<noteq> [] | Some valid \<Rightarrow> id_scheme (sch_new sch) valid)"

lemma scheme_new:
  assumes "scheme_ok sch"
  shows "\<not> needs_id sch (set_id (sch_new sch k) e)"
proof (cases "sch_valid sch")
  case None
  with assms show ?thesis by (simp add: scheme_ok_def needs_id_def)
next
  case (Some valid)
  with assms show ?thesis
    by (simp add: scheme_ok_def needs_id_def id_scheme.new_nonempty id_scheme.new_valid)
qed

lemma needs_id_same: "e_id e = e_id e' \<Longrightarrow> needs_id sch e = needs_id sch e'"
  by (cases "sch_valid sch") (simp_all add: needs_id_def)

lemma give_ids_step:
  "give_ids sch n r (e # es) =
     (case give_ids sch (if created e \<and> needs_id sch e then Suc n else n)
             (if created e \<and> needs_id sch e \<and> e_id e \<noteq> [] then r(e_id e \<mapsto> sch_new sch n) else r) es of
        (n, r, es') \<Rightarrow> (n, r, (if created e \<and> needs_id sch e then set_id (sch_new sch n0) e else e) # es'))"
  if "n0 = n"
  using that by (auto simp: Let_def)

lemma give_ids_ok:
  assumes "scheme_ok sch" "give_ids sch n r es = (n', r', es')"
  shows "list_all (\<lambda>e. created e \<longrightarrow> \<not> needs_id sch e) es'"
  using assms(2)
proof (induction es arbitrary: n r n' r' es')
  case Nil
  then show ?case by simp
next
  case (Cons e es)
  let ?e = "if created e \<and> needs_id sch e then set_id (sch_new sch n) e else e"
  obtain n1 r1 es1 where "give_ids sch (if created e \<and> needs_id sch e then Suc n else n)
      (if created e \<and> needs_id sch e \<and> e_id e \<noteq> [] then r(e_id e \<mapsto> sch_new sch n) else r) es = (n1, r1, es1)"
    and es': "es' = ?e # es1"
    using Cons.prems give_ids_step [OF refl, of sch n r e es] by (auto split: prod.splits)
  from Cons.IH [OF this(1)] have "list_all (\<lambda>e. created e \<longrightarrow> \<not> needs_id sch e) es1" .
  moreover have "created ?e \<longrightarrow> \<not> needs_id sch ?e"
    using scheme_new [OF assms(1), of n e] by auto
  ultimately show ?case unfolding es' by simp
qed

lemma give_ids_remap:
  "give_ids sch n r es = (n', r', es') \<Longrightarrow> r [] = None \<Longrightarrow> r' [] = None"
proof (induction es arbitrary: n r n' r' es')
  case Nil
  then show ?case by simp
next
  case (Cons e es)
  then show ?case
    using give_ids_step [OF refl, of sch n r e es] by (auto split: prod.splits if_splits elim!: Cons.IH)
qed

lemma give_ids_distinct:
  assumes "inj (sch_new sch)"
  shows "give_ids sch n r es = (n', r', es') \<Longrightarrow> list_all created es \<Longrightarrow>
    \<forall>k. sch_new sch k \<notin> set (map e_id es) \<Longrightarrow> distinct (filter (\<lambda>i. i \<noteq> []) (map e_id es)) \<Longrightarrow>
    distinct (map e_id es')
    \<and> (\<forall>i \<in> set (map e_id es'). (i \<noteq> [] \<and> i \<in> set (map e_id es)) \<or> (\<exists>k \<ge> n. i = sch_new sch k))"
proof (induction es arbitrary: n r n' r' es')
  case Nil
  then show ?case by simp
next
  case (Cons e es)
  let ?new = "created e \<and> needs_id sch e"
  let ?e = "if ?new then set_id (sch_new sch n) e else e" and ?n = "if ?new then Suc n else n"
  let ?from = "\<lambda>n i. (i \<noteq> [] \<and> i \<in> set (map e_id es)) \<or> (\<exists>k \<ge> n. i = sch_new sch k)"
  obtain n1 r1 es1 where g: "give_ids sch ?n
      (if ?new \<and> e_id e \<noteq> [] then r(e_id e \<mapsto> sch_new sch n) else r) es = (n1, r1, es1)"
    and es': "es' = ?e # es1"
    using Cons.prems(1) give_ids_step [OF refl, of sch n r e es] by (auto split: prod.splits)
  from Cons.prems have "list_all created es" "\<forall>k. sch_new sch k \<notin> set (map e_id es)"
    "distinct (filter (\<lambda>i. i \<noteq> []) (map e_id es))" by (auto split: if_splits)
  from Cons.IH [OF g this] have d: "distinct (map e_id es1)"
    and sub: "\<And>i. i \<in> set (map e_id es1) \<Longrightarrow> ?from ?n i" by blast+
  have up: "?from (Suc n) i \<Longrightarrow> ?from n i" for i
    using Suc_leD by blast
  show ?case
  proof (cases ?new)
    case True
    have "\<not> ?from (Suc n) (sch_new sch n)"
      using Cons.prems(3) assms by (auto dest!: injD)
    then have "sch_new sch n \<notin> set (map e_id es1)"
      using sub [of "sch_new sch n"] True by (simp only: simp_thms if_True) blast
    moreover have "?from n i" if "i \<in> set (map e_id es1)" for i
      using sub [OF that] up True by simp
    ultimately show ?thesis using True d unfolding es' by auto
  next
    case False
    with Cons.prems(2) have ne: "e_id e \<noteq> []" by (auto simp: needs_id_def)
    have "\<not> ?from n (e_id e)"
      using Cons.prems(3,4) ne by (auto split: if_splits)
    then have "e_id e \<notin> set (map e_id es1)" using sub [of "e_id e"] False by (simp only: if_False) blast
    moreover have "?from n i" if "i \<in> set (map e_id es1)" for i
      using sub [OF that] False by simp
    ultimately show ?thesis using False d ne unfolding es' by auto
  qed
qed

text \<open>New entries without links of their own follow one another.\<close>

lemma link_chain:
  "list_all (\<lambda>e. created e \<and> e_parent e = [] \<and> e_id e \<noteq> []) es \<Longrightarrow> r [] = None \<Longrightarrow>
   map e_parent (link_ids r True False [] prev first es) = butlast (prev # map e_id es)"
  by (induction es arbitrary: prev first) auto

lemma scan_append:
  "scan_entries i sc (xs @ ys) = scan_entries (i + length xs) (scan_entries i sc xs) ys"
  by (induction xs arbitrary: i sc) (simp_all add: Let_def)

lemma scan_leaf_last:
  "es \<noteq> [] \<Longrightarrow> e_id (last es) \<noteq> [] \<Longrightarrow> sc_leaf (scan_session es) = Some (length es - 1)"
proof -
  assume "es \<noteq> []" and e: "e_id (last es) \<noteq> []"
  then obtain xs x where es: "es = xs @ [x]" by (metis append_butlast_last_id)
  with e show ?thesis by (simp add: scan_session_def scan_append Let_def)
qed

lemma scan_lookup:
  assumes "distinct (map e_id es)" "i < length es" "e_id (es ! i) \<noteq> []"
  shows "sc_by_id (scan_session es) (e_id (es ! i)) = Some i"
proof (cases "sc_by_id (scan_session es) (e_id (es ! i))")
  case None
  with assms(2,3) show ?thesis by (auto simp: scan_session_def scan_by_id_None)
next
  case (Some j)
  with scan_names [of es] have "j < length es" "e_id (es ! j) = e_id (es ! i)" by (auto simp: names_entries_def)
  with assms(1,2) have "j = i" by (metis distinct_conv_nth length_map nth_map)
  with Some show ?thesis by simp
qed

lemma chain_of_list:
  assumes "distinct (map e_id es)" "[] \<notin> set (map e_id es)" "map e_parent es = butlast ([] # map e_id es)"
    and "i < length es" "\<forall>j \<le> i. e_id (es ! j) \<notin> set seen"
  shows "chain_from es (sc_by_id (scan_session es)) seen i = rev [0..<Suc i]"
  using assms(4,5)
proof (induction i arbitrary: seen)
  case 0
  have "e_parent (es ! 0) = []"
    using arg_cong [OF assms(3), of "\<lambda>l. l ! 0"] 0 by (cases es) auto
  with 0 show ?case by (simp add: chain_step)
next
  case (Suc i)
  have p: "e_parent (es ! Suc i) = e_id (es ! i)"
    using arg_cong [OF assms(3), of "\<lambda>l. l ! Suc i"] Suc.prems(1) by (cases "es = []") (simp_all add: nth_butlast)
  have ne: "e_id (es ! i) \<noteq> []" using assms(2) Suc.prems(1) by (metis Suc_lessD length_map nth_map nth_mem)
  have "\<forall>j \<le> i. e_id (es ! j) \<noteq> e_id (es ! Suc i)"
  proof (intro allI impI)
    fix j
    assume "j \<le> i"
    then have "map e_id es ! j \<noteq> map e_id es ! Suc i"
      using Suc.prems(1) by (subst nth_eq_iff_index_eq [OF assms(1)]) simp_all
    with \<open>j \<le> i\<close> Suc.prems(1) show "e_id (es ! j) \<noteq> e_id (es ! Suc i)" by simp
  qed
  then have "chain_from es (sc_by_id (scan_session es)) (e_id (es ! Suc i) # seen) i = rev [0..<Suc i]"
    using Suc.prems by (intro Suc.IH) auto
  with Suc.prems ne show ?case
    using scan_lookup [OF assms(1), of i] by (simp add: chain_step p)
qed

lemma branch_of_chain:
  assumes "\<not> s_restart s" "s_leaf s = []" "distinct (map e_id (s_entries s))" "[] \<notin> set (map e_id (s_entries s))"
    and "map e_parent (s_entries s) = butlast ([] # map e_id (s_entries s))"
  shows "branch s = [0..<length (s_entries s)]"
proof (cases "\<forall>e \<in> set (s_entries s). e_parent e = []")
  case True
  with branch_list assms(1) show ?thesis by blast
next
  case False
  let ?es = "s_entries s"
  from False have ne: "?es \<noteq> []" by auto
  have "sc_by_id (scan_session ?es) [] = None" 
  proof (cases "sc_by_id (scan_session ?es) []")
    case (Some j)
    with scan_names [of ?es] show ?thesis unfolding names_entries_def by blast
  qed
  moreover have "e_id (last ?es) \<noteq> []" using assms(4) ne by (metis last_in_set last_map list.map_disc_iff)
  ultimately have "leaf_of s = Some (length ?es - 1)"
    using scan_leaf_last [OF ne] assms(2) by (simp add: leaf_of_def)
  then have "branch s = rev (chain_from ?es (sc_by_id (scan_session ?es)) [] (length ?es - 1))"
    using False assms(1) by (intro branch_tree) (simp_all add: scan_tree)
  also have "\<dots> = [0..<length ?es]"
    using chain_of_list [OF assms(3-5), of "length ?es - 1" "[]"] ne by (cases "length ?es") auto
  finally show ?thesis .
qed

section \<open>Facts: reading and writing\<close>

text \<open>
  What the engine's documentation asks of a codec: a callback may fill fields of the session, and
  leaves its entries' rows and the agent it belongs to alone; readying a session for writing may add
  entries, but not to one whose entries all have their row.
\<close>

definition keeps_rows :: "'v session \<Rightarrow> 'v session \<Rightarrow> bool" where
  "keeps_rows s s' \<longleftrightarrow> map e_raw (s_entries s') = map e_raw (s_entries s) \<and> s_agent s' = s_agent s"

definition codec_ok :: "'v jsonl \<Rightarrow> bool" where
  "codec_ok cfg \<longleftrightarrow>
     (\<forall>f row s b s'. j_header cfg = Some f \<longrightarrow> f row s = Inr (b, s') \<longrightarrow> keeps_rows s s')
   \<and> (\<forall>row s d s'. j_decode cfg row s = Inr (d, s') \<longrightarrow> keeps_rows s s')
   \<and> (\<forall>f s s'. j_finish cfg = Some f \<longrightarrow> f s = Inr s' \<longrightarrow> keeps_rows s s')
   \<and> (\<forall>f s s'. j_prepare cfg = Some f \<longrightarrow> list_all (\<lambda>e. e_raw e \<noteq> None) (s_entries s) \<longrightarrow> f s = Inr s' \<longrightarrow> keeps_rows s s')"

definition row_list :: "string list \<Rightarrow> string list" where
  "row_list ls = filter (\<lambda>r. r \<noteq> []) (map trim_space ls)"

definition appended :: "'v session \<Rightarrow> string list \<Rightarrow> 'v session \<Rightarrow> bool" where
  "appended s rows s' \<longleftrightarrow>
     map e_raw (s_entries s') = map e_raw (s_entries s) @ map Some rows \<and> s_agent s' = s_agent s"

lemma appended_Cons:
  assumes "keeps_rows s s1" "e_raw e = Some row" "appended (add_entry s1 e) rows s'"
  shows "appended s (row # rows) s'"
  using assms by (simp add: appended_def keeps_rows_def add_entry_def)

lemma keeps_rows_refl [simp]: "keeps_rows s s"
  by (simp add: keeps_rows_def)

lemma decode_rows_raws:
  assumes "codec_ok cfg"
  shows "decode_rows cfg first s ls = Inr s' \<Longrightarrow> appended s (row_list ls) s'"
proof (induction ls arbitrary: first s)
  case Nil
  then show ?case by (simp add: appended_def row_list_def)
next
  case (Cons l ls)
  let ?row = "trim_space l"
  let ?entry = "\<lambda>d. case d of None \<Rightarrow> opaque_row ?row | Some e \<Rightarrow> set_raw (Some ?row) e"
  have raw: "e_raw (opaque_row ?row) = Some ?row" "e_raw (?entry d) = Some ?row" for d
    by (auto simp: opaque_row_def split: option.splits)
  have dec: "appended s (?row # row_list ls) s'"
    if "keeps_rows s s1" "j_decode cfg ?row s1 = Inr (d, s2)" "decode_rows cfg False (add_entry s2 (?entry d)) ls = Inr s'" for s1 s2 d
  proof -
    have "keeps_rows s1 s2" using assms that(2) unfolding codec_ok_def by blast
    with that(1) have "keeps_rows s s2" by (simp add: keeps_rows_def)
    from appended_Cons [OF this raw(2) Cons.IH [OF that(3)]] show ?thesis .
  qed
  show ?case
  proof (cases "?row = []")
    case True
    with Cons show ?thesis by (simp add: row_list_def)
  next
    case row: False
    then have rl: "row_list (l # ls) = ?row # row_list ls" by (simp add: row_list_def)
    show ?thesis
    proof (cases "json_valid ?row")
      case False
      with Cons.prems row have "decode_rows cfg first (add_entry s (opaque_row ?row)) ls = Inr s'" by (simp add: Let_def)
      from appended_Cons [OF keeps_rows_refl raw(1) Cons.IH [OF this]] show ?thesis unfolding rl .
    next
      case valid: True
      show ?thesis
      proof (cases "if first then j_header cfg else None")
        case None
        with Cons.prems row valid obtain d s2 where
          "j_decode cfg ?row s = Inr (d, s2)" "decode_rows cfg False (add_entry s2 (?entry d)) ls = Inr s'"
          by (auto simp: Let_def split: sum.splits prod.splits)
        with dec [OF keeps_rows_refl] show ?thesis unfolding rl by blast
      next
        case (Some f)
        with Cons.prems row valid obtain b s1 where f: "f ?row s = Inr (b, s1)"
          by (auto simp: Let_def split: sum.splits prod.splits)
        from Some have "j_header cfg = Some f" by (auto split: if_splits)
        with assms f have k: "keeps_rows s s1" unfolding codec_ok_def by blast
        show ?thesis
        proof (cases b)
          case True
          with Cons.prems row valid Some f have "decode_rows cfg False (add_entry s1 (opaque_row ?row)) ls = Inr s'"
            by (simp add: Let_def)
          from appended_Cons [OF k raw(1) Cons.IH [OF this]] show ?thesis unfolding rl .
        next
          case False
          with Cons.prems row valid Some f obtain d s2 where
            "j_decode cfg ?row s1 = Inr (d, s2)" "decode_rows cfg False (add_entry s2 (?entry d)) ls = Inr s'"
            by (auto simp: Let_def split: sum.splits prod.splits)
          with dec [OF k] show ?thesis unfolding rl by blast
        qed
      qed
    qed
  qed
qed

lemma set_created_keeps: "s_entries (set_created s) = s_entries s" "s_agent (set_created s) = s_agent s"
  by (auto simp: set_created_def split: option.splits)

lemma read_session_rows:
  assumes "codec_ok cfg" "read_session cfg i mtime data = Inr s"
  shows "map e_raw (s_entries s) = map Some (row_list (fst (scan_lines data))) \<and> \<not> snd (scan_lines data)
    \<and> s_agent s = j_agent cfg"
proof -
  obtain ls long where sl: "scan_lines data = (ls, long)" by fastforce
  let ?s0 = "new_session i (j_agent cfg) mtime"
  from assms(2) sl obtain s1 where d: "decode_rows cfg True ?s0 ls = Inr s1" "\<not> long"
    and f: "(case j_finish cfg of None \<Rightarrow> Inr (set_created s1)
      | Some finish \<Rightarrow> (case finish (set_created s1) of Inl e \<Rightarrow> Inl (''transcript: '' @ i @ '': '' @ e) | Inr s \<Rightarrow> Inr s)) = Inr s"
    by (auto simp: read_session_def decode_all_def result_bind_Inr split: if_splits)
  have "keeps_rows (set_created s1) s"
  proof (cases "j_finish cfg")
    case None
    with f show ?thesis by simp
  next
    case (Some g)
    with f have "g (set_created s1) = Inr s" by (simp split: sum.splits)
    with Some assms(1) show ?thesis unfolding codec_ok_def by blast
  qed
  with decode_rows_raws [OF assms(1) d(1)] d(2) sl show ?thesis
    by (simp add: keeps_rows_def appended_def set_created_keeps new_session_def)
qed

lemma write_rows_own:
  "map e_raw es = map Some rows \<Longrightarrow> [] \<notin> set rows \<Longrightarrow>
   write_rows encode s Map.empty buf es = Some (Inr (buf @ concat (map line rows)))"
proof (induction es arbitrary: rows buf)
  case Nil
  then show ?case by simp
next
  case (Cons e es)
  then obtain row rows' where r: "rows = row # rows'" "e_raw e = Some row" "row \<noteq> []" by (cases rows) auto
  have "resolve Map.empty p = Some p" for p by (subst resolve.simps) simp
  with Cons r show ?case by (simp add: Let_def)
qed

lemma file_lines_rows:
  "list_all (\<lambda>r. CHR 0x0A \<notin> set r) rows \<Longrightarrow> file_lines (concat (map line rows)) = rows"
proof -
  have "split_on (CHR 0x0A) (concat (map line rows)) = rows @ [[]]" if "list_all (\<lambda>r. CHR 0x0A \<notin> set r) rows"
    using that by (induction rows) (simp_all add: line_def split_on_append_sep)
  then show "list_all (\<lambda>r. CHR 0x0A \<notin> set r) rows \<Longrightarrow> ?thesis" by (simp add: file_lines_def)
qed

text \<open>A row as the engine stores it: one line, not blank, without blanks around it.\<close>

definition stored_row :: "string \<Rightarrow> bool" where
  "stored_row r \<longleftrightarrow> r \<noteq> [] \<and> trim_space r = r \<and> CHR 0x0A \<notin> set r \<and> length r < max_line"

lemma scan_lines_rows:
  "list_all stored_row rows \<Longrightarrow> scan_lines (concat (map line rows)) = (rows, False) \<and> row_list rows = rows"
proof -
  assume r: "list_all stored_row rows"
  then have "file_lines (concat (map line rows)) = rows"
    by (intro file_lines_rows) (simp add: list_all_iff stored_row_def)
  moreover have "takeWhile (\<lambda>l. length l < max_line) rows = rows"
    using r by (simp add: takeWhile_eq_all_conv list_all_iff stored_row_def)
  moreover have "row_list rows = rows"
    using r by (induction rows) (simp_all add: row_list_def stored_row_def)
  ultimately show ?thesis unfolding scan_lines_def Let_def by (simp only: less_irrefl)
qed

text \<open>The contract, and what the engine does with a codec that keeps it.\<close>

locale row_keeper =
  fixes cfg :: "'v jsonl"
  assumes keeps: "codec_ok cfg"
begin

lemma own_bytes:
  assumes "j_encode cfg = Some encode" "rows \<noteq> []" "list_all stored_row rows"
    and "read_session cfg i mtime (concat (map line rows)) = Inr s"
  shows "case write_session h cfg fresh now n s of
      None \<Rightarrow> False
    | Some (Inl e) \<Rightarrow> \<exists>prepare. j_prepare cfg = Some prepare \<and> prepare s = Inl e
    | Some (Inr (_, bytes)) \<Rightarrow> bytes = concat (map line rows)"
proof -
  from read_session_rows [OF keeps assms(4)] scan_lines_rows [OF assms(3)]
  have r: "map e_raw (s_entries s) = map Some rows" and a: "s_agent s = j_agent cfg" by simp_all
  have raws: "list_all (\<lambda>e. e_raw e \<noteq> None) (s_entries s)"
    using arg_cong [OF r, of set] by (auto simp: list_all_iff)
  have t: "take_session h cfg s = s" using a by (simp add: take_session_def)
  show ?thesis
  proof (cases "case j_prepare cfg of None \<Rightarrow> Inr s | Some prepare \<Rightarrow> prepare s")
    case (Inl e)
    then show ?thesis using t assms(1) by (auto simp: write_session_def split: option.splits)
  next
    case (Inr s1)
    have "keeps_rows s s1"
      using Inr raws keeps unfolding codec_ok_def by (cases "j_prepare cfg") (simp, metis option.simps(5))
    then have r1: "map e_raw (s_entries (stamp fresh now s1)) = map Some rows"
      using r by (simp add: keeps_rows_def stamp_def Let_def)
    have "\<not> created e" if "e \<in> set (s_entries (stamp fresh now s1))" for e
      using arg_cong [OF r1, of set] that by (auto simp: created_def)
    then have as: "assign_ids (j_ids cfg) (j_tree cfg) n (stamp fresh now s1) = (n, stamp fresh now s1)"
      by (intro assign_ids_old) (simp add: list_all_iff)
    have "s_entries s1 \<noteq> []" "e_raw (hd (s_entries s1)) \<noteq> None"
      using r1 assms(2) by (cases rows; cases "s_entries s1"; auto simp: stamp_def Let_def split: if_splits)+
    then have nf: "\<not> is_foreign s1" by (simp add: is_foreign_def)
    have "[] \<notin> set rows" using assms(3) by (auto simp: list_all_iff stored_row_def)
    from write_rows_own [OF r1 this, of encode "stamp fresh now s1" "[]"]
    show ?thesis using assms(1) t Inr as nf by (simp add: write_session_def Let_def)
  qed
qed

end

lemma resolve_stops: "dropped p = None \<Longrightarrow> resolve dropped p = Some p"
  by (subst resolve.simps) simp

lemma resolve_result:
  assumes "resolve dropped p = Some q"
  shows "dropped q = None"
proof (rule resolve.raw_induct [where P = "\<lambda>d p q. d q = None", OF _ assms])
  fix f d p q
  assume "\<And>d p q. f d p = Some q \<Longrightarrow> d q = None" "(case d p of None \<Rightarrow> Some p | Some r \<Rightarrow> f d r) = Some q"
  then show "d q = None" by (auto split: option.splits)
qed


text \<open>When every parent comes before its children, the loop takes one step at most.\<close>

fun parents_first :: "entry list \<Rightarrow> bool" where
  "parents_first [] = True"
| "parents_first (e # es) \<longleftrightarrow>
     (e_id e = [] \<or> e_id e \<noteq> e_parent e) \<and>
     list_all (\<lambda>e'. e_id e' = [] \<or> (e_id e' \<noteq> e_parent e \<and> e_id e' \<noteq> e_id e)) es \<and> parents_first es"

definition flat :: "(string \<rightharpoonup> string) \<Rightarrow> entry list \<Rightarrow> bool" where
  "flat dropped es \<longleftrightarrow>
     (\<forall>k p. dropped k = Some p \<longrightarrow> dropped p = None \<and> list_all (\<lambda>e. e_id e = [] \<or> (e_id e \<noteq> p \<and> e_id e \<noteq> k)) es)"

lemma flat_resolve:
  assumes "flat dropped es"
  shows "\<exists>p'. resolve dropped p = Some p' \<and> dropped p' = None \<and> (p' = p \<or> dropped p = Some p')"
proof (cases "dropped p")
  case None
  then show ?thesis using resolve_stops by blast
next
  case (Some q)
  with assms have "dropped q = None" by (simp add: flat_def)
  with Some show ?thesis by (subst resolve.simps) (simp add: resolve_stops)
qed

lemma write_rows_returns:
  "flat dropped es \<Longrightarrow> parents_first es \<Longrightarrow> \<exists>r. write_rows encode s dropped buf es = Some r"
proof (induction es arbitrary: dropped buf)
  case Nil
  then show ?case by simp
next
  case (Cons e es)
  from flat_resolve [OF Cons.prems(1), of "e_parent e"] obtain p where
    p: "resolve dropped (e_parent e) = Some p" "dropped p = None" "p = e_parent e \<or> dropped (e_parent e) = Some p" by blast
  have f: "flat dropped es" using Cons.prems(1) by (auto simp: flat_def list_all_iff)
  have f': "flat (dropped(e_id e \<mapsto> p)) es" if "e_id e \<noteq> []"
  proof -
    have ne: "p \<noteq> e_id e"
      using p(3) Cons.prems that by (auto simp: flat_def)
    have later: "list_all (\<lambda>e'. e_id e' = [] \<or> (e_id e' \<noteq> p \<and> e_id e' \<noteq> e_id e)) es"
      using p(3) Cons.prems by (fastforce simp: flat_def list_all_iff)
    have "k \<noteq> e_id e \<Longrightarrow> dropped k = Some q \<Longrightarrow> q \<noteq> e_id e" for k q
      using Cons.prems(1) that by (auto simp: flat_def)
    with f p(2) ne later show ?thesis by (auto simp: flat_def)
  qed
  have pf: "parents_first es" using Cons.prems(2) by simp
  have next_ok: "\<exists>r. write_rows encode s (if e_raw e = None \<and> e_id e \<noteq> [] then dropped(e_id e \<mapsto> p) else dropped) buf es = Some r" for buf
    using Cons.IH [OF f pf] Cons.IH [of "dropped(e_id e \<mapsto> p)", OF f' pf] by (cases "e_id e = []") (simp_all del: fun_upd_apply)
  show ?case
  proof (cases "case e_raw e of Some row \<Rightarrow> Inr row | None \<Rightarrow> encode (set_parent p e) s")
    case (Inl err)
    then show ?thesis by (simp add: p(1) Let_def)
  next
    case (Inr row)
    show ?thesis
    proof (cases "row = []")
      case True
      with Inr have "write_rows encode s dropped buf (e # es)
          = write_rows encode s (if e_raw e = None \<and> e_id e \<noteq> [] then dropped(e_id e \<mapsto> p) else dropped) buf es"
        by (simp add: p(1) Let_def)
      with next_ok [of buf] show ?thesis by (simp only:)
    next
      case False
      with Inr Cons.IH [OF f pf] show ?thesis by (simp add: p(1) Let_def)
    qed
  qed
qed

section \<open>Properties\<close>

text \<open>C16. A session written back to its own agent is byte for byte the file it was read from: for any
  codec that leaves rows alone and any file of stored rows, valid JSON or not, what the codec
  understood of them does not matter; the write returns, fails only where the codec's own check of
  the session fails, and otherwise hands over exactly the file's bytes.\<close>

theorem own_session_bytes:
  assumes "codec_ok cfg" "j_encode cfg = Some encode" "rows \<noteq> []" "list_all stored_row rows"
    and "read_session cfg i mtime (concat (map line rows)) = Inr s"
  shows "case write_session h cfg fresh now n s of
      None \<Rightarrow> False
    | Some (Inl e) \<Rightarrow> \<exists>prepare. j_prepare cfg = Some prepare \<and> prepare s = Inl e
    | Some (Inr (_, bytes)) \<Rightarrow> bytes = concat (map line rows)"
  using row_keeper.own_bytes [OF row_keeper.intro [OF assms(1)] assms(2-5)] .

definition plain_codec :: "unit jsonl" where
  "plain_codec =
     \<lparr>j_agent = ''a'', j_caps = \<lparr>wc_compaction = False, wc_user_only = False, wc_files = False\<rparr>,
      j_header = None, j_decode = (\<lambda>row s. Inr (None, s)), j_finish = None,
      j_encode = Some (\<lambda>e s. Inr ''{}''), j_write_header = None, j_prepare = None, j_tree = True,
      j_ids = \<lparr>sch_new = (\<lambda>k. show_nat k), sch_valid = None\<rparr>\<rparr>"

lemma plain_codec_ok: "codec_ok plain_codec"
  by (simp add: codec_ok_def plain_codec_def)

lemma braces_row: "stored_row ''{}''"
proof -
  have "\<forall>w \<in> set space_forms. \<not> has_prefix ''{}'' w" "\<forall>w \<in> set space_forms. \<not> has_suffix ''{}'' w"
    by (simp_all add: space_forms_def upt_rec has_prefix_def has_suffix_def)
  then show ?thesis
    by (simp add: stored_row_def trim_space_def trim_left_id trim_right_id max_line_def)
qed

lemma braces_read:
  "\<exists>s. read_session plain_codec ''s'' 1 (concat (map line [''{}''])) = Inr s"
proof -
  have "decode_rows plain_codec f s [''{}''] = Inr (add_entry s (opaque_row ''{}''))" for f s
    using braces_row by (cases f) (simp_all add: stored_row_def plain_codec_def Let_def)
  then show ?thesis
    using scan_lines_rows [of "[''{}'']"] braces_row
    by (simp add: read_session_def decode_all_def plain_codec_def)
qed

theorem own_session_bytes_witness:
  "\<exists>s i. read_session plain_codec ''s'' 1 (concat (map line [''{}''])) = Inr s
     \<and> write_session \<lparr>h_file_url = \<lambda>_. None, h_read = \<lambda>_. None, h_mime = \<lambda>_. []\<rparr> plain_codec ''f'' 2 0 s
         = Some (Inr (i, concat (map line [''{}''])))"
proof -
  let ?h = "\<lparr>h_file_url = \<lambda>_. None, h_read = \<lambda>_. None, h_mime = \<lambda>_. []\<rparr>"
  obtain s where s: "read_session plain_codec ''s'' 1 (concat (map line [''{}''])) = Inr s"
    using braces_read by blast
  have e: "j_encode plain_codec = Some (\<lambda>e s. Inr ''{}'')" "j_prepare plain_codec = None"
    by (simp_all add: plain_codec_def)
  have "case write_session ?h plain_codec ''f'' 2 0 s of
      None \<Rightarrow> False
    | Some (Inl e) \<Rightarrow> \<exists>prepare. j_prepare plain_codec = Some prepare \<and> prepare s = Inl e
    | Some (Inr (_, bytes)) \<Rightarrow> bytes = concat (map line [''{}''])"
    by (rule own_session_bytes [OF plain_codec_ok e(1) _ _ s]) (simp_all add: braces_row)
  then obtain i where "write_session ?h plain_codec ''f'' 2 0 s = Some (Inr (i, concat (map line [''{}''])))"
    using e(2) by (auto split: option.splits sum.splits)
  with s show ?thesis by blast
qed

text \<open>C19. New entries written to an agent that keeps a tree are one conversation for it: every entry
  gets an id the agent's scheme accepts, no two share one, each is linked to the entry before it, and
  the active branch of the result is the whole list in order.\<close>

theorem written_tree_is_one_branch:
  assumes "scheme_ok sch" "inj (sch_new sch)" "\<forall>k. sch_new sch k \<notin> set (map e_id (s_entries s))"
    and "distinct (filter (\<lambda>i. i \<noteq> []) (map e_id (s_entries s)))"
    and "list_all (\<lambda>e. created e \<and> e_parent e = []) (s_entries s)" "\<not> s_restart s" "s_leaf s = []"
    and "assign_ids sch True n s = (n', s')"
  shows "branch s' = [0..<length (s_entries s)] \<and> distinct (map e_id (s_entries s'))
    \<and> list_all (\<lambda>e. \<not> needs_id sch e) (s_entries s')
    \<and> map e_parent (s_entries s') = butlast ([] # map e_id (s_entries s'))"
proof -
  obtain r es where g: "give_ids sch n Map.empty (s_entries s) = (n', r, es)"
    and s': "s' = s\<lparr>s_entries := link_ids r True (s_restart s) (s_leaf s) [] True (map (follow_keep r) es)\<rparr>"
    using assms(8) by (auto simp: assign_ids_def split: prod.splits)
  let ?l = "link_ids r True False [] [] True (map (follow_keep r) es)"
  have out: "s_entries s' = ?l" using s' assms(6,7) by simp
  note o = give_ids_other [OF g]
  have cr: "list_all created es" using o assms(5) by (auto simp: list_all_length) (metis length_map nth_map)
  have par: "list_all (\<lambda>e. e_parent e = []) es" using o assms(5) by (auto simp: list_all_length) (metis length_map nth_map)
  have ok: "list_all (\<lambda>e. \<not> needs_id sch e) es"
    using give_ids_ok [OF assms(1) g] cr by (simp add: list_all_iff)
  then have ne: "list_all (\<lambda>e. e_id e \<noteq> []) es" by (simp add: list_all_iff needs_id_def)
  have r: "r [] = None" by (rule give_ids_remap [OF g]) simp
  have cr0: "list_all created (s_entries s)" using assms(5) by (simp add: list_all_iff)
  have d: "distinct (map e_id es)"
    using give_ids_distinct [OF assms(2) g cr0 assms(3,4)] by blast
  have ids: "map e_id ?l = map e_id es" by (simp add: link_ids_sel o_def)
  have "list_all (\<lambda>e. created e \<and> e_parent e = [] \<and> e_id e \<noteq> []) (map (follow_keep r) es)"
    using cr par ne by (simp add: list_all_iff)
  then have chain: "map e_parent ?l = butlast ([] # map e_id ?l)"
    using link_chain [of "map (follow_keep r) es" r "[]" True] r ids by (simp add: o_def)
  have "[] \<notin> set (map e_id ?l)" unfolding ids using ne by (auto simp: list_all_iff)
  moreover have "length ?l = length (s_entries s)"
    using arg_cong [OF ids, of length] o by simp
  moreover have "list_all (\<lambda>e. \<not> needs_id sch e) ?l"
    unfolding list_all_length
  proof (intro allI impI)
    fix i
    assume "i < length ?l"
    then have "e_id (?l ! i) = e_id (es ! i)" "i < length es"
      using ids arg_cong [OF ids, of length] by (metis length_map nth_map)+
    with ok show "\<not> needs_id sch (?l ! i)" using needs_id_same unfolding list_all_length by blast
  qed
  ultimately show ?thesis
    using branch_of_chain [of s'] d ids chain out assms(6,7) s' by simp
qed

definition two_new :: "unit session" where
  "two_new = sample_session [sample_row ''x'' [], sample_row [] []] []"

theorem written_tree_is_one_branch_witness:
  "branch (snd (assign_ids \<lparr>sch_new = show_nat, sch_valid = None\<rparr> True 0 two_new)) = [0, 1]"
proof -
  let ?sch = "\<lparr>sch_new = show_nat, sch_valid = None\<rparr>"
  have x: "\<not> is_digit (CHR ''x'')" by (simp add: is_digit_def)
  have "\<forall>k. show_nat k \<notin> set (map e_id (s_entries two_new))"
    using show_nat_no_char [OF x] by (auto simp: two_new_def sample_session_def sample_row_def) (metis list.set_intros(1))
  moreover obtain n' s' where "assign_ids ?sch True 0 two_new = (n', s')" by fastforce
  ultimately show ?thesis
    using written_tree_is_one_branch [of ?sch two_new 0 n' s']
    by (simp add: scheme_ok_def inj_def two_new_def sample_session_def sample_row_def created_def upt_rec)
qed

text \<open>C36. Every id the store mints is one Claude-style agents accept: whatever the random bytes, it has
  the canonical 8-4-4-4-12 form.\<close>

theorem minted_uuid_accepted: "is_uuid (new_uuid rnd) \<and> new_uuid rnd \<noteq> []"
  using uuids.new_valid [of "\<lambda>_. rnd"] uuids.new_nonempty [of "\<lambda>_. rnd"] by simp

text \<open>A crash at any moment of a write leaves the session file as it was or complete: whatever
  steps the write had taken, the file holds its old contents or exactly the new bytes, and no file
  but it and its temporary one has changed.\<close>

theorem atomic_write:
  assumes "write_reaches path data fs fs'" "fs (tmp_of path) = None"
  shows "(fs' path = fs path \<or> fs' path = Some data) \<and> (\<forall>q. q \<noteq> path \<longrightarrow> q \<noteq> tmp_of path \<longrightarrow> fs' q = fs q)"
  using assms
proof (induction rule: write_reaches.induct)
  case start
  then show ?case by simp
next
  case (more fs' fs'')
  have "path \<noteq> tmp_of path" by (simp add: tmp_of_def)
  with more show ?case by (auto elim!: write_stepE)
qed

theorem atomic_write_witness:
  "\<exists>fs'. write_reaches ''f'' ''ab'' [''f'' \<mapsto> ''old''] fs' \<and> fs' ''f'' = Some ''ab''"
proof -
  let ?t = "tmp_of ''f''" and ?fs = "[''f'' \<mapsto> ''old'']"
  have ne: "''f'' \<noteq> ?t" by (simp add: tmp_of_def)
  have "write_reaches ''f'' ''ab'' ?fs (?fs(?t \<mapsto> []))"
    by (intro write_reaches.more [OF write_reaches.start] begin_tmp)
  then have "write_reaches ''f'' ''ab'' ?fs ((?fs(?t \<mapsto> []))(?t \<mapsto> take 2 ''ab''))"
    by (rule write_reaches.more) (rule grow_tmp [of _ _ 0], simp_all)
  then have r: "write_reaches ''f'' ''ab'' ?fs (((?fs(?t \<mapsto> []))(?t \<mapsto> take 2 ''ab''))(''f'' \<mapsto> ''ab'', ?t := None))"
    by (rule write_reaches.more) (rule rename, simp)
  from atomic_write [OF this] ne have "(((?fs(?t \<mapsto> []))(?t \<mapsto> take 2 ''ab''))(''f'' \<mapsto> ''ab'', ?t := None)) ''f'' = Some ''ab''"
    by simp
  with r show ?thesis by blast
qed

text \<open>C37. Writing returns when parents come before their children, as they do in every list the
  program builds, and whatever entries the codec has no row for; a parent it links to is then never
  one it left out.\<close>

theorem write_returns:
  assumes "parents_first es"
  shows "(\<exists>r. write_rows encode s Map.empty buf es = Some r)
    \<and> (\<forall>dropped p q. resolve dropped p = Some q \<longrightarrow> dropped q = None)"
proof -
  have "flat Map.empty es" by (simp add: flat_def)
  from write_rows_returns [OF this assms, of encode s buf] show ?thesis using resolve_result by blast
qed

theorem write_returns_witness:
  "\<exists>r. write_rows (\<lambda>e s. Inr []) two_new Map.empty [] [sample_row ''a'' [], sample_row ''b'' ''a''] = Some r"
  using write_returns [of "[sample_row ''a'' [], sample_row ''b'' ''a'']" "\<lambda>e s. Inr []" two_new "[]"]
  by (simp add: sample_row_def)


end
