(* ===== verification/Versions.thy ===== *)
theory Versions
  imports Strconv "HOL-Library.More_List"
begin

text \<open>
  Agent versions: reading and comparing them, ranges and features (\<open>harness/version.go\<close>), and the
  verdict on an installed version (\<open>harness/support.go\<close>), with the product names of
  \<open>harness/names.go\<close> they are shown under.

  A component that does not fit an \<open>int\<close> is read as the largest one, as \<open>Atoi\<close> does when its
  error is dropped.
\<close>

section \<open>Reading and comparing (version.go)\<close>

text \<open>The groups \<open>(?:\.\d+)\<close> a string starts with, as many as there are, and one match of the
  expression at the start of a string.\<close>

function dot_groups :: "string \<Rightarrow> string" where
  "dot_groups s =
     (case s of
        [] \<Rightarrow> []
      | c # r \<Rightarrow>
          if c = CHR ''.'' \<and> takeWhile is_digit r \<noteq> []
          then c # takeWhile is_digit r @ dot_groups (dropWhile is_digit r)
          else [])"
  by pat_completeness auto
termination
  by (relation "measure length") (auto simp: le_imp_less_Suc length_dropWhile_le)

declare dot_groups.simps [simp del]

definition version_at :: "string \<Rightarrow> string option" where
  "version_at s =
     (let ds = takeWhile is_digit s; gs = dot_groups (dropWhile is_digit s)
      in if ds \<noteq> [] \<and> gs \<noteq> [] then Some (ds @ gs) else None)"

fun parse_version :: "string \<Rightarrow> string" where
  "parse_version [] = []"
| "parse_version (c # s) =
     (case version_at (c # s) of Some v \<Rightarrow> v | None \<Rightarrow> parse_version s)"

text \<open>The numbers of a version, and the loop of \<open>CompareVersions\<close> over them.\<close>

definition components :: "string \<Rightarrow> int list" where
  "components v = map (\<lambda>p. fst (atoi p)) (split_on (CHR ''.'') v)"

fun compare_from :: "int list \<Rightarrow> int list \<Rightarrow> int" where
  "compare_from [] [] = 0"
| "compare_from (x # xs) [] = (if x \<noteq> 0 then (if x < 0 then -1 else 1) else compare_from xs [])"
| "compare_from [] (y # ys) = (if 0 \<noteq> y then (if 0 < y then -1 else 1) else compare_from [] ys)"
| "compare_from (x # xs) (y # ys) = (if x \<noteq> y then (if x < y then -1 else 1) else compare_from xs ys)"

definition compare_versions :: "string \<Rightarrow> string \<Rightarrow> int \<times> bool" where
  "compare_versions a b =
     (let pa = parse_version a; pb = parse_version b in
      if pa = [] \<or> pb = [] then (0, False)
      else (compare_from (components pa) (components pb), True))"

definition version_at_least :: "string \<Rightarrow> string \<Rightarrow> bool" where
  "version_at_least have_v min_v = (case compare_versions have_v min_v of (c, ok) \<Rightarrow> ok \<and> 0 \<le> c)"

record version_range =
  vr_from :: string
  vr_before :: string

definition range_contains :: "version_range \<Rightarrow> string \<Rightarrow> bool" where
  "range_contains r version =
     (if vr_from r = [] \<and> vr_before r = [] then True
      else if parse_version version = [] then False
      else if vr_from r \<noteq> [] \<and> \<not> version_at_least version (vr_from r) then False
      else if vr_before r \<noteq> [] \<and> version_at_least version (vr_before r) then False
      else True)"

section \<open>Verdicts (support.go)\<close>

record tested_versions =
  tv_min :: string
  tv_max :: string

record requirement =
  rq_version :: string
  rq_capability :: string

text \<open>The fields of a registry entry these files read.\<close>

record harness_entry =
  h_name :: string
  h_display_name :: string
  h_tested :: tested_versions
  h_requires :: requirement
  h_upgrade_cmd :: "string list"
  h_install_cmd :: "string list"
  h_features :: "(string \<times> version_range) list"

definition has_feature :: "harness_entry \<Rightarrow> string \<Rightarrow> string \<Rightarrow> bool" where
  "has_feature h feature version =
     (case map_of (h_features h) feature of None \<Rightarrow> True | Some r \<Rightarrow> range_contains r version)"

datatype support_level = Supported | NewerThanTested | OlderThanTested | OlderThanSupported | SupportUnknown

record support_verdict =
  sv_level :: support_level
  sv_reason :: string
  sv_version :: string
  sv_tested_min :: string
  sv_tested_max :: string
  sv_requires :: string
  sv_upgrade_cmd :: "string list"

definition upgrade_command :: "harness_entry \<Rightarrow> string list" where
  "upgrade_command h = (if h_upgrade_cmd h = [] then h_install_cmd h else h_upgrade_cmd h)"

definition range_text :: "tested_versions \<Rightarrow> string" where
  "range_text t = (if tv_min t = tv_max t then tv_min t else tv_min t @ '' to '' @ tv_max t)"

text \<open>The registry is a table from id to entry; \<open>Display\<close> is the product name of an id.\<close>

definition display :: "(string \<rightharpoonup> harness_entry) \<Rightarrow> string \<Rightarrow> string" where
  "display all i =
     (case all i of
        Some h \<Rightarrow> if h_display_name h \<noteq> [] then h_display_name h else i
      | None \<Rightarrow> i)"

definition harness_support :: "(string \<rightharpoonup> harness_entry) \<Rightarrow> harness_entry \<Rightarrow> string \<Rightarrow> support_verdict" where
  "harness_support all h version =
     (let product = (if h_display_name h \<noteq> [] then h_display_name h else display all (h_name h));
          v = parse_version version; t = h_tested h; q = h_requires h;
          verdict = (\<lambda>level reason.
            \<lparr>sv_level = level, sv_reason = reason, sv_version = v, sv_tested_min = tv_min t,
             sv_tested_max = tv_max t, sv_requires = rq_version q, sv_upgrade_cmd = upgrade_command h\<rparr>)
      in if v \<noteq> [] \<and> rq_version q \<noteq> [] \<and> \<not> version_at_least v (rq_version q) then
           verdict OlderThanSupported
             (product @ '' '' @ v @ '' has no '' @ rq_capability q @ '', added in '' @ rq_version q)
         else if tv_min t = [] \<or> tv_max t = [] then
           verdict SupportUnknown (''inference has not tested any version of '' @ product)
         else if v = [] then
           verdict SupportUnknown
             (''could not read which version of '' @ product @ '' is installed; inference has tested '' @ range_text t)
         else if \<not> version_at_least v (tv_min t) then
           verdict OlderThanTested
             (product @ '' '' @ v @ '' is older than the oldest version inference has tested ('' @ tv_min t @ ''); it may work'')
         else if \<not> version_at_least (tv_max t) v then
           verdict NewerThanTested
             (product @ '' '' @ v @ '' is newer than '' @ tv_max t @ '', the newest version inference has tested'')
         else
           verdict Supported
             (product @ '' '' @ v @ '' is a version inference has tested ('' @ range_text t @ '')''))"

definition support :: "(string \<rightharpoonup> harness_entry) \<Rightarrow> string \<Rightarrow> string \<Rightarrow> support_verdict" where
  "support all name version =
     (case all name of
        None \<Rightarrow>
          \<lparr>sv_level = SupportUnknown, sv_reason = name @ '' is not an agent inference knows'',
           sv_version = parse_version version, sv_tested_min = [], sv_tested_max = [], sv_requires = [],
           sv_upgrade_cmd = []\<rparr>
      | Some h \<Rightarrow> harness_support all h version)"

section \<open>The order\<close>

text \<open>Two lists of components, read as if both went on with zeros for ever.\<close>

definition precedes :: "int list \<Rightarrow> int list \<Rightarrow> bool" where
  "precedes xs ys \<longleftrightarrow>
     (\<exists>i. nth_default 0 xs i < nth_default 0 ys i \<and> (\<forall>j < i. nth_default 0 xs j = nth_default 0 ys j))"

definition agree :: "int list \<Rightarrow> int list \<Rightarrow> bool" where
  "agree xs ys \<longleftrightarrow> (\<forall>i. nth_default 0 xs i = nth_default 0 ys i)"

lemma precedes_Cons:
  "precedes xs ys \<longleftrightarrow>
     nth_default 0 xs 0 < nth_default 0 ys 0 \<or>
     (nth_default 0 xs 0 = nth_default 0 ys 0 \<and> precedes (tl xs) (tl ys))"
proof -
  have t: "nth_default 0 (tl zs) j = nth_default 0 zs (Suc j)" for zs :: "int list" and j
    by (cases zs) simp_all
  show ?thesis
  proof
    assume "precedes xs ys"
    then obtain i where i: "nth_default 0 xs i < nth_default 0 ys i"
      "\<And>j. j < i \<Longrightarrow> nth_default 0 xs j = nth_default 0 ys j" by (auto simp: precedes_def)
    show "nth_default 0 xs 0 < nth_default 0 ys 0 \<or>
       (nth_default 0 xs 0 = nth_default 0 ys 0 \<and> precedes (tl xs) (tl ys))"
    proof (cases i)
      case 0
      with i show ?thesis by simp
    next
      case (Suc k)
      with i have "precedes (tl xs) (tl ys)" unfolding precedes_def t by (intro exI [of _ k]) simp
      with i(2) [of 0] Suc show ?thesis by simp
    qed
  next
    assume "nth_default 0 xs 0 < nth_default 0 ys 0 \<or>
       (nth_default 0 xs 0 = nth_default 0 ys 0 \<and> precedes (tl xs) (tl ys))"
    then show "precedes xs ys"
    proof
      assume "nth_default 0 xs 0 < nth_default 0 ys 0"
      then show ?thesis unfolding precedes_def by (intro exI [of _ 0]) simp
    next
      assume h: "nth_default 0 xs 0 = nth_default 0 ys 0 \<and> precedes (tl xs) (tl ys)"
      then obtain i where "nth_default 0 xs (Suc i) < nth_default 0 ys (Suc i)"
        "\<forall>j < i. nth_default 0 xs (Suc j) = nth_default 0 ys (Suc j)" by (auto simp: precedes_def t)
      with h have "\<forall>j < Suc i. nth_default 0 xs j = nth_default 0 ys j" by (auto simp: less_Suc_eq_0_disj)
      with \<open>nth_default 0 xs (Suc i) < nth_default 0 ys (Suc i)\<close> show ?thesis unfolding precedes_def by blast
    qed
  qed
qed

lemma agree_Cons:
  "agree xs ys \<longleftrightarrow> nth_default 0 xs 0 = nth_default 0 ys 0 \<and> agree (tl xs) (tl ys)"
proof -
  have t: "nth_default 0 (tl zs) j = nth_default 0 zs (Suc j)" for zs :: "int list" and j
    by (cases zs) simp_all
  show ?thesis unfolding agree_def t by (metis not0_implies_Suc)
qed

lemma precedes_irrefl: "\<not> precedes xs xs"
  by (simp add: precedes_def)

lemma compare_from_order:
  "(compare_from xs ys = -1 \<longleftrightarrow> precedes xs ys) \<and> (compare_from xs ys = 1 \<longleftrightarrow> precedes ys xs)
   \<and> (compare_from xs ys = 0 \<longleftrightarrow> agree xs ys)"
proof (induction xs ys rule: compare_from.induct)
  case 1
  then show ?case by (simp add: precedes_irrefl agree_def)
next
  case (2 x xs)
  then show ?case by (subst (1 2) precedes_Cons, subst agree_Cons) auto
next
  case (3 y ys)
  then show ?case by (subst (1 2) precedes_Cons, subst agree_Cons) auto
next
  case (4 x xs y ys)
  then show ?case by (subst (1 2) precedes_Cons, subst agree_Cons) auto
qed

lemma compare_from_range: "compare_from xs ys \<in> {-1, 0, 1}"
  by (induction xs ys rule: compare_from.induct) auto

lemma precedes_agree_trans:
  "precedes xs ys \<or> agree xs ys \<Longrightarrow> precedes ys zs \<or> agree ys zs \<Longrightarrow> precedes xs zs \<or> agree xs zs"
proof -
  assume a: "precedes xs ys \<or> agree xs ys" "precedes ys zs \<or> agree ys zs"
  show ?thesis
  proof (cases "precedes xs ys \<and> precedes ys zs")
    case True
    then obtain i k where i: "nth_default 0 xs i < nth_default 0 ys i"
      "\<forall>j < i. nth_default 0 xs j = nth_default 0 ys j"
      and k: "nth_default 0 ys k < nth_default 0 zs k" "\<forall>j < k. nth_default 0 ys j = nth_default 0 zs j"
      unfolding precedes_def by blast
    have "nth_default 0 xs (min i k) < nth_default 0 zs (min i k)"
    proof (cases i k rule: linorder_cases)
      case less
      with i(1) k(2) show ?thesis by simp
    next
      case equal
      with i(1) k(1) show ?thesis by simp
    next
      case greater
      with i(2) k(1) show ?thesis by simp
    qed
    moreover have "\<forall>j < min i k. nth_default 0 xs j = nth_default 0 zs j" using i(2) k(2) by simp
    ultimately show ?thesis unfolding precedes_def by blast
  next
    case False
    then show ?thesis using a by (auto simp: precedes_def agree_def)
  qed
qed

lemma compare_swap: "compare_from ys xs = - compare_from xs ys"
  by (induction xs ys rule: compare_from.induct) auto

text \<open>
  Versions as a type of the library's class of preorders: two of them may be equal as versions and
  differ as lists ("1.2" and "1.2.0").
\<close>

datatype version = Version (numbers: "int list")

instantiation version :: preorder
begin

definition less_eq_version :: "version \<Rightarrow> version \<Rightarrow> bool" where
  "less_eq_version a b \<longleftrightarrow> compare_from (numbers a) (numbers b) \<le> 0"

definition less_version :: "version \<Rightarrow> version \<Rightarrow> bool" where
  "less_version a b \<longleftrightarrow> compare_from (numbers a) (numbers b) < 0"

lemma le_precedes: "compare_from xs ys \<le> 0 \<longleftrightarrow> precedes xs ys \<or> agree xs ys"
  using compare_from_order [of xs ys] compare_from_range [of xs ys] by auto

lemma lt_precedes: "compare_from xs ys < 0 \<longleftrightarrow> precedes xs ys"
  using compare_from_order [of xs ys] compare_from_range [of xs ys] by auto

instance
proof
  fix a b c :: version
  let ?x = "numbers a" and ?y = "numbers b"
  show "a < b \<longleftrightarrow> a \<le> b \<and> \<not> b \<le> a"
    using compare_swap [of ?y ?x] by (auto simp: less_version_def less_eq_version_def)
  show "a \<le> a" by (simp add: less_eq_version_def le_precedes agree_def)
  show "a \<le> b \<Longrightarrow> b \<le> c \<Longrightarrow> a \<le> c"
    unfolding less_eq_version_def le_precedes by (rule precedes_agree_trans)
qed

end

definition version_of :: "string \<Rightarrow> version" where
  "version_of s = Version (components (parse_version s))"

definition readable :: "string \<Rightarrow> bool" where
  "readable s \<longleftrightarrow> parse_version s \<noteq> []"

lemma version_total: "(a :: version) \<le> b \<or> b < a"
  using compare_swap [of "numbers a" "numbers b"] by (auto simp: less_version_def less_eq_version_def)

lemma at_least_le:
  "version_at_least a b \<longleftrightarrow> readable a \<and> readable b \<and> version_of b \<le> version_of a"
  using compare_swap [of "components (parse_version a)" "components (parse_version b)"]
  by (auto simp: version_at_least_def compare_versions_def readable_def version_of_def less_eq_version_def Let_def)

section \<open>Reading a version back\<close>

lemma digits_then:
  "\<forall>c \<in> set d. is_digit c \<Longrightarrow> g = [] \<or> (\<exists>t. g = CHR ''.'' # t) \<Longrightarrow>
   takeWhile is_digit (d @ g) = d \<and> dropWhile is_digit (d @ g) = g"
  by (induction d) (auto simp: is_digit_def)

lemma dot_groups_stable: "dot_groups (dot_groups s) = dot_groups s \<and>
  (dot_groups s = [] \<or> (\<exists>t. dot_groups s = CHR ''.'' # t))"
proof (induction s rule: dot_groups.induct)
  case (1 s)
  show ?case
  proof (cases "\<exists>r. s = CHR ''.'' # r \<and> takeWhile is_digit r \<noteq> []")
    case False
    then have "dot_groups s = []" by (subst dot_groups.simps) (auto split: list.splits)
    then show ?thesis by (simp add: dot_groups.simps)
  next
    case True
    then obtain r where r: "s = CHR ''.'' # r" "takeWhile is_digit r \<noteq> []" by blast
    let ?d = "takeWhile is_digit r" and ?g = "dot_groups (dropWhile is_digit r)"
    have IH: "dot_groups ?g = ?g" "?g = [] \<or> (\<exists>t. ?g = CHR ''.'' # t)" using 1 [OF r(1)] r(2) by auto
    have s: "dot_groups s = CHR ''.'' # ?d @ ?g" using r by (subst dot_groups.simps) simp
    have d: "\<forall>c \<in> set ?d. is_digit c" by (auto dest: set_takeWhileD)
    from digits_then [OF d IH(2)] have "dot_groups (CHR ''.'' # ?d @ ?g) = CHR ''.'' # ?d @ dot_groups ?g"
      using r(2) by (subst dot_groups.simps) simp
    with s IH show ?thesis by simp
  qed
qed

lemma version_at_stable: "version_at s = Some v \<Longrightarrow> version_at v = Some v \<and> v \<noteq> []"
proof -
  assume v: "version_at s = Some v"
  let ?d = "takeWhile is_digit s" and ?g = "dot_groups (dropWhile is_digit s)"
  from v have e: "v = ?d @ ?g" "?d \<noteq> []" "?g \<noteq> []" by (auto simp: version_at_def Let_def split: if_splits)
  have st: "dot_groups ?g = ?g" "\<exists>t. ?g = CHR ''.'' # t" using dot_groups_stable [of "dropWhile is_digit s"] e(3) by auto
  have d: "\<forall>c \<in> set ?d. is_digit c" by (auto dest: set_takeWhileD)
  have "takeWhile is_digit v = ?d" "dropWhile is_digit v = ?g"
    using digits_then [OF d disjI2 [OF st(2)]] unfolding e(1) by blast+
  with st e show ?thesis by (simp add: version_at_def Let_def)
qed

lemma parse_version_stable: "parse_version (parse_version s) = parse_version s"
proof (induction s)
  case Nil
  then show ?case by simp
next
  case (Cons c s)
  show ?case
  proof (cases "version_at (c # s)")
    case None
    with Cons show ?thesis by simp
  next
    case (Some v)
    with version_at_stable obtain d w where "v = d # w" "version_at v = Some v" by (metis neq_Nil_conv)
    with Some show ?thesis by simp
  qed
qed

lemma parsed_same: "readable (parse_version s) = readable s" "version_of (parse_version s) = version_of s"
  by (simp_all add: readable_def version_of_def parse_version_stable)

section \<open>Properties\<close>

text \<open>C29. Comparing versions is comparing their numbers one by one, a missing one counting as zero:
  of two versions that can be read, the answer is -1, 1 or 0 as the first is before, after or the same
  in that order, comparing the other way around gives the opposite, and a version that cannot be read
  compares with nothing.\<close>

theorem compare_versions_order:
  "snd (compare_versions a b) = (readable a \<and> readable b)
   \<and> (if readable a \<and> readable b then
        (fst (compare_versions a b) = -1 \<longleftrightarrow> precedes (components (parse_version a)) (components (parse_version b)))
      \<and> (fst (compare_versions a b) = 0 \<longleftrightarrow> agree (components (parse_version a)) (components (parse_version b)))
      \<and> fst (compare_versions b a) = - fst (compare_versions a b)
      else compare_versions a b = (0, False))"
  using compare_from_order [of "components (parse_version a)" "components (parse_version b)"]
    compare_swap [of "components (parse_version b)" "components (parse_version a)"]
  by (auto simp: compare_versions_def readable_def Let_def)

text \<open>"At least" is a preorder on what an agent prints: transitive, and total on versions that can
  be read; and it sees only the version in the text, so testing the parsed version is testing the
  output it was parsed from.\<close>

theorem version_at_least_preorder:
  "(version_at_least a b \<longrightarrow> version_at_least b c \<longrightarrow> version_at_least a c)
   \<and> (readable a \<longrightarrow> readable b \<longrightarrow> version_at_least a b \<or> version_at_least b a)
   \<and> version_at_least (parse_version a) b = version_at_least a b"
  using order_trans [of "version_of c" "version_of b" "version_of a"]
    version_total [of "version_of a" "version_of b"] less_imp_le [of "version_of b" "version_of a"]
  by (auto simp: at_least_le parsed_same)

theorem version_at_least_preorder_witness:
  "version_at_least ''2.10'' ''2.9.1'' \<and> version_at_least ''v2.10 (x)'' ''2.9'' "
proof -
  have e: "version_at_least ''2.10'' ''2.9.1''" "version_at_least ''2.9.1'' ''2.9''"
    "version_at_least ''v2.10 (x)'' ''2.10''"
    by (simp_all add: version_at_least_def compare_versions_def version_at_def dot_groups.simps is_digit_def
        components_def atoi_def strip_sign_def read_nat_def digit_val_def max_int64_def min_int64_def Let_def)
  then show ?thesis
    using version_at_least_preorder [of "''v2.10 (x)''" "''2.10''" "''2.9''"]
      version_at_least_preorder [of "''2.10''" "''2.9.1''" "''2.9''"] by blast
qed

text \<open>A version range is an interval: a version between two versions it contains is in it, and a
  bounded range contains nothing that cannot be read.\<close>

theorem range_contains_interval:
  assumes "range_contains r a" "range_contains r c" "version_at_least b a" "version_at_least c b"
  shows "range_contains r b \<and> (vr_from r = [] \<and> vr_before r = [] \<or> readable a)"
proof -
  have up: "vr_from r \<noteq> [] \<Longrightarrow> version_at_least a (vr_from r) \<Longrightarrow> version_at_least b (vr_from r)"
    using assms(3) order_trans by (auto simp: at_least_le)
  have down: "version_at_least b (vr_before r) \<Longrightarrow> version_at_least c (vr_before r)"
    using assms(4) order_trans by (auto simp: at_least_le)
  have "readable b" using assms(3) by (simp add: at_least_le)
  then show ?thesis
    using assms(1,2) up down by (auto simp: range_contains_def readable_def split: if_splits)
qed

theorem range_contains_interval_witness:
  "range_contains \<lparr>vr_from = ''1.0'', vr_before = ''2.0''\<rparr> ''1.5''"
proof -
  note e = range_contains_def version_at_least_def compare_versions_def version_at_def dot_groups.simps is_digit_def
        components_def atoi_def strip_sign_def read_nat_def digit_val_def max_int64_def min_int64_def Let_def
  have "range_contains \<lparr>vr_from = ''1.0'', vr_before = ''2.0''\<rparr> ''1.0''"
    "range_contains \<lparr>vr_from = ''1.0'', vr_before = ''2.0''\<rparr> ''1.9''"
    "version_at_least ''1.5'' ''1.0''" "version_at_least ''1.9'' ''1.5''"
    by (simp_all add: e)
  from range_contains_interval [OF this] show ?thesis ..
qed

text \<open>The verdict on an installed version is exactly where it lies: below the required version it
  is refused whatever was tested; otherwise it is supported if and only if it can be read and lies
  within the tested versions, both ends included; and the command offered is never empty when the
  registry has any command.\<close>

theorem support_level:
  "(sv_level (harness_support all h v) = OlderThanSupported \<longleftrightarrow>
      readable v \<and> rq_version (h_requires h) \<noteq> [] \<and> \<not> version_at_least v (rq_version (h_requires h)))
   \<and> (sv_level (harness_support all h v) = Supported \<longleftrightarrow>
      sv_level (harness_support all h v) \<noteq> OlderThanSupported
      \<and> tv_min (h_tested h) \<noteq> [] \<and> tv_max (h_tested h) \<noteq> []
      \<and> readable v \<and> version_at_least v (tv_min (h_tested h)) \<and> version_at_least (tv_max (h_tested h)) v)
   \<and> (sv_upgrade_cmd (harness_support all h v) = [] \<longleftrightarrow> h_upgrade_cmd h = [] \<and> h_install_cmd h = [])"
proof -
  have "version_at_least (parse_version v) b = version_at_least v b" "version_at_least b (parse_version v) = version_at_least b v" for b
    by (simp_all add: at_least_le parsed_same)
  then show ?thesis
    by (simp add: harness_support_def upgrade_command_def readable_def Let_def)
qed

end
