(* ===== verification/Line_Reader.thy ===== *)
theory Line_Reader
  imports Json
begin

text \<open>
  The line transport (\<open>internal/jsonrpc/lines.go\<close>): \<open>ReadLines\<close> with the buffered reader it reads
  through, and \<open>LineWriter\<close>. The registry of calls of that file is in \<open>Rpc_Conn\<close>.

  The stream is the bytes it will give and how it then ends, \<open>None\<close> for a clean end. A
  \<open>bufio.Reader\<close> of 64 KiB hands over at most that many bytes at once, so a long line comes in
  pieces; the main fact is that the pieces make no difference.
\<close>

section \<open>ReadLines\<close>

definition line_limit :: nat where
  "line_limit = 64 * 2 ^ 20"

definition buffer_size :: nat where
  "buffer_size = 64 * 2 ^ 10"

definition LF :: char where "LF = CHR 0x0A"
definition CR :: char where "CR = CHR 0x0D"

text \<open>\<open>ReadSlice('\n')\<close>: a piece and why it ends there.\<close>

datatype piece_end = AtLF | BufferFull | AtEnd

definition read_slice :: "string \<Rightarrow> string \<times> string \<times> piece_end" where
  "read_slice s =
     (let l = takeWhile (\<lambda>c. c \<noteq> LF) s in
      if length l < length s \<and> length l < buffer_size then (l @ [LF], drop (Suc (length l)) s, AtLF)
      else if buffer_size \<le> length s then (take buffer_size s, drop buffer_size s, BufferFull)
      else (s, [], AtEnd))"

datatype read_error = LineTooLong | StreamError string

definition strip_line :: "string \<Rightarrow> string" where
  "strip_line l = trim_suffix (trim_suffix l [LF]) [CR]"

definition deliver :: "string \<Rightarrow> string list" where
  "deliver l = (if trim_space (strip_line l) = [] then [] else [strip_line l])"

text \<open>The loop: the lines handed to \<open>fn\<close>, and the error it returns.\<close>

lemma read_slice_shorter:
  "read_slice s = (c, r, e) \<Longrightarrow> e \<noteq> AtEnd \<Longrightarrow> length r < length s"
  by (auto simp: read_slice_def buffer_size_def Let_def split: if_splits)

function read_loop :: "string \<Rightarrow> string \<Rightarrow> string option \<Rightarrow> string list \<times> read_error option" where
  "read_loop long s end_err =
     (case read_slice s of
        (chunk, rest, why) \<Rightarrow>
          if line_limit < length long + length chunk then ([], Some LineTooLong)
          else if why = BufferFull then read_loop (long @ chunk) rest end_err
          else if why = AtLF then
            (case read_loop [] rest end_err of (ls, err) \<Rightarrow> (deliver (long @ chunk) @ ls, err))
          else (deliver (long @ chunk), map_option StreamError end_err))"
  by pat_completeness auto
termination
  by (relation "measure (\<lambda>(long, s, e). length s)") (auto dest!: read_slice_shorter [OF sym])

declare read_loop.simps [simp del]

definition read_lines :: "string \<Rightarrow> string option \<Rightarrow> string list \<times> read_error option" where
  "read_lines s end_err = read_loop [] s end_err"

text \<open>What \<open>WriteJSON\<close> puts on the stream.\<close>

definition write_json :: "json \<Rightarrow> string" where
  "write_json v = json_print v @ [LF]"

section \<open>The reference: lines, whatever their length\<close>

text \<open>The lines of a stream, each with its LF, the last without; it may be empty.\<close>

fun segments :: "string \<Rightarrow> string list" where
  "segments [] = [[]]"
| "segments (c # s) =
     (if c = LF then [LF] # segments s
      else case segments s of [] \<Rightarrow> [[c]] | l # ls \<Rightarrow> (c # l) # ls)"

definition line_spec :: "string \<Rightarrow> string option \<Rightarrow> string list \<times> read_error option" where
  "line_spec s end_err =
     (let ok = takeWhile (\<lambda>l. length l \<le> line_limit) (segments s)
      in (concat (map deliver ok),
          if length ok < length (segments s) then Some LineTooLong else map_option StreamError end_err))"

lemma segments_not_Nil [simp]: "segments s \<noteq> []"
  by (induction s) (auto split: list.splits)

lemma segments_no_LF: "LF \<notin> set s \<Longrightarrow> segments s = [s]"
  by (induction s) auto

lemma segments_LF: "LF \<notin> set l \<Longrightarrow> segments (l @ LF # s) = (l @ [LF]) # segments s"
  by (induction l) auto

lemma line_spec_LF:
  "LF \<notin> set l \<Longrightarrow>
   line_spec (l @ LF # s) e =
     (if line_limit < Suc (length l) then ([], Some LineTooLong)
      else (deliver (l @ [LF]) @ fst (line_spec s e), snd (line_spec s e)))"
  by (simp add: line_spec_def segments_LF Let_def)

lemma line_spec_last:
  "LF \<notin> set l \<Longrightarrow>
   line_spec l e = (if line_limit < length l then ([], Some LineTooLong) else (deliver l, map_option StreamError e))"
  by (simp add: line_spec_def segments_no_LF Let_def)

lemma line_spec_too_long:
  assumes "LF \<notin> set l" "line_limit < length l"
  shows "line_spec (l @ s) e = ([], Some LineTooLong)"
proof (cases "LF \<in> set s")
  case False
  then show ?thesis using assms by (subst line_spec_last) auto
next
  case True
  then obtain a b where "s = a @ LF # b" "LF \<notin> set a" by (meson split_list_first)
  with assms line_spec_LF [of "l @ a" b e] show ?thesis by simp
qed

text \<open>The loop on the rest of a line whose first part it already holds.\<close>

lemma read_loop_spec: "LF \<notin> set long \<Longrightarrow> read_loop long s e = line_spec (long @ s) e"
proof (induction long s e rule: read_loop.induct)
  case (1 long s e)
  let ?l = "takeWhile (\<lambda>c. c \<noteq> LF) s"
  have l: "LF \<notin> set ?l" by (auto dest: set_takeWhileD)
  obtain chunk rest why where r: "read_slice s = (chunk, rest, why)" by (metis prod_cases3)
  show ?case
  proof (cases why)
    case AtLF
    with r have c: "chunk = ?l @ [LF]" "rest = drop (Suc (length ?l)) s" "length ?l < length s"
      by (auto simp: read_slice_def Let_def split: if_splits)
    have s: "s = ?l @ LF # rest"
    proof -
      have "dropWhile (\<lambda>c. c \<noteq> LF) s = drop (length ?l) s" by (rule dropWhile_eq_drop)
      moreover have "s ! length ?l = LF" using nth_length_takeWhile [OF c(3)] by simp
      ultimately have "dropWhile (\<lambda>c. c \<noteq> LF) s = LF # rest"
        using c(2,3) by (simp add: Cons_nth_drop_Suc [symmetric])
      then show ?thesis using takeWhile_dropWhile_id [of "\<lambda>c. c \<noteq> LF" s] by simp
    qed
    have spec: "line_spec (long @ s) e =
        (if line_limit < Suc (length (long @ ?l)) then ([], Some LineTooLong)
         else (deliver ((long @ ?l) @ [LF]) @ fst (line_spec rest e), snd (line_spec rest e)))"
      using line_spec_LF [of "long @ ?l" rest e] 1(3) l by (subst s) (simp only: append_assoc set_append Un_iff simp_thms)
    show ?thesis
    proof (cases "line_limit < length long + length chunk")
      case True
      with spec c(1) r show ?thesis by (subst read_loop.simps) simp
    next
      case False
      then have "read_loop [] rest e = line_spec rest e"
        using 1(2) [OF r [symmetric] refl False] AtLF by simp
      with False spec c(1) r AtLF show ?thesis
        by (subst read_loop.simps) (simp split: prod.splits)
    qed
  next
    case BufferFull
    with r have c: "chunk = take buffer_size s" "rest = drop buffer_size s" "buffer_size \<le> length s"
      "\<not> (length ?l < length s \<and> length ?l < buffer_size)"
      by (auto simp: read_slice_def Let_def split: if_splits)
    have "LF \<notin> set chunk"
    proof -
      have "buffer_size \<le> length ?l" using c(3,4) length_takeWhile_le [of "\<lambda>c. c \<noteq> LF" s] by linarith
      then have "take buffer_size s = take buffer_size ?l"
        by (metis (no_types, lifting) append_take_drop_id dual_order.trans take_append takeWhile_dropWhile_id
            append_Nil2 diff_is_0_eq take_0)
      then show ?thesis using l c(1) by (metis in_set_takeD)
    qed
    then have nl: "LF \<notin> set (long @ chunk)" using 1(3) by simp
    have s: "long @ s = (long @ chunk) @ rest" using c(1,2) by simp
    show ?thesis
    proof (cases "line_limit < length long + length chunk")
      case True
      then show ?thesis
        using r line_spec_too_long [OF nl, of rest e] s by (subst read_loop.simps) simp
    next
      case False
      then have "read_loop (long @ chunk) rest e = line_spec ((long @ chunk) @ rest) e"
        using 1(1) [OF r [symmetric] refl False BufferFull nl] by simp
      with False r BufferFull s show ?thesis by (subst read_loop.simps) simp
    qed
  next
    case AtEnd
    with r have c: "chunk = s" "\<not> (length ?l < length s \<and> length ?l < buffer_size)" "length s < buffer_size"
      by (auto simp: read_slice_def Let_def split: if_splits)
    then have "length ?l = length s"
      using length_takeWhile_le [of "\<lambda>c. c \<noteq> LF" s] by linarith
    then have "?l = s" by (metis takeWhile_eq_take take_all order_refl)
    with l 1(3) have "LF \<notin> set (long @ s)" by simp
    from line_spec_last [OF this] r AtEnd c(1) show ?thesis by (subst read_loop.simps) simp
  qed
qed

section \<open>What is written is read\<close>

lemma json_print_line:
  assumes "json_ok j"
  shows "LF \<notin> set (json_print j)" "deliver (write_json j) = [json_print j]"
proof -
  have p: "printable (json_print j)" by (rule json_printable(1) [OF assms])
  have b: "byte LF = 10" "byte CR = 13" by (simp_all add: LF_def CR_def byte_def)
  have ge: "0x20 \<le> byte c" if "c \<in> set (json_print j)" for c
    using p that by (simp add: printable_def list_all_iff)
  have lf: "LF \<notin> set (json_print j)"
  proof
    assume "LF \<in> set (json_print j)"
    from ge [OF this] b show False by simp
  qed
  have cr: "CR \<notin> set (json_print j)"
  proof
    assume "CR \<in> set (json_print j)"
    from ge [OF this] b show False by simp
  qed
  show "LF \<notin> set (json_print j)" by (rule lf)
  obtain c cs where c: "json_print j = c # cs" "0x21 \<le> byte c" "byte c < 0x80"
    using json_print_first_byte [OF assms] by blast
  have "\<not> has_suffix (json_print j) [CR]"
    using cr by (auto simp: has_suffix_iff)
  then have s: "strip_line (write_json j) = json_print j"
    unfolding strip_line_def write_json_def trim_suffix_append by (rule trim_suffix_other)
  have "c \<notin> set space_bytes"
    using space_bytes_range [of c] c(2,3) by auto
  then have "trim_space (json_print j) \<noteq> []"
    using trim_space_keeps [of c "json_print j"] c(1) by simp
  with s show "deliver (write_json j) = [json_print j]" by (simp add: deliver_def)
qed

lemma segments_written:
  assumes "list_all json_ok vs"
  shows "segments (concat (map write_json vs)) = map write_json vs @ [[]]"
  using assms by (induction vs) (simp_all add: segments_LF json_print_line(1) write_json_def)

section \<open>Properties\<close>

text \<open>C14. Reading a stream gives its lines, in order and whole, however long they are and however the
  buffer cuts them: each line that is not blank is delivered once without its line ending, and reading
  fails at the first line of more than 64 MiB, having delivered exactly the lines before it.\<close>

theorem read_lines_spec: "read_lines s e = line_spec s e"
  using read_loop_spec [of "[]" s e] by (simp add: read_lines_def)

text \<open>What is written is read: values written one after the other come out of the reader as the
  texts of those values, one line each, in the order they were written, and the stream ends cleanly.\<close>

theorem written_is_read:
  assumes "list_all json_ok vs" "list_all (\<lambda>v. length (json_print v) < line_limit) vs"
  shows "read_lines (concat (map write_json vs)) None = (map json_print vs, None)"
proof -
  have t: "takeWhile (\<lambda>l. length l \<le> line_limit) (map write_json vs @ [[]]) = map write_json vs @ [[]]"
    unfolding takeWhile_eq_all_conv using assms(2) by (auto simp: list_all_iff write_json_def Suc_le_eq)
  have "concat (map deliver (map write_json vs @ [[]])) = map json_print vs"
  proof -
    have "deliver [] = []" by (simp add: deliver_def strip_line_def trim_suffix_def has_suffix_def)
    then show ?thesis using assms(1) by (induction vs) (simp_all add: json_print_line(2))
  qed
  with t show ?thesis
    using read_loop_spec [of "[]" "concat (map write_json vs)" None]
    by (simp only: read_lines_def line_spec_def segments_written [OF assms(1)] Let_def append_Nil) simp
qed

theorem written_is_read_witness:
  "read_lines (concat (map write_json [JNull, JStr ''a'', JObj []])) None = ([''null'', [CHR 0x22, CHR ''a'', CHR 0x22], ''{}''], None)"
proof -
  have "json_print (JStr ''a'') = [CHR 0x22, CHR ''a'', CHR 0x22]"
    by (simp add: print_string_def print_body_def print_chunk_def byte_def)
  moreover have "list_all json_ok [JNull, JStr ''a'', JObj []]"
    by (simp add: byte_def)
  ultimately show ?thesis
    using written_is_read [of "[JNull, JStr ''a'', JObj []]"] by (simp add: line_limit_def)
qed

end
