(* ===== verification/Rpc_Conn.thy ===== *)
theory Rpc_Conn
  imports Json_Struct
begin

text \<open>
  Calls over a line stream: the registry of waiting calls (\<open>Pending\<close> of
  \<open>internal/jsonrpc/lines.go\<close>) and the JSON-RPC connection on top of it
  (\<open>internal/jsonrpc/conn.go\<close>).

  Go's channels are an explicit store: a channel is an index, and holds nothing, one value, or is
  closed. A connection is driven by the operations that can happen to it, in any order: a call is
  sent, a line arrives, a caller stops waiting, the stream ends. \<open>Start\<close>, \<open>Done\<close> and the goroutine
  of the read loop are the order of those operations.
\<close>

section \<open>The registry (Pending)\<close>

datatype 'v chan = ChanOpen "'v option" | ChanClosed

record ('k, 'v) pending =
  p_map :: "'k \<rightharpoonup> nat"
  p_closed :: bool
  p_chans :: "'v chan list"

definition pending_empty :: "('k, 'v) pending" where
  "pending_empty = \<lparr>p_map = Map.empty, p_closed = False, p_chans = []\<rparr>"

definition pending_add :: "'k \<Rightarrow> ('k, 'v) pending \<Rightarrow> nat option \<times> ('k, 'v) pending" where
  "pending_add k p =
     (if p_closed p then (None, p)
      else (Some (length (p_chans p)),
            p\<lparr>p_map := (p_map p)(k \<mapsto> length (p_chans p)), p_chans := p_chans p @ [ChanOpen None]\<rparr>))"

definition pending_deliver :: "'k \<Rightarrow> 'v \<Rightarrow> ('k, 'v) pending \<Rightarrow> bool \<times> ('k, 'v) pending" where
  "pending_deliver k v p =
     (case p_map p k of
        None \<Rightarrow> (False, p)
      | Some c \<Rightarrow> (True, p\<lparr>p_map := (p_map p)(k := None), p_chans := (p_chans p)[c := ChanOpen (Some v)]\<rparr>))"

definition pending_forget :: "'k \<Rightarrow> ('k, 'v) pending \<Rightarrow> ('k, 'v) pending" where
  "pending_forget k p = p\<lparr>p_map := (p_map p)(k := None)\<rparr>"

definition pending_close :: "('k, 'v) pending \<Rightarrow> ('k, 'v) pending" where
  "pending_close p =
     p\<lparr>p_closed := True, p_map := Map.empty,
       p_chans := map (\<lambda>c. if c \<in> ran (p_map p) then ChanClosed else p_chans p ! c) [0..<length (p_chans p)]\<rparr>"

definition pending_waits :: "'k \<Rightarrow> ('k, 'v) pending \<Rightarrow> bool" where
  "pending_waits k p \<longleftrightarrow> p_map p k \<noteq> None"

text \<open>What a connection relies on in a registry of calls.\<close>

locale call_registry =
  fixes waits :: "'k \<Rightarrow> 'p \<Rightarrow> bool"
    and add :: "'k \<Rightarrow> 'p \<Rightarrow> nat option \<times> 'p"
    and deliver :: "'k \<Rightarrow> 'v \<Rightarrow> 'p \<Rightarrow> bool \<times> 'p"
    and forget :: "'k \<Rightarrow> 'p \<Rightarrow> 'p"
    and close :: "'p \<Rightarrow> 'p"
  assumes add_refused: "fst (add k p) = None \<Longrightarrow> snd (add k p) = p"
    and add_waits: "fst (add k p) \<noteq> None \<Longrightarrow> waits j (snd (add k p)) \<longleftrightarrow> j = k \<or> waits j p"
    and deliver_hit: "fst (deliver k v p) \<longleftrightarrow> waits k p"
    and deliver_waits: "waits j (snd (deliver k v p)) \<longleftrightarrow> j \<noteq> k \<and> waits j p"
    and deliver_miss: "\<not> waits k p \<Longrightarrow> snd (deliver k v p) = p"
    and forget_waits: "waits j (forget k p) \<longleftrightarrow> j \<noteq> k \<and> waits j p"
    and close_waits: "\<not> waits j (close p)"
    and close_refuses: "fst (add k (close p)) = None"
begin

text \<open>A reply goes to one call once: a second one for the same id finds nobody.\<close>

lemma deliver_once: "deliver k w (snd (deliver k v p)) = (False, snd (deliver k v p))"
  using deliver_hit [of k w] deliver_waits [of k k v p] deliver_miss [of k _ w] by (metis prod.collapse)

lemma late_reply: "deliver k v (forget k p) = (False, forget k p)" "deliver k v (close p) = (False, close p)"
  using deliver_hit [of k v] forget_waits [of k k p] close_waits [of k p] deliver_miss [of k _ v]
  by (metis prod.collapse)+

lemma closed_refuses: "add k (close p) = (None, close p)"
  using close_refuses [of k p] add_refused [of k "close p"] by (metis prod.collapse)

end

interpretation pend: call_registry pending_waits pending_add pending_deliver pending_forget pending_close
  by unfold_locales
    (auto simp: pending_waits_def pending_add_def pending_deliver_def pending_forget_def pending_close_def
      split: option.splits)

section \<open>Messages (conn.go)\<close>

record rpc_error =
  er_code :: int
  er_message :: string
  er_data :: string

text \<open>A raw field is the text of a value, empty when the member is absent.\<close>

record message =
  m_jsonrpc :: string
  m_id :: string
  m_method :: string
  m_params :: string
  m_result :: string
  m_error :: "rpc_error option"

definition empty_message :: message where
  "empty_message = \<lparr>m_jsonrpc = [], m_id = [], m_method = [], m_params = [], m_result = [], m_error = None\<rparr>"

definition has_id :: "message \<Rightarrow> bool" where
  "has_id m \<longleftrightarrow> m_id m \<noteq> [] \<and> m_id m \<noteq> ''null''"

definition error_text :: "rpc_error \<Rightarrow> string" where
  "error_text e =
     (if er_data e = [] \<or> er_data e = ''null'' then er_message e else er_message e @ '': '' @ er_data e)"

definition code_method_not_found :: int where "code_method_not_found = -32601"
definition code_internal :: int where "code_internal = -32603"

text \<open>
  \<open>json.Unmarshal\<close> of a line into a \<open>Message\<close>; \<open>None\<close> is its error, a value that is no object or a
  member of the wrong type. A repeated error member counts as its last.
\<close>

definition read_error_object :: "string \<Rightarrow> rpc_error option option" where
  "read_error_object t =
     (case json_parse t of
        Some JNull \<Rightarrow> Some None
      | Some (JObj kvs) \<Rightarrow>
          (let (code, ok1) = dec_field conv_int ''code'' kvs 0;
               (msg, ok2) = dec_field conv_str ''message'' kvs []
           in if ok1 \<and> ok2
              then Some (Some \<lparr>er_code = code, er_message = msg, er_data = last_raw ''data'' (raw_object t) []\<rparr>)
              else None)
      | _ \<Rightarrow> None)"

definition parse_message :: "string \<Rightarrow> message option" where
  "parse_message line =
     (case json_parse line of
        Some JNull \<Rightarrow> Some empty_message
      | Some (JObj kvs) \<Rightarrow>
          (let raws = raw_object line;
               (version, ok1) = dec_field conv_str ''jsonrpc'' kvs [];
               (method_name, ok2) = dec_field conv_str ''method'' kvs [];
               err = last_raw ''error'' raws []
           in if \<not> (ok1 \<and> ok2) then None
              else (case (if err = [] then Some None else read_error_object err) of
                      None \<Rightarrow> None
                    | Some e \<Rightarrow>
                        Some \<lparr>m_jsonrpc = version, m_id = last_raw ''id'' raws [], m_method = method_name,
                              m_params = last_raw ''params'' raws [], m_result = last_raw ''result'' raws [],
                              m_error = e\<rparr>))
      | _ \<Rightarrow> None)"

section \<open>The connection\<close>

text \<open>Which callbacks the owner set, and what the connection does: calls one, or writes.\<close>

record handler =
  on_notification :: bool
  on_request :: bool
  on_peer_error :: bool

datatype rpc_action =
    Notified string string
  | Requested message
  | PeerFailed rpc_error
  | Wrote message

record conn =
  c_version :: string
  c_next :: int
  c_pending :: "(int, message) pending"
  c_ids :: "int list"            \<comment> \<open>the id each channel was made for\<close>
  c_given_up :: "nat list"       \<comment> \<open>channels nobody waits on any more\<close>
  c_done :: bool
  c_actions :: "rpc_action list"

definition new_conn :: "string \<Rightarrow> conn" where
  "new_conn version =
     \<lparr>c_version = version, c_next = 0, c_pending = pending_empty, c_ids = [], c_given_up = [], c_done = False,
      c_actions = []\<rparr>"

definition act :: "rpc_action \<Rightarrow> conn \<Rightarrow> conn" where
  "act a c = c\<lparr>c_actions := c_actions c @ [a]\<rparr>"

definition reply_error :: "string \<Rightarrow> rpc_error \<Rightarrow> conn \<Rightarrow> conn" where
  "reply_error i e c = act (Wrote (empty_message\<lparr>m_jsonrpc := c_version c, m_id := i, m_error := Some e\<rparr>)) c"

definition reply :: "string \<Rightarrow> string + string \<Rightarrow> conn \<Rightarrow> conn" where
  "reply i result c =
     (case result of
        Inl err \<Rightarrow> reply_error i \<lparr>er_code = code_internal, er_message = ''client produced an unencodable result: '' @ err, er_data = []\<rparr> c
      | Inr raw \<Rightarrow> act (Wrote (empty_message\<lparr>m_jsonrpc := c_version c, m_id := i, m_result := raw\<rparr>)) c)"

definition notify :: "string \<Rightarrow> string \<Rightarrow> conn \<Rightarrow> conn" where
  "notify name params c = act (Wrote (empty_message\<lparr>m_jsonrpc := c_version c, m_method := name, m_params := params\<rparr>)) c"

definition dispatch :: "handler \<Rightarrow> string \<Rightarrow> conn \<Rightarrow> conn" where
  "dispatch h line c =
     (case parse_message line of
        None \<Rightarrow> c
      | Some m \<Rightarrow>
          if m_method m \<noteq> [] \<and> has_id m then
            (if \<not> on_request h then
               reply_error (m_id m) \<lparr>er_code = code_method_not_found, er_message = ''method not found: '' @ m_method m, er_data = []\<rparr> c
             else act (Requested m) c)
          else if m_method m \<noteq> [] then
            (if on_notification h then act (Notified (m_method m) (m_params m)) c else c)
          else if has_id m then
            (case parse_int (m_id m) of
               None \<Rightarrow> c
             | Some i \<Rightarrow> c\<lparr>c_pending := snd (pending_deliver i m (c_pending c))\<rparr>)
          else (case m_error m of
                  None \<Rightarrow> c
                | Some e \<Rightarrow> if on_peer_error h then act (PeerFailed e) c else c))"

text \<open>
  The sending half of \<open>Call\<close>: the channel to wait on, \<open>None\<close> when the call ends at once because the
  stream has ended or the write fails.
\<close>

definition start_call :: "string \<Rightarrow> string \<Rightarrow> bool \<Rightarrow> conn \<Rightarrow> nat option \<times> conn" where
  "start_call name params write_ok c =
     (let i = c_next c + 1; c = c\<lparr>c_next := i\<rparr> in
      case pending_add i (c_pending c) of
        (None, _) \<Rightarrow> (None, c)
      | (Some ch, p) \<Rightarrow>
          let c = c\<lparr>c_pending := p, c_ids := c_ids c @ [i]\<rparr> in
          if \<not> write_ok then (None, c\<lparr>c_pending := pending_forget i (c_pending c), c_given_up := ch # c_given_up c\<rparr>)
          else (Some ch, act (Wrote (empty_message\<lparr>m_jsonrpc := c_version c, m_id := show_int i, m_method := name, m_params := params\<rparr>)) c))"

text \<open>The waiting half: what the \<open>select\<close> sees on a channel, and giving up on it.\<close>

datatype call_result = Waiting | Answered "rpc_error + string" | Closed

definition call_result :: "nat \<Rightarrow> conn \<Rightarrow> call_result" where
  "call_result ch c =
     (case p_chans (c_pending c) ! ch of
        ChanOpen None \<Rightarrow> Waiting
      | ChanOpen (Some m) \<Rightarrow> Answered (case m_error m of Some e \<Rightarrow> Inl e | None \<Rightarrow> Inr (m_result m))
      | ChanClosed \<Rightarrow> Closed)"

definition give_up :: "nat \<Rightarrow> conn \<Rightarrow> conn" where
  "give_up ch c =
     (if ch < length (c_ids c)
      then c\<lparr>c_pending := pending_forget (c_ids c ! ch) (c_pending c), c_given_up := ch # c_given_up c\<rparr>
      else c)"

definition end_stream :: "conn \<Rightarrow> conn" where
  "end_stream c = c\<lparr>c_pending := pending_close (c_pending c), c_done := True\<rparr>"

datatype conn_op =
    DoCall string string bool
  | DoLine string
  | DoNotify string string
  | DoReply string "string + string"
  | DoGiveUp nat
  | DoEnd

fun conn_step :: "handler \<Rightarrow> conn_op \<Rightarrow> conn \<Rightarrow> conn" where
  "conn_step h (DoCall name params ok) c = snd (start_call name params ok c)"
| "conn_step h (DoLine line) c = (if c_done c then c else dispatch h line c)"
| "conn_step h (DoNotify name params) c = notify name params c"
| "conn_step h (DoReply i r) c = reply i r c"
| "conn_step h (DoGiveUp ch) c = give_up ch c"
| "conn_step h DoEnd c = (if c_done c then c else end_stream c)"

definition conn_run :: "handler \<Rightarrow> conn_op list \<Rightarrow> conn \<Rightarrow> conn" where
  "conn_run h ops c = foldl (\<lambda>c op. conn_step h op c) c ops"

section \<open>What always holds\<close>

definition ids_ok :: "conn \<Rightarrow> bool" where
  "ids_ok c \<longleftrightarrow> length (c_ids c) = length (p_chans (c_pending c)) \<and> distinct (c_ids c)
     \<and> (\<forall>i \<in> set (c_ids c). i \<le> c_next c)"

definition map_ok :: "conn \<Rightarrow> bool" where
  "map_ok c \<longleftrightarrow> (\<forall>i ch. p_map (c_pending c) i = Some ch \<longrightarrow>
     ch < length (c_ids c) \<and> c_ids c ! ch = i \<and> p_chans (c_pending c) ! ch = ChanOpen None)"

definition chan_ok :: "conn \<Rightarrow> nat \<Rightarrow> bool" where
  "chan_ok c ch \<longleftrightarrow>
     (case p_chans (c_pending c) ! ch of
        ChanOpen None \<Rightarrow> ch \<in> set (c_given_up c) \<or> p_map (c_pending c) (c_ids c ! ch) = Some ch
      | ChanOpen (Some m) \<Rightarrow> m_method m = [] \<and> has_id m \<and> parse_int (m_id m) = Some (c_ids c ! ch)
      | ChanClosed \<Rightarrow> c_done c)"

definition end_ok :: "conn \<Rightarrow> bool" where
  "end_ok c \<longleftrightarrow> p_closed (c_pending c) = c_done c \<and> (c_done c \<longrightarrow> p_map (c_pending c) = Map.empty)"

definition conn_inv :: "conn \<Rightarrow> bool" where
  "conn_inv c \<longleftrightarrow> ids_ok c \<and> map_ok c \<and> (\<forall>ch < length (c_ids c). chan_ok c ch) \<and> end_ok c"

lemmas conn_parts = ids_ok_def map_ok_def chan_ok_def end_ok_def

lemma new_conn_inv: "conn_inv (new_conn v)"
  by (simp add: conn_inv_def conn_parts new_conn_def pending_empty_def)

lemma act_inv [simp]: "conn_inv (act a c) = conn_inv c"
  by (simp add: conn_inv_def conn_parts act_def cong: option.case_cong chan.case_cong)

lemma reply_error_inv [simp]: "conn_inv (reply_error i e c) = conn_inv c"
  and reply_inv [simp]: "conn_inv (reply i r c) = conn_inv c"
  and notify_inv [simp]: "conn_inv (notify name params c) = conn_inv c"
  by (simp_all add: reply_error_def reply_def notify_def split: sum.splits)

lemma map_okD: "map_ok c \<Longrightarrow> p_map (c_pending c) i = Some ch \<Longrightarrow>
    ch < length (c_ids c) \<and> c_ids c ! ch = i \<and> p_chans (c_pending c) ! ch = ChanOpen None"
  by (simp add: map_ok_def)

lemma count_inv: "conn_inv c \<Longrightarrow> conn_inv (c\<lparr>c_next := c_next c + 1\<rparr>)"
  by (auto simp: conn_inv_def conn_parts intro: order_trans cong: option.case_cong chan.case_cong)

lemma new_channel_inv:
  assumes inv: "conn_inv c" and opened: "\<not> p_closed (c_pending c)" and i: "i = c_next c + 1"
  shows "conn_inv (c\<lparr>c_next := i, c_pending := snd (pending_add i (c_pending c)), c_ids := c_ids c @ [i]\<rparr>)"
    (is "conn_inv ?c")
proof -
  have ids: "ids_ok c" and maps: "map_ok c" and chs: "\<forall>ch < length (c_ids c). chan_ok c ch" and e: "end_ok c"
    using inv by (simp_all add: conn_inv_def)
  from ids i have fresh: "i \<notin> set (c_ids c)" by (auto simp: ids_ok_def)
  have "ids_ok ?c" using ids i fresh opened by (auto simp: ids_ok_def pending_add_def)
  moreover have "map_ok ?c"
    using ids opened map_okD [OF maps] by (fastforce simp: ids_ok_def map_ok_def pending_add_def nth_append)
  moreover have "chan_ok ?c ch" if "ch < length (c_ids ?c)" for ch
  proof (cases "ch < length (c_ids c)")
    case True
    with fresh have "c_ids c ! ch \<noteq> i" by auto
    with True chs ids opened show ?thesis
      by (simp add: chan_ok_def ids_ok_def pending_add_def nth_append cong: option.case_cong chan.case_cong)
  next
    case False
    with that ids opened show ?thesis by (simp add: chan_ok_def ids_ok_def pending_add_def nth_append)
  qed
  moreover have "end_ok ?c" using e opened by (simp add: end_ok_def pending_add_def)
  ultimately show ?thesis by (simp add: conn_inv_def)
qed

lemma give_up_inv:
  assumes inv: "conn_inv c"
  shows "conn_inv (give_up ch c)"
proof (cases "ch < length (c_ids c)")
  case True
  let ?c = "c\<lparr>c_pending := pending_forget (c_ids c ! ch) (c_pending c), c_given_up := ch # c_given_up c\<rparr>"
  have ids: "ids_ok c" and maps: "map_ok c" and chs: "\<forall>ch < length (c_ids c). chan_ok c ch" and e: "end_ok c"
    using inv by (simp_all add: conn_inv_def)
  have "ids_ok ?c" using ids by (simp add: ids_ok_def pending_forget_def)
  moreover have "map_ok ?c" using map_okD [OF maps] by (simp add: map_ok_def pending_forget_def)
  moreover have "chan_ok ?c k" if "k < length (c_ids ?c)" for k
  proof -
    have "chan_ok c k" using chs that by simp
    moreover have "c_ids c ! k = c_ids c ! ch \<longleftrightarrow> k = ch"
      using ids True that by (simp add: ids_ok_def nth_eq_iff_index_eq)
    ultimately show ?thesis
      by (auto simp: chan_ok_def pending_forget_def split: option.splits chan.splits)
  qed
  moreover have "end_ok ?c" using e by (simp add: end_ok_def pending_forget_def)
  ultimately show ?thesis using True by (simp add: conn_inv_def give_up_def)
qed (simp add: give_up_def inv)

lemma deliver_inv:
  assumes inv: "conn_inv c" and m: "m_method m = []" "has_id m" "parse_int (m_id m) = Some i"
  shows "conn_inv (c\<lparr>c_pending := snd (pending_deliver i m (c_pending c))\<rparr>)" (is "conn_inv ?c")
proof (cases "p_map (c_pending c) i")
  case None
  then show ?thesis using inv by (simp add: pending_deliver_def)
next
  case (Some k)
  have ids: "ids_ok c" and maps: "map_ok c" and chs: "\<forall>ch < length (c_ids c). chan_ok c ch" and e: "end_ok c"
    using inv by (simp_all add: conn_inv_def)
  note k = map_okD [OF maps Some]
  have "ids_ok ?c" using ids Some by (simp add: ids_ok_def pending_deliver_def)
  moreover have "map_ok ?c"
    using map_okD [OF maps] Some k ids
    by (auto simp: map_ok_def pending_deliver_def ids_ok_def nth_list_update) (metis k)
  moreover have "chan_ok ?c ch" if "ch < length (c_ids ?c)" for ch
  proof (cases "ch = k")
    case True
    with k ids m Some show ?thesis by (simp add: chan_ok_def pending_deliver_def ids_ok_def)
  next
    case False
    have "chan_ok c ch" using chs that by simp
    moreover from False that k ids have "c_ids c ! ch \<noteq> i" by (auto simp: ids_ok_def nth_eq_iff_index_eq)
    ultimately show ?thesis
      using False Some by (auto simp: chan_ok_def pending_deliver_def split: option.splits chan.splits)
  qed
  moreover have "end_ok ?c" using e Some by (auto simp: end_ok_def pending_deliver_def)
  ultimately show ?thesis by (simp add: conn_inv_def)
qed

lemma end_stream_inv:
  assumes inv: "conn_inv c"
  shows "conn_inv (end_stream c)"
proof -
  have ids: "ids_ok c" and maps: "map_ok c" and chs: "\<forall>ch < length (c_ids c). chan_ok c ch"
    using inv by (simp_all add: conn_inv_def)
  have "chan_ok (end_stream c) ch" if "ch < length (c_ids c)" for ch
  proof (cases "ch \<in> ran (p_map (c_pending c))")
    case True
    with that ids show ?thesis by (simp add: chan_ok_def end_stream_def pending_close_def ids_ok_def)
  next
    case False
    with chs that have "chan_ok c ch" "p_map (c_pending c) (c_ids c ! ch) \<noteq> Some ch" by (auto intro: ranI)
    with False that ids show ?thesis
      by (auto simp: chan_ok_def end_stream_def pending_close_def ids_ok_def split: option.splits chan.splits)
  qed
  with ids show ?thesis
    by (simp add: conn_inv_def ids_ok_def map_ok_def end_ok_def end_stream_def pending_close_def)
qed

lemma start_call_inv: "conn_inv c \<Longrightarrow> conn_inv (snd (start_call name params ok c))"
proof -
  assume inv: "conn_inv c"
  let ?i = "c_next c + 1" and ?p = "c_pending c"
  let ?n = "c\<lparr>c_next := ?i, c_pending := snd (pending_add ?i ?p), c_ids := c_ids c @ [?i]\<rparr>"
  show ?thesis
  proof (cases "p_closed ?p")
    case True
    then show ?thesis using count_inv [OF inv] by (simp add: start_call_def Let_def pending_add_def)
  next
    case False
    then have n: "conn_inv ?n" by (intro new_channel_inv inv) simp_all
    from inv have len: "length (p_chans ?p) = length (c_ids c)" by (simp add: conn_inv_def ids_ok_def)
    from n show ?thesis
      using False give_up_inv [OF n, of "length (c_ids c)"]
      by (auto simp: start_call_def Let_def pending_add_def give_up_def len)
  qed
qed

lemma dispatch_inv: "conn_inv c \<Longrightarrow> conn_inv (dispatch h line c)"
  using deliver_inv by (simp add: dispatch_def split: option.split)

lemma conn_step_inv: "conn_inv c \<Longrightarrow> conn_inv (conn_step h op c)"
  by (cases op) (simp_all add: start_call_inv dispatch_inv give_up_inv end_stream_inv)

lemma conn_run_simps [simp]:
  "conn_run h [] c = c"
  "conn_run h (op # ops) c = conn_run h ops (conn_step h op c)"
  "conn_run h (ops @ ops') c = conn_run h ops' (conn_run h ops c)"
  by (simp_all add: conn_run_def)

lemma conn_run_inv: "conn_inv c \<Longrightarrow> conn_inv (conn_run h ops c)"
  by (induction ops arbitrary: c) (simp_all add: conn_step_inv)

section \<open>Where an answer comes from\<close>

definition answers_from :: "string set \<Rightarrow> conn \<Rightarrow> bool" where
  "answers_from lines c \<longleftrightarrow>
     (\<forall>m. ChanOpen (Some m) \<in> set (p_chans (c_pending c)) \<longrightarrow> (\<exists>line \<in> lines. parse_message line = Some m))"

lemma answers_fromI:
  "answers_from lines c \<Longrightarrow>
   (\<And>m. ChanOpen (Some m) \<in> set (p_chans (c_pending c')) \<Longrightarrow>
     ChanOpen (Some m) \<in> set (p_chans (c_pending c)) \<or> parse_message line = Some m) \<Longrightarrow>
   answers_from (insert line lines) c'"
  by (auto simp: answers_from_def)

lemma act_pending [simp]: "c_pending (act a c) = c_pending c"
  and reply_error_pending [simp]: "c_pending (reply_error i e c) = c_pending c"
  and reply_pending [simp]: "c_pending (reply i r c) = c_pending c"
  and notify_pending [simp]: "c_pending (notify name params c) = c_pending c"
  by (simp_all add: act_def reply_error_def reply_def notify_def split: sum.splits)

lemma start_call_chans: "\<exists>cs. p_chans (c_pending (snd (start_call name params ok c))) = p_chans (c_pending c) @ cs
    \<and> set cs \<subseteq> {ChanOpen None}"
  by (auto simp: start_call_def Let_def pending_add_def pending_forget_def)

lemma dispatch_chans:
  "p_chans (c_pending (dispatch h line c)) = p_chans (c_pending c)
   \<or> (\<exists>m i ch. parse_message line = Some m \<and> parse_int (m_id m) = Some i \<and> p_map (c_pending c) i = Some ch
        \<and> p_chans (c_pending (dispatch h line c)) = (p_chans (c_pending c))[ch := ChanOpen (Some m)])"
  by (auto simp: dispatch_def pending_deliver_def split: option.splits)

lemma give_up_chans [simp]: "p_chans (c_pending (give_up ch c)) = p_chans (c_pending c)"
  by (simp add: give_up_def pending_forget_def)

lemma end_stream_open:
  "ChanOpen v \<in> set (p_chans (c_pending (end_stream c))) \<Longrightarrow> ChanOpen v \<in> set (p_chans (c_pending c))"
  by (auto simp: end_stream_def pending_close_def in_set_conv_nth split: if_splits)

fun op_lines :: "conn_op \<Rightarrow> string set" where
  "op_lines (DoLine line) = {line}"
| "op_lines _ = {}"

lemma conn_step_answers: "answers_from lines c \<Longrightarrow> answers_from (op_lines op \<union> lines) (conn_step h op c)"
proof (cases op)
  case (DoCall name params ok)
  assume "answers_from lines c"
  moreover obtain cs where "p_chans (c_pending (conn_step h op c)) = p_chans (c_pending c) @ cs" "set cs \<subseteq> {ChanOpen None}"
    using start_call_chans [of name params ok c] DoCall by auto
  ultimately show ?thesis using DoCall by (auto simp: answers_from_def)
next
  case (DoLine line)
  assume a: "answers_from lines c"
  show ?thesis
    using dispatch_chans [of h line c] a DoLine set_update_subset_insert
    by (fastforce simp: answers_from_def)
qed (auto simp: answers_from_def dest: end_stream_open)

lemma conn_run_answers:
  "answers_from lines c \<Longrightarrow> answers_from (\<Union> (op_lines ` set ops) \<union> lines) (conn_run h ops c)"
proof (induction ops arbitrary: lines c)
  case (Cons op ops)
  from Cons.IH [OF conn_step_answers [OF Cons.prems, of op h]] show ?case by (simp add: Un_ac)
qed simp

section \<open>Answers stay, and the end answers everybody\<close>

lemma chan_stable:
  assumes "conn_inv c" "ch < length (p_chans (c_pending c))" "p_chans (c_pending c) ! ch \<noteq> ChanOpen None"
  shows "p_chans (c_pending (conn_step h op c)) ! ch = p_chans (c_pending c) ! ch
    \<and> ch < length (p_chans (c_pending (conn_step h op c)))"
proof -
  from assms have m: "map_ok c" by (simp add: conn_inv_def)
  show ?thesis
  proof (cases op)
    case (DoCall name params ok)
    with assms start_call_chans [of name params ok c] show ?thesis by (auto simp: nth_append)
  next
    case (DoLine line)
    consider "p_chans (c_pending (dispatch h line c)) = p_chans (c_pending c)"
      | i k v where "p_map (c_pending c) i = Some k"
          "p_chans (c_pending (dispatch h line c)) = (p_chans (c_pending c))[k := v]"
      using dispatch_chans [of h line c] by blast
    then show ?thesis
    proof cases
      case 2
      with map_okD [OF m] assms(3) have "k \<noteq> ch" by blast
      with 2 assms(2) DoLine show ?thesis by simp
    qed (use assms(2) DoLine in simp)
  next
    case DoEnd
    with assms map_okD [OF m] show ?thesis by (auto simp: end_stream_def pending_close_def ran_def)
  qed (use assms in auto)
qed

lemma chan_stable_run:
  assumes "conn_inv c" "ch < length (p_chans (c_pending c))" "p_chans (c_pending c) ! ch \<noteq> ChanOpen None"
  shows "p_chans (c_pending (conn_run h ops c)) ! ch = p_chans (c_pending c) ! ch"
  using assms
proof (induction ops arbitrary: c)
  case (Cons op ops)
  with chan_stable [of c ch h op] conn_step_inv [of c h op] show ?case by simp
qed simp

lemma act_done [simp]: "c_done (act a c) = c_done c"
  by (simp add: act_def)

lemma start_call_done [simp]: "c_done (snd (start_call name params ok c)) = c_done c"
  by (simp add: start_call_def Let_def split: option.split prod.split)

lemma done_stays: "c_done c \<Longrightarrow> c_done (conn_run h ops c)"
proof (induction ops arbitrary: c)
  case (Cons op ops)
  have "c_done (conn_step h op c)"
    using Cons.prems
    by (cases op)
      (auto simp: notify_def reply_def reply_error_def give_up_def split: sum.splits)
  with Cons.IH show ?case by simp
qed simp

lemma end_in_run: "DoEnd \<in> set ops \<Longrightarrow> c_done (conn_run h ops c)"
proof -
  assume "DoEnd \<in> set ops"
  then obtain us vs where "ops = us @ DoEnd # vs" by (auto simp: in_set_conv_decomp)
  moreover have "c_done (conn_step h DoEnd k)" for k by (simp add: end_stream_def)
  ultimately show ?thesis by (simp add: done_stays del: conn_step.simps)
qed

lemma ended_not_waiting:
  "conn_inv c \<Longrightarrow> c_done c \<Longrightarrow> ch < length (c_ids c) \<Longrightarrow> ch \<notin> set (c_given_up c) \<Longrightarrow> call_result ch c \<noteq> Waiting"
  by (auto simp: conn_inv_def chan_ok_def end_ok_def call_result_def split: chan.splits option.splits)

lemma ended_refuses: "conn_inv c \<Longrightarrow> c_done c \<Longrightarrow> fst (start_call name params ok c) = None"
  by (simp add: conn_inv_def end_ok_def start_call_def Let_def pending_add_def)

lemma response_dispatch:
  "parse_message line = Some m \<Longrightarrow> m_method m = [] \<Longrightarrow> has_id m \<Longrightarrow> parse_int (m_id m) = Some i \<Longrightarrow>
   dispatch h line c = c\<lparr>c_pending := snd (pending_deliver i m (c_pending c))\<rparr>"
  by (simp add: dispatch_def)

abbreviation sample_handler :: handler where
  "sample_handler \<equiv> \<lparr>on_notification = True, on_request = True, on_peer_error = True\<rparr>"

definition sample_reply :: string where
  "sample_reply = ''{'' @ quote @ ''id'' @ quote @ '':1,'' @ quote @ ''result'' @ quote @ '':true}''"

definition sample_answer :: message where
  "sample_answer = empty_message\<lparr>m_id := ''1'', m_result := ''true''\<rparr>"

lemma sample_parsed: "parse_message sample_reply = Some sample_answer"
  by (simp add: sample_reply_def sample_answer_def empty_message_def parse_message_def reader_eval dec_field.simps last_raw.simps
      conv_str_def equal_fold_no_upper no_upper_def in_range_def)

lemma sample_response [simp]:
  "m_method sample_answer = []" "has_id sample_answer" "parse_int (m_id sample_answer) = Some 1"
  by (simp_all add: sample_answer_def empty_message_def has_id_def parse_int_def atoi_def strip_sign_def is_digit_def digit_val_def
      max_int64_def min_int64_def read_nat_def)

text \<open>C5. Answers reach the call they answer: whatever order calls, lines, cancellations and the end come
  in, an answered call holds what one of the lines read says, that line is a response carrying the id of
  this very call, and no other call has that id.\<close>

theorem reply_routing:
  assumes "c = conn_run h ops (new_conn v)" "ch < length (c_ids c)" "call_result ch c = Answered r"
  shows "\<exists>line m. DoLine line \<in> set ops \<and> parse_message line = Some m \<and> m_method m = []
     \<and> parse_int (m_id m) = Some (c_ids c ! ch)
     \<and> r = (case m_error m of Some e \<Rightarrow> Inl e | None \<Rightarrow> Inr (m_result m))
     \<and> (\<forall>k < length (c_ids c). c_ids c ! k = c_ids c ! ch \<longleftrightarrow> k = ch)"
proof -
  have inv: "conn_inv c" unfolding assms(1) by (rule conn_run_inv [OF new_conn_inv])
  then have ids: "ids_ok c" and ok: "chan_ok c ch" using assms(2) by (simp_all add: conn_inv_def)
  have "answers_from {} (new_conn v)" by (simp add: answers_from_def new_conn_def pending_empty_def)
  from conn_run_answers [OF this, of ops h] have from_lines: "answers_from (\<Union> (op_lines ` set ops)) c"
    unfolding assms(1) by simp
  from assms(3) obtain m where m: "p_chans (c_pending c) ! ch = ChanOpen (Some m)"
    "r = (case m_error m of Some e \<Rightarrow> Inl e | None \<Rightarrow> Inr (m_result m))"
    by (auto simp: call_result_def split: chan.splits option.splits)
  with ids assms(2) have "ChanOpen (Some m) \<in> set (p_chans (c_pending c))"
    by (metis ids_ok_def nth_mem)
  with from_lines obtain line op where op: "op \<in> set ops" "line \<in> op_lines op" "parse_message line = Some m"
    by (auto simp: answers_from_def)
  moreover from op(2) have "op = DoLine line" by (cases op) auto
  ultimately show ?thesis
    using ok m ids assms(2) by (auto simp: chan_ok_def ids_ok_def nth_eq_iff_index_eq)
qed

definition sample_ops :: "conn_op list" where
  "sample_ops = [DoCall ''m'' [] True, DoLine sample_reply, DoEnd]"

definition sample_conn :: conn where
  "sample_conn =
     \<lparr>c_version = ''2.0'', c_next = 1,
      c_pending = \<lparr>p_map = Map.empty, p_closed = True, p_chans = [ChanOpen (Some sample_answer)]\<rparr>,
      c_ids = [1], c_given_up = [], c_done = True,
      c_actions = [Wrote (empty_message\<lparr>m_jsonrpc := ''2.0'', m_id := show_int 1, m_method := ''m''\<rparr>)]\<rparr>"

lemma sample_run: "conn_run sample_handler sample_ops (new_conn ''2.0'') = sample_conn"
proof -
  have "conn_step sample_handler (DoCall ''m'' [] True) (new_conn ''2.0'') =
      \<lparr>c_version = ''2.0'', c_next = 1,
       c_pending = \<lparr>p_map = [1 \<mapsto> 0], p_closed = False, p_chans = [ChanOpen None]\<rparr>,
       c_ids = [1], c_given_up = [], c_done = False, c_actions = c_actions sample_conn\<rparr>"
    by (simp add: start_call_def new_conn_def pending_empty_def pending_add_def Let_def act_def sample_conn_def
        empty_message_def)
  then show ?thesis
    by (simp add: sample_ops_def response_dispatch [OF sample_parsed] pending_deliver_def end_stream_def
        pending_close_def sample_conn_def del: conn_step.simps(1))
qed

theorem reply_routing_witness:
  "\<exists>line m. DoLine line \<in> set sample_ops \<and> parse_message line = Some m \<and> m_method m = []
     \<and> parse_int (m_id m) = Some 1 \<and> Inr ''true'' = (case m_error m of Some e \<Rightarrow> Inl e | None \<Rightarrow> Inr (m_result m))"
  using reply_routing [OF sample_run [symmetric], of 0 "Inr ''true''"]
  by (auto simp: sample_conn_def call_result_def sample_answer_def empty_message_def)

text \<open>An answer is final: once a call has been answered or has seen the stream close, nothing that
  happens later on the connection changes what it was told.\<close>

theorem answer_is_final:
  assumes "c = conn_run h ops (new_conn v)" "ch < length (c_ids c)" "call_result ch c \<noteq> Waiting"
  shows "call_result ch (conn_run h' ops' c) = call_result ch c"
proof -
  have inv: "conn_inv c" unfolding assms(1) by (rule conn_run_inv [OF new_conn_inv])
  with assms(2) have "ch < length (p_chans (c_pending c))" by (simp add: conn_inv_def ids_ok_def)
  moreover from assms(3) have "p_chans (c_pending c) ! ch \<noteq> ChanOpen None" by (auto simp: call_result_def)
  ultimately show ?thesis using chan_stable_run [OF inv, of ch h' ops'] by (simp add: call_result_def)
qed

theorem answer_is_final_witness:
  "call_result 0 (conn_run sample_handler [DoLine sample_reply, DoGiveUp 0] sample_conn) = Answered (Inr ''true'')"
  using answer_is_final [OF sample_run [symmetric], of 0 sample_handler "[DoLine sample_reply, DoGiveUp 0]"]
  by (simp add: sample_conn_def call_result_def sample_answer_def empty_message_def)

text \<open>C7. No call waits for ever: after the stream has ended, every call that was made has its answer,
  sees its channel closed, or stopped waiting of its own; and every later call is refused.\<close>

theorem no_call_left_waiting:
  assumes "DoEnd \<in> set ops" "c = conn_run h ops (new_conn v)"
  shows "(\<forall>ch < length (c_ids c). ch \<notin> set (c_given_up c) \<longrightarrow> call_result ch c \<noteq> Waiting)
     \<and> (\<forall>name params ok. fst (start_call name params ok c) = None)"
proof -
  have "conn_inv c" unfolding assms(2) by (rule conn_run_inv [OF new_conn_inv])
  moreover have "c_done c" using end_in_run [OF assms(1)] assms(2) by simp
  ultimately show ?thesis by (simp add: ended_not_waiting ended_refuses)
qed

theorem no_call_left_waiting_witness:
  "call_result 0 sample_conn \<noteq> Waiting \<and> fst (start_call ''n'' [] True sample_conn) = None"
  using no_call_left_waiting [OF _ sample_run [symmetric]] by (simp add: sample_ops_def sample_conn_def)

text \<open>A reply is used once: a second response for the same id, and a response to a call that stopped
  waiting, leave the connection as it is.\<close>

theorem reply_used_once:
  assumes "parse_message line = Some m" "m_method m = []" "has_id m" "parse_int (m_id m) = Some i"
    and "parse_message line' = Some m'" "m_method m' = []" "has_id m'" "parse_int (m_id m') = Some i"
    and "ch < length (c_ids c)" "c_ids c ! ch = i"
  shows "dispatch h line' (dispatch h line c) = dispatch h line c
    \<and> dispatch h line (give_up ch c) = give_up ch c"
  using assms pend.deliver_once [of i m' m "c_pending c"] pend.late_reply(1) [of i m "c_pending c"]
  by (simp_all add: response_dispatch give_up_def)

theorem reply_used_once_witness:
  "dispatch sample_handler sample_reply (dispatch sample_handler sample_reply sample_conn)
     = dispatch sample_handler sample_reply sample_conn"
  using reply_used_once [OF sample_parsed _ _ _ sample_parsed, of 1 0 sample_conn sample_handler]
  by (simp add: sample_conn_def)

end
