(* ===== verification/Hook_Protocol.thy ===== *)
theory Hook_Protocol
  imports Versions Json_Struct
begin

text \<open>
  Command hooks: the events (\<open>harness/events.go\<close>), the channel through which a hook's output
  becomes model context (\<open>harness/protocol.go\<close>), the modes of a run (\<open>harness/mode.go\<close>) and the
  fields of a registry entry they read (\<open>harness/harness.go\<close>).

  A registry is an argument: a map from id to entry. A number in an envelope keeps its text, so one
  that no \<open>float64\<close> holds is not an error here.
\<close>

section \<open>Entries and events\<close>

record events =
  ev_session_start :: string
  ev_prompt_submit :: string
  ev_pre_tool_use :: string
  ev_post_tool_use :: string
  ev_stop :: string
  ev_pre_compact :: string

record agent_entry = harness_entry +
  ae_events :: events
  ae_driver :: string
  ae_headless_cmd :: "string list"
  ae_interactive_cmd :: "string list"
  ae_acp_cmd :: "string list"
  ae_sdk_cmd :: "string list"
  ae_known_issues :: "(string \<times> string) list"

definition driver_kind :: "agent_entry \<Rightarrow> string" where
  "driver_kind h = (if ae_driver h \<noteq> [] then ae_driver h else if ae_acp_cmd h \<noteq> [] then ''acp'' else [])"

type_synonym hook_event = string

definition session_start :: hook_event where "session_start = ''session-start''"
definition prompt_submit :: hook_event where "prompt_submit = ''user-prompt-submit''"
definition pre_tool_use :: hook_event where "pre_tool_use = ''pre-tool-use''"
definition post_tool_use :: hook_event where "post_tool_use = ''post-tool-use''"
definition stop_event :: hook_event where "stop_event = ''stop''"
definition pre_compact :: hook_event where "pre_compact = ''pre-compact''"

lemmas event_names =
  session_start_def prompt_submit_def pre_tool_use_def post_tool_use_def stop_event_def pre_compact_def

record hook_spec =
  hs_event :: hook_event
  hs_tag :: string
  hs_tool :: bool
  hs_agent_name :: "events \<Rightarrow> string"

definition hook_spec_table :: "hook_spec list" where
  "hook_spec_table =
     [\<lparr>hs_event = session_start, hs_tag = ''SESSION_START'', hs_tool = False, hs_agent_name = ev_session_start\<rparr>,
      \<lparr>hs_event = prompt_submit, hs_tag = ''PROMPT'', hs_tool = False, hs_agent_name = ev_prompt_submit\<rparr>,
      \<lparr>hs_event = pre_tool_use, hs_tag = ''PRE_TOOL'', hs_tool = True, hs_agent_name = ev_pre_tool_use\<rparr>,
      \<lparr>hs_event = post_tool_use, hs_tag = ''POST_TOOL'', hs_tool = True, hs_agent_name = ev_post_tool_use\<rparr>,
      \<lparr>hs_event = stop_event, hs_tag = ''STOP'', hs_tool = False, hs_agent_name = ev_stop\<rparr>,
      \<lparr>hs_event = pre_compact, hs_tag = ''PRE_COMPACT'', hs_tool = False, hs_agent_name = ev_pre_compact\<rparr>]"

definition hook_events :: "hook_event list" where
  "hook_events = map hs_event hook_spec_table"

definition event_tag :: "hook_event \<Rightarrow> string" where
  "event_tag e = (case find (\<lambda>s. hs_event s = e) hook_spec_table of Some s \<Rightarrow> hs_tag s | None \<Rightarrow> [])"

definition is_tool_event :: "hook_event \<Rightarrow> bool" where
  "is_tool_event e = (case find (\<lambda>s. hs_event s = e) hook_spec_table of Some s \<Rightarrow> hs_tool s | None \<Rightarrow> False)"

definition event_for :: "string \<Rightarrow> hook_event option" where
  "event_for t = map_option hs_event (find (\<lambda>s. hs_tag s = t) hook_spec_table)"

definition agent_name :: "hook_event \<Rightarrow> agent_entry \<Rightarrow> string" where
  "agent_name e h =
     (case find (\<lambda>s. hs_event s = e) hook_spec_table of Some s \<Rightarrow> hs_agent_name s (ae_events h) | None \<Rightarrow> [])"

definition defined_events :: "agent_entry \<Rightarrow> hook_event list" where
  "defined_events h = map hs_event (filter (\<lambda>s. hs_agent_name s (ae_events h) \<noteq> []) hook_spec_table)"

lemma find_key_Some: "find (\<lambda>x. f x = k) xs = Some x \<Longrightarrow> x \<in> set xs \<and> f x = k"
  by (auto simp: find_Some_iff)

lemma find_key_mem: "distinct (map f xs) \<Longrightarrow> x \<in> set xs \<Longrightarrow> find (\<lambda>y. f y = f x) xs = Some x"
  by (induction xs) (auto simp: image_iff)

lemma hook_specs_distinct: "distinct (map hs_event hook_spec_table)" "distinct (map hs_tag hook_spec_table)"
  by (simp_all add: hook_spec_table_def event_names)

lemma event_tag_mem: "x \<in> set hook_spec_table \<Longrightarrow> event_tag (hs_event x) = hs_tag x"
  by (simp add: event_tag_def find_key_mem [OF hook_specs_distinct(1)])

lemma event_tag_inverse: "event_for t = Some e \<longleftrightarrow> e \<in> set hook_events \<and> event_tag e = t"
proof
  assume "event_for t = Some e"
  then obtain x where "find (\<lambda>s. hs_tag s = t) hook_spec_table = Some x" "e = hs_event x"
    by (auto simp: event_for_def)
  then show "e \<in> set hook_events \<and> event_tag e = t"
    using find_key_Some [of hs_tag t hook_spec_table x] by (simp add: event_tag_mem hook_events_def)
next
  assume e: "e \<in> set hook_events \<and> event_tag e = t"
  then obtain x where x: "x \<in> set hook_spec_table" "e = hs_event x" by (auto simp: hook_events_def)
  with e have "t = hs_tag x" by (simp add: event_tag_mem)
  with x show "event_for t = Some e" by (simp add: event_for_def find_key_mem [OF hook_specs_distinct(2)])
qed

lemma agent_name_mem: "x \<in> set hook_spec_table \<Longrightarrow> agent_name (hs_event x) h = hs_agent_name x (ae_events h)"
  by (simp add: agent_name_def find_key_mem [OF hook_specs_distinct(1)])

lemma defined_events_mem: "e \<in> set (defined_events h) \<Longrightarrow> agent_name e h \<noteq> []"
  by (auto simp: defined_events_def agent_name_mem)

section \<open>Modes (mode.go)\<close>

datatype run_mode = ModeBoth | ModeHeadless | ModeInteractive | ModeACP | ModeSDK

definition run_modes :: "run_mode list" where
  "run_modes = [ModeBoth, ModeHeadless, ModeInteractive, ModeACP, ModeSDK]"

fun mode_text :: "run_mode \<Rightarrow> string" where
  "mode_text ModeBoth = ''both''"
| "mode_text ModeHeadless = ''headless''"
| "mode_text ModeInteractive = ''interactive''"
| "mode_text ModeACP = ''acp''"
| "mode_text ModeSDK = ''sdk''"

definition parse_mode :: "string \<Rightarrow> run_mode option" where
  "parse_mode s = find (\<lambda>m. mode_text m = s) run_modes"

definition phases :: "run_mode \<Rightarrow> run_mode list" where
  "phases m = (if m = ModeBoth then [ModeHeadless, ModeInteractive] else [m])"

definition runs_phase :: "run_mode \<Rightarrow> run_mode \<Rightarrow> bool" where
  "runs_phase m p \<longleftrightarrow> p \<in> set (phases m)"

lemma parse_mode_text: "parse_mode s = Some m \<longleftrightarrow> mode_text m = s"
  by (cases m) (auto simp: parse_mode_def run_modes_def)

section \<open>Why a mode is skipped\<close>

datatype skip_reason = SkipNone | SkipIDEOnly | SkipNoMode

text \<open>
  \<open>strings.ToLower\<close>, as far as a comparison with an ASCII word sees it: two runes outside ASCII, the
  Kelvin sign and the capital I with a dot, have a letter of ASCII as their lower case.
\<close>

definition lower_word :: "string \<Rightarrow> string" where
  "lower_word s =
     concat (map (\<lambda>w. if w = encode_rune 0x212A then ''k''
                      else if w = encode_rune 0x130 then ''i''
                      else map lower w) (chunks s))"

definition skip_for :: "agent_entry \<Rightarrow> string \<Rightarrow> skip_reason \<times> string" where
  "skip_for h mode =
     (let has_headless = ae_headless_cmd h \<noteq> []; has_interactive = ae_interactive_cmd h \<noteq> [];
          has_acp = ae_acp_cmd h \<noteq> []; has_sdk = ae_sdk_cmd h \<noteq> [] in
      if \<not> has_headless \<and> \<not> has_interactive \<and> \<not> has_acp \<and> \<not> has_sdk then
        (SkipIDEOnly, h_name h @ '' is an IDE extension with no CLI; hooks and rules are installed from docs, not verified'')
      else
        let m = lower_word mode;
            want = (if m = ''headless'' then has_headless
                    else if m = ''interactive'' then has_interactive
                    else if m = ''acp'' then has_acp
                    else if m = ''sdk'' then has_sdk
                    else has_headless \<or> has_interactive)
        in if \<not> want then (SkipNoMode, h_name h @ '' has no '' @ mode @ '' mode'') else (SkipNone, []))"

definition event_known_missing :: "agent_entry \<Rightarrow> string \<Rightarrow> string \<Rightarrow> string option" where
  "event_known_missing h mode tag = map_of (ae_known_issues h) (mode @ '':event:'' @ tag)"

section \<open>Context channels (protocol.go)\<close>

datatype context_channel =
    ContextNone | ContextPlainText | ContextHookSpecific | ContextAdditionalCamel | ContextAdditionalSnake
  | ContextKey | ContextPlugin

definition is_plain :: "context_channel \<Rightarrow> bool" where
  "is_plain c \<longleftrightarrow> c = ContextPlainText \<or> c = ContextPlugin"

fun channel_text :: "context_channel \<Rightarrow> string" where
  "channel_text ContextPlainText = ''plain''"
| "channel_text ContextHookSpecific = ''hookSpecificOutput''"
| "channel_text ContextAdditionalCamel = ''additionalContext''"
| "channel_text ContextAdditionalSnake = ''additional_context''"
| "channel_text ContextKey = ''context''"
| "channel_text ContextPlugin = ''plugin''"
| "channel_text ContextNone = ''none''"

definition hook_contexts :: "(string \<times> (hook_event \<times> context_channel) list) list" where
  "hook_contexts =
     [(''claude'', [(session_start, ContextHookSpecific), (prompt_submit, ContextHookSpecific)]),
      (''codex'', [(session_start, ContextHookSpecific), (prompt_submit, ContextHookSpecific)]),
      (''copilot'', [(session_start, ContextNone), (prompt_submit, ContextAdditionalCamel)]),
      (''cursor'', [(session_start, ContextAdditionalSnake), (prompt_submit, ContextAdditionalSnake)]),
      (''droid'', [(session_start, ContextHookSpecific), (prompt_submit, ContextHookSpecific)]),
      (''gemini'', [(session_start, ContextHookSpecific), (prompt_submit, ContextHookSpecific)]),
      (''goose'', [(session_start, ContextNone), (prompt_submit, ContextNone)]),
      (''grok'', [(session_start, ContextNone), (prompt_submit, ContextNone)]),
      (''hermes'', [(session_start, ContextNone), (prompt_submit, ContextKey)]),
      (''kilo'', [(prompt_submit, ContextPlugin)]),
      (''kimi'', [(session_start, ContextPlainText), (prompt_submit, ContextPlainText)]),
      (''kiro'', [(session_start, ContextNone), (prompt_submit, ContextPlainText)]),
      (''omp'', [(prompt_submit, ContextPlugin)]),
      (''opencode'', [(prompt_submit, ContextPlugin)]),
      (''pi'', [(prompt_submit, ContextPlugin)]),
      (''qwen'', [(session_start, ContextHookSpecific), (prompt_submit, ContextHookSpecific)]),
      (''windsurf'', [(session_start, ContextNone), (prompt_submit, ContextNone)])]"

definition context_channel_for :: "string \<Rightarrow> hook_event \<Rightarrow> context_channel" where
  "context_channel_for name ev =
     (case map_of hook_contexts name of
        None \<Rightarrow> ContextNone
      | Some chs \<Rightarrow> (case map_of chs ev of None \<Rightarrow> ContextNone | Some c \<Rightarrow> c))"

text \<open>What a hook prints: \<open>json.Marshal\<close> writes a map with its keys sorted.\<close>

definition hook_stdout :: "(string \<rightharpoonup> agent_entry) \<Rightarrow> string \<Rightarrow> hook_event \<Rightarrow> string \<Rightarrow> string option" where
  "hook_stdout all name ev txt =
     (case all name of
        None \<Rightarrow> None
      | Some h \<Rightarrow>
          let ch = context_channel_for name ev in
          if is_plain ch then Some txt
          else case ch of
              ContextHookSpecific \<Rightarrow>
                Some (json_print (JObj [(''hookSpecificOutput'',
                  JObj [(''additionalContext'', JStr txt), (''hookEventName'', JStr (agent_name ev h))])]))
            | ContextAdditionalCamel \<Rightarrow> Some (json_print (JObj [(''additionalContext'', JStr txt)]))
            | ContextAdditionalSnake \<Rightarrow> Some (json_print (JObj [(''additional_context'', JStr txt)]))
            | ContextKey \<Rightarrow> Some (json_print (JObj [(''context'', JStr txt)]))
            | _ \<Rightarrow> None)"

text \<open>A decoded object is a Go map: the last member of a name is its value.\<close>

definition member_of :: "string \<Rightarrow> (string \<times> json) list \<Rightarrow> json option" where
  "member_of k kvs = map_of (rev kvs) k"

definition pick_text :: "string \<Rightarrow> string \<Rightarrow> (string \<times> json) list \<Rightarrow> string" where
  "pick_text outer inner kvs =
     (let obj = (if outer \<noteq> [] then (case member_of outer kvs of Some (JObj m) \<Rightarrow> m | _ \<Rightarrow> []) else kvs)
      in case member_of inner obj of Some (JStr t) \<Rightarrow> t | _ \<Rightarrow> [])"

function json_field_from :: "string \<Rightarrow> string \<Rightarrow> string \<Rightarrow> string option" where
  "json_field_from outer inner s =
     (case read_value (2 * length s + 1) s of
        Some (JObj kvs, r) \<Rightarrow>
          if pick_text outer inner kvs \<noteq> [] then Some (pick_text outer inner kvs)
          else json_field_from outer inner r
      | Some (JNull, r) \<Rightarrow> json_field_from outer inner r
      | _ \<Rightarrow> None)"
  by pat_completeness auto
termination
  by (relation "measure (\<lambda>(_, _, s). length s)") (auto dest: read_length simp del: read_value.simps)

declare json_field_from.simps [simp del]

definition json_field :: "string \<Rightarrow> string \<Rightarrow> string \<Rightarrow> string option" where
  "json_field payload outer inner =
     (let s = dropWhile (\<lambda>c. c \<noteq> CHR ''{'') payload in
      if s = [] then None else json_field_from outer inner s)"

text \<open>The pair of \<open>HookContextText\<close>: the text, and whether the payload has the channel's shape.\<close>

definition hook_context_text :: "string \<Rightarrow> hook_event \<Rightarrow> string \<Rightarrow> string \<times> bool" where
  "hook_context_text name ev payload =
     (let ch = context_channel_for name ev;
          found = (\<lambda>r. case r of Some t \<Rightarrow> (t, True) | None \<Rightarrow> ([], False)) in
      if is_plain ch then (payload, \<not> has_prefix (trim_space payload) ''{'')
      else case ch of
          ContextHookSpecific \<Rightarrow> found (json_field payload ''hookSpecificOutput'' ''additionalContext'')
        | ContextAdditionalCamel \<Rightarrow> found (json_field payload [] ''additionalContext'')
        | ContextAdditionalSnake \<Rightarrow> found (json_field payload [] ''additional_context'')
        | ContextKey \<Rightarrow> found (json_field payload [] ''context'')
        | _ \<Rightarrow> ([], False))"

fun first_field :: "string \<Rightarrow> (string \<times> string) list \<Rightarrow> string option" where
  "first_field payload [] = None"
| "first_field payload ((outer, inner) # tries) =
     (case json_field payload outer inner of Some t \<Rightarrow> Some t | None \<Rightarrow> first_field payload tries)"

definition any_hook_context :: "string \<Rightarrow> string option" where
  "any_hook_context payload =
     first_field payload
       [(''hookSpecificOutput'', ''additionalContext''), ([], ''additionalContext''),
        ([], ''additional_context''), ([], ''context'')]"

section \<open>Reading back what is printed\<close>

lemma read_print_object:
  assumes "json_ok (JObj kvs)" "kvs \<noteq> []" "2 * length (json_print (JObj kvs)) < n"
  shows "read_value n (json_print (JObj kvs) @ r) = Some (JObj kvs, r)"
proof -
  from assms(3) obtain m where n: "n = Suc m" by (cases n) auto
  from assms(2) obtain cs where first: "print_members kvs = CHR 0x22 # cs"
    by (cases kvs rule: print_members.cases) (auto simp: print_string_def)
  have "read_members m (print_members kvs @ CHR ''}'' # r) = Some (kvs, r)"
    using assms by (intro read_print) (simp_all add: n)
  then show ?thesis by (simp add: n skip_ws_Cons first)
qed

lemma json_field_from_object:
  assumes "json_ok (JObj kvs)" "kvs \<noteq> []"
  shows "json_field_from outer inner (json_print (JObj kvs) @ r) =
     (if pick_text outer inner kvs \<noteq> [] then Some (pick_text outer inner kvs) else json_field_from outer inner r)"
  using read_print_object [OF assms, of "2 * length (json_print (JObj kvs) @ r) + 1" r]
  by (subst json_field_from.simps) (simp del: read_value.simps)

lemma json_field_from_Nil [simp]: "json_field_from outer inner [] = None"
  by (simp add: json_field_from.simps skip_ws_def)

lemma json_field_object:
  assumes "json_ok (JObj kvs)" "kvs \<noteq> []" "CHR ''{'' \<notin> set pre"
  shows "json_field (pre @ json_print (JObj kvs) @ post) outer inner =
     (if pick_text outer inner kvs \<noteq> [] then Some (pick_text outer inner kvs) else json_field_from outer inner post)"
proof -
  from assms(3) have "dropWhile (\<lambda>c. c \<noteq> CHR ''{'') (pre @ json_print (JObj kvs) @ post) = json_print (JObj kvs) @ post"
    by (subst dropWhile_append2) auto
  then show ?thesis using json_field_from_object [OF assms(1,2), of outer inner post] by (simp add: json_field_def)
qed

text \<open>The members of a channel's envelope, and the fields its text is read from.\<close>

fun envelope :: "context_channel \<Rightarrow> string \<Rightarrow> string \<Rightarrow> (string \<times> json) list" where
  "envelope ContextHookSpecific name txt =
     [(''hookSpecificOutput'', JObj [(''additionalContext'', JStr txt), (''hookEventName'', JStr name)])]"
| "envelope ContextAdditionalCamel name txt = [(''additionalContext'', JStr txt)]"
| "envelope ContextAdditionalSnake name txt = [(''additional_context'', JStr txt)]"
| "envelope ContextKey name txt = [(''context'', JStr txt)]"
| "envelope _ name txt = []"

fun text_field :: "context_channel \<Rightarrow> string \<times> string" where
  "text_field ContextHookSpecific = (''hookSpecificOutput'', ''additionalContext'')"
| "text_field ContextAdditionalCamel = ([], ''additionalContext'')"
| "text_field ContextAdditionalSnake = ([], ''additional_context'')"
| "text_field _ = ([], ''context'')"

definition wraps :: "context_channel \<Rightarrow> bool" where
  "wraps c \<longleftrightarrow> \<not> is_plain c \<and> c \<noteq> ContextNone"

lemma wraps_cases:
  "wraps c \<Longrightarrow> c \<in> {ContextHookSpecific, ContextAdditionalCamel, ContextAdditionalSnake, ContextKey}"
  by (cases c) (simp_all add: wraps_def is_plain_def)

lemma hook_stdout_wraps:
  "all name = Some h \<Longrightarrow> wraps (context_channel_for name ev) \<Longrightarrow>
   hook_stdout all name ev txt = Some (json_print (JObj (envelope (context_channel_for name ev) (agent_name ev h) txt)))"
  using wraps_cases [of "context_channel_for name ev"] by (auto simp: hook_stdout_def is_plain_def)

lemma hook_context_text_wraps:
  "wraps (context_channel_for name ev) \<Longrightarrow>
   hook_context_text name ev payload =
     (case json_field payload (fst (text_field (context_channel_for name ev))) (snd (text_field (context_channel_for name ev))) of
        Some t \<Rightarrow> (t, True) | None \<Rightarrow> ([], False))"
  using wraps_cases [of "context_channel_for name ev"] by (auto simp: hook_context_text_def is_plain_def)

lemma envelope_ok:
  "valid_utf8 txt \<Longrightarrow> valid_utf8 name \<Longrightarrow> json_ok (JObj (envelope c name txt))"
  by (cases c) (simp_all add: byte_def)

lemma envelope_not_Nil: "wraps c \<Longrightarrow> envelope c name txt \<noteq> []"
  using wraps_cases [of c] by auto

lemma envelope_text:
  assumes "wraps c" "wraps d"
  shows "pick_text (fst (text_field d)) (snd (text_field d)) (envelope c name txt) = (if c = d then txt else [])"
  using wraps_cases [OF assms(1)] wraps_cases [OF assms(2)] by (auto simp: pick_text_def member_of_def)

lemma any_hook_context_wraps:
  "any_hook_context p = (case find (\<lambda>c. json_field p (fst (text_field c)) (snd (text_field c)) \<noteq> None)
      [ContextHookSpecific, ContextAdditionalCamel, ContextAdditionalSnake, ContextKey] of
        None \<Rightarrow> None | Some c \<Rightarrow> json_field p (fst (text_field c)) (snd (text_field c)))"
  by (auto simp: any_hook_context_def split: option.splits)

text \<open>The brace an envelope starts with is no blank.\<close>

lemma brace_kept: "has_prefix (trim_space (json_print (JObj kvs))) ''{''"
  by (simp add: trim_object has_prefix_def)

lemma hook_stdout_plain_or_wraps:
  "hook_stdout all name ev txt = Some payload \<Longrightarrow>
   is_plain (context_channel_for name ev) \<or> wraps (context_channel_for name ev)"
  by (cases "context_channel_for name ev") (auto simp: hook_stdout_def wraps_def is_plain_def split: option.splits)

lemma any_hook_context_envelope:
  assumes "wraps c" "valid_utf8 txt" "valid_utf8 name" "txt \<noteq> []" "CHR ''{'' \<notin> set pre"
  shows "any_hook_context (pre @ json_print (JObj (envelope c name txt))) = Some txt"
proof -
  let ?p = "pre @ json_print (JObj (envelope c name txt))"
  have f: "json_field ?p (fst (text_field d)) (snd (text_field d)) = (if c = d then Some txt else None)" if "wraps d" for d
    using json_field_object [OF envelope_ok [OF assms(2,3)] envelope_not_Nil [OF assms(1)] assms(5), of "[]"]
      envelope_text [OF assms(1) that, of name "txt"] assms(4) by (cases "c = d") (simp_all del: json_print.simps)
  have w: "wraps ContextHookSpecific" "wraps ContextAdditionalCamel" "wraps ContextAdditionalSnake" "wraps ContextKey"
    by (simp_all add: wraps_def is_plain_def)
  from wraps_cases [OF assms(1)] f [OF w(1)] f [OF w(2)] f [OF w(3)] f [OF w(4)] show ?thesis
    by (elim insertE emptyE)
      (simp_all add: any_hook_context_wraps del: json_print.simps envelope.simps text_field.simps)
qed

text \<open>C20. What a hook prints is what its agent's channel carries: a text printed by \<open>HookStdout\<close> is read
  back by \<open>HookContextText\<close>, for an envelope even with log lines around it as long as none before it
  has an opening brace, and any reader of envelopes finds it too. A plain channel prints the text
  itself, and only one that starts with a brace does not count as this channel's.\<close>

theorem hook_text_roundtrip:
  assumes "valid_utf8 txt" "txt \<noteq> []" "all name = Some h" "valid_utf8 (agent_name ev h)"
    and "hook_stdout all name ev txt = Some payload"
  shows "if is_plain (context_channel_for name ev)
     then payload = txt \<and> hook_context_text name ev payload = (txt, \<not> has_prefix (trim_space txt) ''{'')
     else \<forall>pre post. CHR ''{'' \<notin> set pre \<longrightarrow>
       hook_context_text name ev (pre @ payload @ post) = (txt, True) \<and> any_hook_context (pre @ payload) = Some txt"
proof (cases "is_plain (context_channel_for name ev)")
  case True
  with assms(3,5) show ?thesis by (simp add: hook_stdout_def hook_context_text_def)
next
  case False
  then have w: "wraps (context_channel_for name ev)" using hook_stdout_plain_or_wraps [OF assms(5)] by simp
  note ok = envelope_ok [OF assms(1,4)]
  from hook_stdout_wraps [of all name h ev "txt"] assms(3,5) w
  have p: "payload = json_print (JObj (envelope (context_channel_for name ev) (agent_name ev h) txt))" by simp
  show ?thesis
    using False envelope_text [OF w w, of "agent_name ev h" "txt"] assms(2)
      any_hook_context_envelope [OF w assms(1) assms(4) assms(2)]
      json_field_object [OF ok envelope_not_Nil [OF w]]
    by (simp add: p hook_context_text_wraps [OF w] del: json_print.simps)
qed

definition sample_agent :: agent_entry where
  "sample_agent =
     \<lparr>h_name = ''claude'', h_display_name = [], h_tested = \<lparr>tv_min = [], tv_max = []\<rparr>,
      h_requires = \<lparr>rq_version = [], rq_capability = []\<rparr>, h_upgrade_cmd = [], h_install_cmd = [], h_features = [],
      ae_events = \<lparr>ev_session_start = [], ev_prompt_submit = ''UserPromptSubmit'', ev_pre_tool_use = [],
        ev_post_tool_use = [], ev_stop = [], ev_pre_compact = []\<rparr>,
      ae_driver = [], ae_headless_cmd = [], ae_interactive_cmd = [], ae_acp_cmd = [], ae_sdk_cmd = [],
      ae_known_issues = []\<rparr>"

lemma sample_channels [simp]:
  "context_channel_for ''claude'' prompt_submit = ContextHookSpecific"
  "context_channel_for ''copilot'' prompt_submit = ContextAdditionalCamel"
  by (simp_all add: context_channel_for_def hook_contexts_def event_names)

lemma sample_agent_name [simp]: "agent_name prompt_submit sample_agent = ''UserPromptSubmit''"
  by (simp add: agent_name_def hook_spec_table_def event_names sample_agent_def)

lemma sample_stdout:
  "hook_stdout [''claude'' \<mapsto> sample_agent] ''claude'' prompt_submit ''hi'' =
     Some (json_print (JObj (envelope ContextHookSpecific ''UserPromptSubmit'' ''hi'')))"
  by (simp add: hook_stdout_wraps wraps_def is_plain_def del: json_print.simps envelope.simps)

theorem hook_text_roundtrip_witness:
  "hook_context_text ''claude'' prompt_submit
     (''log '' @ json_print (JObj (envelope ContextHookSpecific ''UserPromptSubmit'' ''hi'')) @ ''done'') = (''hi'', True)"
proof -
  have "\<forall>pre post. CHR ''{'' \<notin> set pre \<longrightarrow> hook_context_text ''claude'' prompt_submit
      (pre @ json_print (JObj (envelope ContextHookSpecific ''UserPromptSubmit'' ''hi'')) @ post) = (''hi'', True)"
    using hook_text_roundtrip [OF _ _ _ _ sample_stdout, of sample_agent]
    by (simp add: is_plain_def byte_def del: json_print.simps envelope.simps)
  from this [rule_format, of "''log ''" "''done''"] show ?thesis by (simp del: json_print.simps envelope.simps)
qed

text \<open>An envelope of the wrong shape is noticed: what one channel prints is never taken for the
  context of an event whose channel is another, plain channels included.\<close>

theorem wrong_envelope_refused:
  assumes "valid_utf8 txt" "all name = Some h" "valid_utf8 (agent_name ev h)"
    and "hook_stdout all name ev txt = Some payload" "\<not> is_plain (context_channel_for name ev)"
    and "context_channel_for name' ev' \<noteq> context_channel_for name ev"
  shows "\<not> snd (hook_context_text name' ev' payload)"
proof -
  let ?c = "context_channel_for name ev" and ?d = "context_channel_for name' ev'"
  have w: "wraps ?c" using hook_stdout_plain_or_wraps [OF assms(4)] assms(5) by simp
  from hook_stdout_wraps [of all name h ev "txt"] assms(2,4) w
  have p: "payload = json_print (JObj (envelope ?c (agent_name ev h) txt))" by simp
  consider "?d = ContextNone" | "is_plain ?d" | "wraps ?d" by (auto simp: wraps_def)
  then show ?thesis
  proof cases
    case 2
    then show ?thesis using brace_kept by (simp add: hook_context_text_def p del: json_print.simps)
  next
    case 3
    then show ?thesis
      using json_field_object [OF envelope_ok [OF assms(1,3)] envelope_not_Nil [OF w], of "[]" "[]"]
        envelope_text [OF w 3, of "agent_name ev h" "txt"] assms(6)
      by (simp add: p hook_context_text_wraps [OF 3] del: json_print.simps)
  qed (simp add: hook_context_text_def is_plain_def)
qed

theorem wrong_envelope_refused_witness:
  "\<not> snd (hook_context_text ''copilot'' prompt_submit
     (json_print (JObj (envelope ContextHookSpecific ''UserPromptSubmit'' ''hi''))))"
  using wrong_envelope_refused [OF _ _ _ sample_stdout, of sample_agent "''copilot''" prompt_submit]
  by (simp add: is_plain_def byte_def del: json_print.simps envelope.simps)

end
