(* ===== verification/Running_Agent.thy ===== *)
theory Running_Agent
  imports Prelude
begin

text \<open>
  Which agent a process runs inside (\<open>harness/running.go\<close>): the table of runtimes, the split of a
  versioned name, and the detection from the environment and marker files.

  The environment is a function that gives the empty string for a variable that is not set, as
  \<open>os.Getenv\<close> does, and the marker files are a predicate. The measurement notes of the table,
  which no code reads, are left out.
\<close>

section \<open>The table\<close>

record running_agent =
  rn_name :: string
  rn_version :: string
  rn_signal :: string

record runtime_agent =
  ra_name :: string
  ra_harness :: string
  ra_env :: "string list"
  ra_files :: "string list"
  ra_variant_env :: string
  ra_variant_name :: string

definition runtime_agents :: "runtime_agent list" where
  "runtime_agents =
     [
      \<lparr>ra_name = ''claude-code'', ra_harness = ''claude'',
       ra_env = [''CLAUDECODE'', ''CLAUDE_CODE'', ''CLAUDE_CODE_ENTRYPOINT'', ''CLAUDE_CODE_SESSION_ID''],
       ra_files = [], ra_variant_env = ''CLAUDE_CODE_IS_COWORK'', ra_variant_name = ''cowork''\<rparr>,
      \<lparr>ra_name = ''cursor-cli'', ra_harness = ''cursor'',
       ra_env = [''CURSOR_AGENT'', ''CURSOR_INVOKED_AS'', ''CURSOR_VERSION'', ''CURSOR_PROJECT_DIR''],
       ra_files = [], ra_variant_env = [], ra_variant_name = []\<rparr>,
      \<lparr>ra_name = ''cursor'', ra_harness = [],
       ra_env = [''CURSOR_TRACE_ID''],
       ra_files = [], ra_variant_env = [], ra_variant_name = []\<rparr>,
      \<lparr>ra_name = ''codex'', ra_harness = ''codex'',
       ra_env = [''CODEX_SANDBOX'', ''CODEX_CI'', ''CODEX_THREAD_ID'', ''CODEX_MANAGED_BY_NPM''],
       ra_files = [], ra_variant_env = [], ra_variant_name = []\<rparr>,
      \<lparr>ra_name = ''github-copilot'', ra_harness = ''copilot'',
       ra_env = [''COPILOT_CLI'', ''COPILOT_LOADER_PID'', ''COPILOT_PROJECT_DIR'', ''COPILOT_GITHUB_TOKEN''],
       ra_files = [], ra_variant_env = [], ra_variant_name = []\<rparr>,
      \<lparr>ra_name = ''gemini'', ra_harness = ''gemini'',
       ra_env = [''GEMINI_CLI'', ''GEMINI_SESSION_ID'', ''GEMINI_CLI_NO_RELAUNCH'', ''GEMINI_CWD''],
       ra_files = [], ra_variant_env = [], ra_variant_name = []\<rparr>,
      \<lparr>ra_name = ''qwen'', ra_harness = ''qwen'',
       ra_env = [''QWEN_CODE_CLI'', ''QWEN_CODE_SESSION_ID'', ''QWEN_CODE_AGENT_ID''],
       ra_files = [], ra_variant_env = [], ra_variant_name = []\<rparr>,
      \<lparr>ra_name = ''droid'', ra_harness = ''droid'',
       ra_env = [''DROID_PROJECT_DIR'', ''DROID_PLUGIN_ROOT'', ''FACTORY_UPSTREAM_CLIENT_TYPE'', ''FACTORY_ENV''],
       ra_files = [], ra_variant_env = [], ra_variant_name = []\<rparr>,
      \<lparr>ra_name = ''grok'', ra_harness = ''grok'',
       ra_env = [''GROK_SESSION_ID'', ''GROK_WORKSPACE_ROOT''],
       ra_files = [], ra_variant_env = [], ra_variant_name = []\<rparr>,
      \<lparr>ra_name = ''kiro'', ra_harness = ''kiro'',
       ra_env = [''KIRO_SESSION_ID'', ''KIRO_VERSION'', ''KIRO_CHAT_CLI_BIN''],
       ra_files = [], ra_variant_env = [], ra_variant_name = []\<rparr>,
      \<lparr>ra_name = ''hermes'', ra_harness = ''hermes'',
       ra_env = [''HERMES_SESSION_ID'', ''HERMES_INTERACTIVE''],
       ra_files = [], ra_variant_env = [], ra_variant_name = []\<rparr>,
      \<lparr>ra_name = ''goose'', ra_harness = ''goose'',
       ra_env = [''GOOSE_DISABLE_KEYRING''],
       ra_files = [], ra_variant_env = [], ra_variant_name = []\<rparr>,
      \<lparr>ra_name = ''kilo'', ra_harness = ''kilo'',
       ra_env = [''KILO_TREE_SITTER_WASM_DIR''],
       ra_files = [], ra_variant_env = [], ra_variant_name = []\<rparr>,
      \<lparr>ra_name = ''pi'', ra_harness = ''pi'',
       ra_env = [''PI_CODING_AGENT''],
       ra_files = [], ra_variant_env = [], ra_variant_name = []\<rparr>,
      \<lparr>ra_name = ''windsurf'', ra_harness = ''windsurf'',
       ra_env = [''WINDSURF_EXTENSION_HOST_ROLE''],
       ra_files = [], ra_variant_env = [], ra_variant_name = []\<rparr>,
      \<lparr>ra_name = ''opencode'', ra_harness = ''opencode'',
       ra_env = [''OPENCODE_CLIENT''],
       ra_files = [], ra_variant_env = [], ra_variant_name = []\<rparr>,
      \<lparr>ra_name = ''kimi'', ra_harness = ''kimi'',
       ra_env = [],
       ra_files = [], ra_variant_env = [], ra_variant_name = []\<rparr>,
      \<lparr>ra_name = ''omp'', ra_harness = ''omp'',
       ra_env = [],
       ra_files = [], ra_variant_env = [], ra_variant_name = []\<rparr>,
      \<lparr>ra_name = ''antigravity'', ra_harness = [],
       ra_env = [''ANTIGRAVITY_AGENT''],
       ra_files = [], ra_variant_env = [], ra_variant_name = []\<rparr>,
      \<lparr>ra_name = ''augment'', ra_harness = [],
       ra_env = [''AUGMENT_AGENT''],
       ra_files = [], ra_variant_env = [], ra_variant_name = []\<rparr>,
      \<lparr>ra_name = ''replit'', ra_harness = [],
       ra_env = [''REPL_ID''],
       ra_files = [], ra_variant_env = [], ra_variant_name = []\<rparr>,
      \<lparr>ra_name = ''devin'', ra_harness = [],
       ra_env = [],
       ra_files = [''/opt/.devin''], ra_variant_env = [], ra_variant_name = []\<rparr>]"

definition undetectable_by_env :: "string list" where
  "undetectable_by_env = [''kimi'', ''omp'', ''opencode'']"

section \<open>A versioned name\<close>

text \<open>
  The expression \<^verbatim>\<open>^(.+?)_(\d[\d-]*)_[a-z][a-z0-9-]*$\<close>: the shortest name, of characters other than a
  line feed, that the rest of the expression can follow. \<open>version_tail\<close> is that rest, and gives the
  version.
\<close>

definition is_lower :: "char \<Rightarrow> bool" where
  "is_lower c \<longleftrightarrow> (97::nat) \<le> of_char c \<and> of_char c \<le> (122::nat)"

definition surface_ok :: "string \<Rightarrow> bool" where
  "surface_ok s \<longleftrightarrow>
     (case s of [] \<Rightarrow> False
      | c # cs \<Rightarrow> is_lower c \<and> list_all (\<lambda>c. is_lower c \<or> is_digit c \<or> c = CHR ''-'') cs)"

definition version_char :: "char \<Rightarrow> bool" where
  "version_char c \<longleftrightarrow> is_digit c \<or> c = CHR ''-''"

definition version_tail :: "string \<Rightarrow> string option" where
  "version_tail s =
     (case s of
        [] \<Rightarrow> None
      | u # t \<Rightarrow>
          let v = takeWhile version_char t in
          if u = CHR ''_'' \<and> v \<noteq> [] \<and> is_digit (hd v) \<and> has_prefix (dropWhile version_char t) ''_''
             \<and> surface_ok (tl (dropWhile version_char t))
          then Some v else None)"

fun split_from :: "string \<Rightarrow> string \<Rightarrow> (string \<times> string) option" where
  "split_from before [] = None"
| "split_from before (c # cs) =
     (if c = CHR 0x0A then None
      else case version_tail cs of
          Some v \<Rightarrow> Some (before @ [c], v)
        | None \<Rightarrow> split_from (before @ [c]) cs)"

definition split_agent_version :: "string \<Rightarrow> string \<times> string" where
  "split_agent_version raw =
     (case split_from [] raw of
        None \<Rightarrow> (raw, [])
      | Some (name, v) \<Rightarrow> (name, replace_char (CHR ''-'') (CHR ''.'') v))"

section \<open>Detection\<close>

type_synonym environment = "string \<Rightarrow> string"

definition resolve_name :: "environment \<Rightarrow> runtime_agent \<Rightarrow> string" where
  "resolve_name env rt =
     (if ra_variant_env rt \<noteq> [] \<and> env (ra_variant_env rt) \<noteq> [] then ra_variant_name rt else ra_name rt)"

definition apply_variant :: "environment \<Rightarrow> string \<Rightarrow> string" where
  "apply_variant env name =
     (case find (\<lambda>rt. ra_name rt = name \<and> ra_variant_env rt \<noteq> [] \<and> env (ra_variant_env rt) \<noteq> []) runtime_agents of
        Some rt \<Rightarrow> ra_variant_name rt
      | None \<Rightarrow> name)"

definition evidence_of :: "environment \<Rightarrow> (string \<Rightarrow> bool) \<Rightarrow> runtime_agent \<Rightarrow> string option" where
  "evidence_of env exists rt =
     (case find (\<lambda>v. env v \<noteq> []) (ra_env rt) of
        Some v \<Rightarrow> Some v
      | None \<Rightarrow> find exists (ra_files rt))"

fun detect_from :: "environment \<Rightarrow> (string \<Rightarrow> bool) \<Rightarrow> runtime_agent list \<Rightarrow> running_agent option" where
  "detect_from env exists [] = None"
| "detect_from env exists (rt # rts) =
     (case evidence_of env exists rt of
        Some e \<Rightarrow> Some \<lparr>rn_name = resolve_name env rt, rn_version = [], rn_signal = e\<rparr>
      | None \<Rightarrow> detect_from env exists rts)"

definition detect_running :: "environment \<Rightarrow> (string \<Rightarrow> bool) \<Rightarrow> running_agent option" where
  "detect_running env exists =
     (let raw = env ''AI_AGENT'' in
      if raw \<noteq> [] then
        (case split_agent_version raw of (name, ver) \<Rightarrow>
           Some \<lparr>rn_name = apply_variant env name, rn_version = ver, rn_signal = ''AI_AGENT''\<rparr>)
      else detect_from env exists runtime_agents)"

definition running_name :: "environment \<Rightarrow> (string \<Rightarrow> bool) \<Rightarrow> string" where
  "running_name env exists = (case detect_running env exists of Some r \<Rightarrow> rn_name r | None \<Rightarrow> [])"

fun add_names :: "string list \<Rightarrow> string list \<Rightarrow> string list" where
  "add_names out [] = out"
| "add_names out (n # ns) = add_names (if n \<noteq> [] \<and> n \<notin> set out then out @ [n] else out) ns"

definition running_names :: "string list" where
  "running_names = add_names [] (concat (map (\<lambda>rt. [ra_name rt, ra_variant_name rt]) runtime_agents))"

section \<open>Names split back\<close>

lemma version_tail_no_sep: "\<not> has_prefix s ''_'' \<Longrightarrow> version_tail s = None"
  by (cases s) (auto simp: version_tail_def has_prefix_def)

lemma split_from_skips:
  assumes "CHR ''_'' \<notin> set name" "CHR 0x0A \<notin> set name" "name \<noteq> []" "version_tail rest = Some v"
  shows "split_from before (name @ rest) = Some (before @ name, v)"
  using assms
proof (induction name arbitrary: before)
  case (Cons c cs)
  show ?case
  proof (cases cs)
    case Nil
    with Cons.prems show ?thesis by simp
  next
    case (Cons d ds)
    with Cons.prems(1) have "version_tail (cs @ rest) = None"
      by (intro version_tail_no_sep) (auto simp: has_prefix_def)
    with Cons.IH Cons.prems local.Cons show ?thesis by auto
  qed
qed simp

lemma split_from_plain: "CHR ''_'' \<notin> set name \<Longrightarrow> split_from before name = None"
proof (induction name arbitrary: before)
  case (Cons c cs)
  then have "version_tail cs = None"
    by (cases cs) (auto intro!: version_tail_no_sep simp: has_prefix_def version_tail_def)
  with Cons show ?case by simp
qed simp

lemma takeWhile_stops: "list_all P xs \<Longrightarrow> \<not> P y \<Longrightarrow> takeWhile P (xs @ y # ys) = xs \<and> dropWhile P (xs @ y # ys) = y # ys"
  by (induction xs) auto

lemma version_tail_written:
  assumes "v \<noteq> []" "is_digit (hd v)" "list_all version_char v" "surface_ok surface"
  shows "version_tail (CHR ''_'' # v @ CHR ''_'' # surface) = Some v"
proof -
  have "\<not> version_char (CHR ''_'')" by (simp add: version_char_def is_digit_def)
  from takeWhile_stops [OF assms(3) this, of surface] assms show ?thesis
    by (simp add: version_tail_def has_prefix_def)
qed

text \<open>The version as it is written in \<open>AI_AGENT\<close>, dashes for dots.\<close>

definition dashed :: "string \<Rightarrow> string" where
  "dashed v = replace_char (CHR ''.'') (CHR ''-'') v"

lemma dashed_ok:
  assumes "list_all (\<lambda>c. is_digit c \<or> c = CHR ''.'') v" "v \<noteq> []" "is_digit (hd v)"
  shows "dashed v \<noteq> []" "is_digit (hd (dashed v))" "list_all version_char (dashed v)"
    "replace_char (CHR ''-'') (CHR ''.'') (dashed v) = v"
proof -
  have nd: "\<not> is_digit (CHR ''.'')" "\<not> is_digit (CHR ''-'')" by (simp_all add: is_digit_def)
  from assms(1) have "list_all version_char (dashed v) \<and> replace_char (CHR ''-'') (CHR ''.'') (dashed v) = v"
    by (induction v) (use nd in \<open>auto simp: dashed_def replace_char_def version_char_def\<close>)
  then show "list_all version_char (dashed v)" "replace_char (CHR ''-'') (CHR ''.'') (dashed v) = v" by simp_all
  show "dashed v \<noteq> []" "is_digit (hd (dashed v))"
    using assms(2,3) nd by (cases v; auto simp: dashed_def replace_char_def)+
qed

text \<open>A declared agent is read back: a name without an underscore, its version with dashes for dots
  and any surface word are split into that name and version, whatever the word, and a plain name is
  all name.\<close>

theorem agent_version_roundtrip:
  assumes "name \<noteq> []" "CHR ''_'' \<notin> set name" "CHR 0x0A \<notin> set name"
    and "ver \<noteq> []" "is_digit (hd ver)" "list_all (\<lambda>c. is_digit c \<or> c = CHR ''.'') ver" "surface_ok surface"
  shows "split_agent_version (name @ ''_'' @ dashed ver @ ''_'' @ surface) = (name, ver)
    \<and> split_agent_version name = (name, [])"
proof -
  note d = dashed_ok [OF assms(6,4,5)]
  from split_from_skips [OF assms(2,3,1) version_tail_written [OF d(1-3) assms(7)], of "[]"]
    split_from_plain [OF assms(2), of "[]"] d(4)
  show ?thesis by (simp add: split_agent_version_def)
qed

theorem agent_version_roundtrip_witness:
  "split_agent_version ''claude-code_2-1-278_harness'' = (''claude-code'', ''2.1.278'')"
  using agent_version_roundtrip [of "''claude-code''" "''2.1.278''" "''harness''"]
  by (simp add: dashed_def replace_char_def surface_ok_def is_lower_def is_digit_def)

section \<open>Where a detection comes from\<close>

lemma set_add_names: "set (add_names out ns) = set out \<union> {n \<in> set ns. n \<noteq> []}"
  by (induction out ns rule: add_names.induct) auto

lemma runtime_names_given:
  "rt \<in> set runtime_agents \<Longrightarrow> ra_name rt \<noteq> [] \<and> (ra_variant_env rt \<noteq> [] \<longrightarrow> ra_variant_name rt \<noteq> [])"
proof -
  have "list_all (\<lambda>rt. ra_name rt \<noteq> [] \<and> (ra_variant_env rt \<noteq> [] \<longrightarrow> ra_variant_name rt \<noteq> [])) runtime_agents"
    by (simp add: runtime_agents_def)
  then show "rt \<in> set runtime_agents \<Longrightarrow> ?thesis" by (simp add: list_all_iff)
qed

lemma resolve_name_listed: "rt \<in> set runtime_agents \<Longrightarrow> resolve_name env rt \<in> set running_names"
  using runtime_names_given [of rt] by (auto simp: running_names_def set_add_names resolve_name_def)

lemma detect_from_spec:
  "(case detect_from env exists rts of
      None \<Rightarrow> \<forall>rt \<in> set rts. evidence_of env exists rt = None
    | Some r \<Rightarrow> \<exists>us rt vs. rts = us @ rt # vs \<and> (\<forall>u \<in> set us. evidence_of env exists u = None)
        \<and> evidence_of env exists rt = Some (rn_signal r) \<and> rn_name r = resolve_name env rt \<and> rn_version r = [])"
proof (induction rts)
  case (Cons rt rts)
  show ?case
  proof (cases "evidence_of env exists rt")
    case None
    then show ?thesis
    proof (cases "detect_from env exists rts")
      case (Some r)
      with Cons.IH obtain us x vs where "rts = us @ x # vs" "\<forall>u \<in> set us. evidence_of env exists u = None"
        "evidence_of env exists x = Some (rn_signal r)" "rn_name r = resolve_name env x" "rn_version r = []" by auto
      with None Some show ?thesis by (auto intro!: exI [of _ "rt # us"])
    qed (use Cons.IH in auto)
  qed (auto intro!: exI [of _ "[]"])
qed simp

lemma evidence_of_Some:
  "evidence_of env exists rt = Some e \<Longrightarrow> e \<in> set (ra_env rt) \<and> env e \<noteq> [] \<or> e \<in> set (ra_files rt) \<and> exists e"
  by (auto simp: evidence_of_def split: option.splits dest!: find_SomeD)

text \<open>Detection without a declaration: with \<open>AI_AGENT\<close> unset the answer is the first runtime of the
  table that has evidence, its signal is one of that runtime's own variables, set, or one of its marker
  files, present, and its name is one of the listed names; no answer means that no runtime has
  evidence.\<close>

theorem running_by_evidence:
  assumes "env ''AI_AGENT'' = []"
  shows "case detect_running env exists of
      None \<Rightarrow> \<forall>rt \<in> set runtime_agents. evidence_of env exists rt = None
    | Some r \<Rightarrow> rn_name r \<in> set running_names
        \<and> (\<exists>us rt vs. runtime_agents = us @ rt # vs \<and> (\<forall>u \<in> set us. evidence_of env exists u = None)
            \<and> rn_name r = resolve_name env rt
            \<and> (rn_signal r \<in> set (ra_env rt) \<and> env (rn_signal r) \<noteq> []
               \<or> rn_signal r \<in> set (ra_files rt) \<and> exists (rn_signal r)))"
proof (cases "detect_from env exists runtime_agents")
  case None
  with detect_from_spec [where env = env and exists = exists and rts = runtime_agents] assms show ?thesis by (simp add: detect_running_def)
next
  case (Some r)
  with detect_from_spec [where env = env and exists = exists and rts = runtime_agents] obtain us rt vs where
    r: "runtime_agents = us @ rt # vs" "\<forall>u \<in> set us. evidence_of env exists u = None"
      "evidence_of env exists rt = Some (rn_signal r)" "rn_name r = resolve_name env rt" by auto
  have "rt \<in> set runtime_agents" unfolding r(1) by simp
  from resolve_name_listed [OF this, of env] have "rn_name r \<in> set running_names" by (simp add: r(4))
  moreover have "detect_running env exists = Some r" using assms Some by (simp add: detect_running_def)
  ultimately show ?thesis using r evidence_of_Some [OF r(3)] by auto
qed

definition sample_env :: environment where
  "sample_env v = (if v = ''CLAUDECODE'' \<or> v = ''CLAUDE_CODE_IS_COWORK'' then ''1'' else [])"

theorem running_by_evidence_witness:
  "(case detect_running sample_env (\<lambda>_. False) of None \<Rightarrow> False | Some r \<Rightarrow> rn_name r \<in> set running_names)
   \<and> detect_running sample_env (\<lambda>_. False) = Some \<lparr>rn_name = ''cowork'', rn_version = [], rn_signal = ''CLAUDECODE''\<rparr>"
proof -
  have *: "detect_running sample_env (\<lambda>_. False) = Some \<lparr>rn_name = ''cowork'', rn_version = [], rn_signal = ''CLAUDECODE''\<rparr>"
    by (simp add: detect_running_def sample_env_def runtime_agents_def evidence_of_def resolve_name_def)
  with running_by_evidence [of sample_env "\<lambda>_. False"] show ?thesis by (simp add: sample_env_def)
qed

text \<open>A declared name is taken as it is: the list of names is not all that can be reported.\<close>

lemma running_name_unlisted:
  "running_name (\<lambda>v. if v = ''AI_AGENT'' then ''aider'' else []) (\<lambda>_. False) = ''aider''
   \<and> ''aider'' \<notin> set running_names"
  by (simp add: running_name_def detect_running_def split_agent_version_def version_tail_def apply_variant_def
      runtime_agents_def running_names_def set_add_names)

end
