(* ===== verification/Session_Liveness.thy ===== *)
theory Session_Liveness
  imports Paths
begin

text \<open>
  Whether a session is in use (\<open>transcript/all/live.go\<close>), with the processes of an agent
  (\<open>harness/process.go\<close>, \<open>internal/proc/proc.go\<close>) and the vocabulary of the answer
  (\<open>model/harness_wire.go\<close>).

  The process table is part of the probe; whether a process exists is the argument \<open>alive\<close>, and the
  registry a map from an agent's id to its entry. Times are nanoseconds, with none for the zero
  time.
\<close>

section \<open>Vocabulary (harness\_wire.go)\<close>

datatype live_state = LiveUnknown | LiveIdle | LiveActive

datatype evidence =
    EvidenceLockFile | EvidenceOpenFile | EvidenceNoProcess | EvidenceProcessInCwd | EvidenceNoProcessInCwd
  | EvidenceHeldElsewhere | EvidenceRecentWrite | EvidenceNone

record liveness =
  lv_state :: live_state
  lv_evidence :: evidence
  lv_heuristic :: bool
  lv_pid :: int
  lv_detail :: string

section \<open>Processes of an agent (process.go)\<close>

record agent_process =
  pr_pid :: int
  pr_argv :: "string list"
  pr_exe :: string
  pr_cwd :: string
  pr_home :: string
  pr_open :: "string list"

record run_entry =
  re_name :: string
  re_binary :: string

definition extra_names :: "(string \<times> string list) list" where
  "extra_names =
     [(''grok'', [''grok-linux-x86_64'']),
      (''kilo'', [''.kilo'']),
      (''kimi'', [''kimi-code'']),
      (''kiro'', [''kiro-cli-chat'']),
      (''qwen'', [''qwen-code''])]"

definition process_names :: "run_entry \<Rightarrow> string list" where
  "process_names h = re_binary h # (case map_of extra_names (re_name h) of None \<Rightarrow> [] | Some ns \<Rightarrow> ns)"

definition interpreters :: "string list" where
  "interpreters = [''node'', ''bun'', ''deno'', ''python'', ''python3'']"

definition runs :: "run_entry \<Rightarrow> string list \<Rightarrow> string \<Rightarrow> bool" where
  "runs h argv exe =
     (case argv of
        [] \<Rightarrow> False
      | a # args \<Rightarrow>
          let script = (if path_base a \<in> set interpreters \<or> path_base exe \<in> set interpreters
                        then (case find (\<lambda>x. \<not> has_prefix x ''-'') args of None \<Rightarrow> [] | Some x \<Rightarrow> [x])
                        else []);
              paths = a # script
          in list_ex (\<lambda>name. name \<noteq> [] \<and>
               list_ex (\<lambda>p. trim_suffix (path_base p) ''.exe'' = name \<or> contains p (''/'' @ name @ ''/'')) paths)
             (process_names h))"

section \<open>The probe (live.go)\<close>

record probe =
  pb_home :: string
  pb_procs :: "agent_process list"
  pb_ok :: bool
  pb_now :: int
  pb_serving :: "int \<rightharpoonup> string"

record listed_session =
  ls_agent :: string
  ls_id :: string
  ls_cwd :: string
  ls_root :: string
  ls_updated :: "int option"
  ls_holders :: "int list"

definition recent_window :: int where
  "recent_window = 2 * 60 * 1000000000"

definition session_key :: "string \<Rightarrow> string \<Rightarrow> string" where
  "session_key agent i = agent @ [CHR 0x00] @ i"

definition hold :: "(int \<Rightarrow> bool) \<Rightarrow> string \<Rightarrow> int \<Rightarrow> probe \<Rightarrow> probe" where
  "hold alive key pid p = (if alive pid then p\<lparr>pb_serving := (pb_serving p)(pid \<mapsto> key)\<rparr> else p)"

definition probe_known :: "(int \<Rightarrow> bool) \<Rightarrow> listed_session list \<Rightarrow> probe \<Rightarrow> probe" where
  "probe_known alive sessions p =
     foldl (\<lambda>p s. foldl (\<lambda>p pid. hold alive (session_key (ls_agent s) (ls_id s)) pid p) p (ls_holders s)) p sessions"

text \<open>The registry an agent serves is a Go map, given as its entries in the order they are visited.\<close>

definition probe_serving :: "(int \<Rightarrow> bool) \<Rightarrow> string \<Rightarrow> (int \<times> string) list \<Rightarrow> probe \<Rightarrow> probe" where
  "probe_serving alive agent pids p = foldl (\<lambda>p (pid, i). hold alive (session_key agent i) pid p) p pids"

text \<open>The table a probe starts from: the processes of any agent.\<close>

definition new_probe :: "(string \<times> run_entry) list \<Rightarrow> string \<Rightarrow> agent_process list option \<Rightarrow> int \<Rightarrow> probe" where
  "new_probe entries home snapshot now =
     \<lparr>pb_home = path_clean home,
      pb_procs = (case snapshot of None \<Rightarrow> []
                  | Some ps \<Rightarrow> filter (\<lambda>pr. list_ex (\<lambda>(_, h). runs h (pr_argv pr) (pr_exe pr)) entries) ps),
      pb_ok = (snapshot \<noteq> None), pb_now = now, pb_serving = Map.empty\<rparr>"

definition within :: "string \<Rightarrow> string \<Rightarrow> bool" where
  "within path dir =
     (let path = path_clean path; dir = path_clean dir in path = dir \<or> has_prefix path (dir @ ''/''))"

definition runs_pid :: "probe \<Rightarrow> run_entry option \<Rightarrow> int \<Rightarrow> bool" where
  "runs_pid p h pid =
     (case h of None \<Rightarrow> False
      | Some h \<Rightarrow> list_ex (\<lambda>pr. pr_pid pr = pid \<and> runs h (pr_argv pr) (pr_exe pr)) (pb_procs p))"

definition my_processes :: "probe \<Rightarrow> run_entry option \<Rightarrow> agent_process list" where
  "my_processes p h =
     (case h of None \<Rightarrow> []
      | Some h \<Rightarrow> filter (\<lambda>pr. runs h (pr_argv pr) (pr_exe pr)
                     \<and> (pr_home pr = [] \<or> path_clean (pr_home pr) = pb_home p)) (pb_procs p))"

fun first_open :: "string \<Rightarrow> agent_process list \<Rightarrow> (agent_process \<times> string) option" where
  "first_open root [] = None"
| "first_open root (pr # prs) =
     (case find (\<lambda>f. within f root) (pr_open pr) of Some f \<Rightarrow> Some (pr, f) | None \<Rightarrow> first_open root prs)"

text \<open>The loop over the processes in the session's directory: the process that may serve the session,
  or how many are in the directory and how many of them hold another session.\<close>

fun cwd_loop :: "probe \<Rightarrow> listed_session \<Rightarrow> nat \<Rightarrow> nat \<Rightarrow> agent_process list \<Rightarrow> agent_process + nat \<times> nat" where
  "cwd_loop p s in_cwd elsewhere [] = Inr (in_cwd, elsewhere)"
| "cwd_loop p s in_cwd elsewhere (pr # prs) =
     (if pr_cwd pr = [] \<or> path_clean (pr_cwd pr) \<noteq> path_clean (ls_cwd s) then cwd_loop p s in_cwd elsewhere prs
      else (case pb_serving p (pr_pid pr) of
              None \<Rightarrow> Inl pr
            | Some held \<Rightarrow>
                if held \<noteq> session_key (ls_agent s) (ls_id s) then cwd_loop p s (in_cwd + 1) (elsewhere + 1) prs
                else Inl pr))"

definition live :: "(int \<Rightarrow> bool) \<Rightarrow> (string \<rightharpoonup> run_entry) \<Rightarrow> probe \<Rightarrow> listed_session \<Rightarrow> liveness" where
  "live alive all p s =
     (let h = all (ls_agent s);
          answer = (\<lambda>st ev heur pid detail.
            \<lparr>lv_state = st, lv_evidence = ev, lv_heuristic = heur, lv_pid = pid, lv_detail = detail\<rparr>)
      in case find (\<lambda>pid. alive pid \<and> (pb_ok p \<longrightarrow> runs_pid p h pid)) (ls_holders s) of
           Some pid \<Rightarrow> answer LiveActive EvidenceLockFile False pid
             ''the agent's in-use marker for this session names a running process''
         | None \<Rightarrow>
      let recent = (case ls_updated s of None \<Rightarrow> False | Some u \<Rightarrow> pb_now p - u < recent_window) in
      if \<not> pb_ok p then
        (if recent then answer LiveActive EvidenceRecentWrite True 0
           ''written in the last 2m0s; no process table on this platform''
         else answer LiveUnknown EvidenceNone False 0
           ''no process table on this platform and no in-use marker'')
      else
        let mine = my_processes p h in
        (case (if ls_root s \<noteq> [] then first_open (ls_root s) mine else None) of
           Some (pr, f) \<Rightarrow> answer LiveActive EvidenceOpenFile False (pr_pid pr) (''the agent holds '' @ f @ '' open'')
         | None \<Rightarrow>
             if mine = [] then answer LiveIdle EvidenceNoProcess False 0
               (''no process of '' @ ls_agent s @ '' is running'')
             else
               let rest = (if recent then answer LiveActive EvidenceRecentWrite True 0 ''written in the last 2m0s''
                           else if ls_cwd s = [] then answer LiveUnknown EvidenceNone False 0
                             (ls_agent s @ '' is running and the session's directory is unknown'')
                           else answer LiveIdle EvidenceNoProcessInCwd True 0
                             (ls_agent s @ '' is running, but not in the session's directory''))
               in if ls_cwd s = [] then rest
                  else (case cwd_loop p s 0 0 mine of
                          Inl pr \<Rightarrow> answer LiveActive EvidenceProcessInCwd True (pr_pid pr)
                            (ls_agent s @ '' is running in the session's directory; it may be serving another session there'')
                        | Inr (in_cwd, elsewhere) \<Rightarrow>
                            if 0 < in_cwd \<and> in_cwd = elsewhere then answer LiveIdle EvidenceHeldElsewhere False 0
                              (''every '' @ ls_agent s @ '' process in the session's directory holds another session'')
                            else rest)))"

section \<open>What decides\<close>

text \<open>The evidence there can be, each said without the loops that look for it.\<close>

definition marker_holds :: "(int \<Rightarrow> bool) \<Rightarrow> probe \<Rightarrow> run_entry option \<Rightarrow> listed_session \<Rightarrow> int \<Rightarrow> bool" where
  "marker_holds alive p h s pid \<longleftrightarrow> pid \<in> set (ls_holders s) \<and> alive pid \<and> (pb_ok p \<longrightarrow> runs_pid p h pid)"

definition holds_open :: "listed_session \<Rightarrow> agent_process \<Rightarrow> bool" where
  "holds_open s pr \<longleftrightarrow> ls_root s \<noteq> [] \<and> (\<exists>f \<in> set (pr_open pr). within f (ls_root s))"

definition in_dir :: "listed_session \<Rightarrow> agent_process \<Rightarrow> bool" where
  "in_dir s pr \<longleftrightarrow> ls_cwd s \<noteq> [] \<and> pr_cwd pr \<noteq> [] \<and> path_clean (pr_cwd pr) = path_clean (ls_cwd s)"

definition serves_other :: "probe \<Rightarrow> listed_session \<Rightarrow> agent_process \<Rightarrow> bool" where
  "serves_other p s pr \<longleftrightarrow>
     pb_serving p (pr_pid pr) \<noteq> None \<and> pb_serving p (pr_pid pr) \<noteq> Some (session_key (ls_agent s) (ls_id s))"

definition recently_written :: "probe \<Rightarrow> listed_session \<Rightarrow> bool" where
  "recently_written p s \<longleftrightarrow> (\<exists>u. ls_updated s = Some u \<and> pb_now p - u < recent_window)"

text \<open>The order the comment of \<open>Live\<close> gives, strongest first.\<close>

definition evidence_order :: "(int \<Rightarrow> bool) \<Rightarrow> (string \<rightharpoonup> run_entry) \<Rightarrow> probe \<Rightarrow> listed_session \<Rightarrow> (evidence \<times> bool) list" where
  "evidence_order alive all p s =
     (let h = all (ls_agent s); mine = set (my_processes p h) in
      [(EvidenceLockFile, \<exists>pid. marker_holds alive p h s pid),
       (EvidenceRecentWrite, \<not> pb_ok p \<and> recently_written p s),
       (EvidenceNone, \<not> pb_ok p),
       (EvidenceOpenFile, \<exists>pr \<in> mine. holds_open s pr),
       (EvidenceNoProcess, mine = {}),
       (EvidenceProcessInCwd, \<exists>pr \<in> mine. in_dir s pr \<and> \<not> serves_other p s pr),
       (EvidenceHeldElsewhere, \<exists>pr \<in> mine. in_dir s pr),
       (EvidenceRecentWrite, recently_written p s),
       (EvidenceNone, ls_cwd s = []),
       (EvidenceNoProcessInCwd, True)])"

lemma cwd_loop_spec:
  assumes "ls_cwd s \<noteq> []"
  shows "cwd_loop p s n m prs =
     (case find (\<lambda>pr. in_dir s pr \<and> \<not> serves_other p s pr) prs of
        Some pr \<Rightarrow> Inl pr
      | None \<Rightarrow> Inr (n + length (filter (in_dir s) prs), m + length (filter (in_dir s) prs)))"
  using assms by (induction prs arbitrary: n m) (auto simp: in_dir_def serves_other_def split: option.splits)

lemma first_open_Some: "first_open root prs = Some (pr, f) \<Longrightarrow> pr \<in> set prs \<and> f \<in> set (pr_open pr) \<and> within f root"
  by (induction prs) (auto split: option.splits dest!: find_SomeD)

lemma first_open_None: "first_open root prs = None \<longleftrightarrow> (\<forall>pr \<in> set prs. \<forall>f \<in> set (pr_open pr). \<not> within f root)"
  by (induction prs) (auto simp: find_None_iff split: option.splits dest!: find_SomeD)

lemma holder_Some:
  "find (\<lambda>pid. alive pid \<and> (pb_ok p \<longrightarrow> runs_pid p h pid)) (ls_holders s) = Some pid \<Longrightarrow> marker_holds alive p h s pid"
  by (auto simp: marker_holds_def dest!: find_SomeD)

lemma holder_None:
  "find (\<lambda>pid. alive pid \<and> (pb_ok p \<longrightarrow> runs_pid p h pid)) (ls_holders s) = None \<longleftrightarrow>
   (\<forall>pid. \<not> marker_holds alive p h s pid)"
  by (auto simp: marker_holds_def find_None_iff)

lemma opened_None:
  "(if ls_root s \<noteq> [] then first_open (ls_root s) mine else None) = None \<longleftrightarrow> (\<forall>pr \<in> set mine. \<not> holds_open s pr)"
  by (auto simp: holds_open_def first_open_None)

lemma opened_Some:
  "(if ls_root s \<noteq> [] then first_open (ls_root s) mine else None) = Some (pr, f) \<Longrightarrow> pr \<in> set mine \<and> holds_open s pr"
  by (auto simp: holds_open_def split: if_splits dest!: first_open_Some)

lemma recent_iff: "(case ls_updated s of None \<Rightarrow> False | Some u \<Rightarrow> pb_now p - u < recent_window) = recently_written p s"
  by (simp add: recently_written_def split: option.split)

text \<open>What the answer says of its own evidence.\<close>

fun answer_fits :: "(int \<Rightarrow> bool) \<Rightarrow> probe \<Rightarrow> run_entry option \<Rightarrow> listed_session \<Rightarrow> liveness \<Rightarrow> bool" where
  "answer_fits alive p h s l =
     (case lv_evidence l of
        EvidenceLockFile \<Rightarrow> lv_state l = LiveActive \<and> \<not> lv_heuristic l \<and> marker_holds alive p h s (lv_pid l)
      | EvidenceOpenFile \<Rightarrow> lv_state l = LiveActive \<and> \<not> lv_heuristic l
          \<and> (\<exists>pr \<in> set (my_processes p h). pr_pid pr = lv_pid l \<and> holds_open s pr)
      | EvidenceNoProcess \<Rightarrow> lv_state l = LiveIdle \<and> \<not> lv_heuristic l \<and> my_processes p h = []
      | EvidenceProcessInCwd \<Rightarrow> lv_state l = LiveActive \<and> lv_heuristic l
          \<and> (\<exists>pr \<in> set (my_processes p h). pr_pid pr = lv_pid l \<and> in_dir s pr \<and> \<not> serves_other p s pr)
      | EvidenceNoProcessInCwd \<Rightarrow> lv_state l = LiveIdle \<and> lv_heuristic l
          \<and> \<not> (\<exists>pr \<in> set (my_processes p h). in_dir s pr \<or> holds_open s pr)
      | EvidenceHeldElsewhere \<Rightarrow> lv_state l = LiveIdle \<and> \<not> lv_heuristic l
          \<and> \<not> (\<exists>pr \<in> set (my_processes p h). in_dir s pr \<and> \<not> serves_other p s pr)
      | EvidenceRecentWrite \<Rightarrow> lv_state l = LiveActive \<and> lv_heuristic l \<and> recently_written p s
      | EvidenceNone \<Rightarrow> lv_state l = LiveUnknown \<and> \<not> lv_heuristic l)"

text \<open>C15. The strongest evidence decides: the answer rests on the first evidence of the documented order
  that there is, active, idle or unknown and proof or guess as that evidence says, and the process it
  points at really is one the evidence is about.\<close>

theorem live_by_evidence:
  "lv_evidence (live alive all p s) = fst (the (find snd (evidence_order alive all p s)))
   \<and> answer_fits alive p (all (ls_agent s)) s (live alive all p s)"
proof -
  let ?h = "all (ls_agent s)"
  let ?mine = "my_processes p ?h"
  let ?first = "find (\<lambda>pid. alive pid \<and> (pb_ok p \<longrightarrow> runs_pid p ?h pid)) (ls_holders s)"
  let ?opened = "if ls_root s \<noteq> [] then first_open (ls_root s) ?mine else None"
  let ?here = "find (\<lambda>pr. in_dir s pr \<and> \<not> serves_other p s pr) ?mine"
  show ?thesis
  proof (cases ?first)
    case (Some pid)
    from holder_Some [OF this] have "marker_holds alive p ?h s pid" .
    with Some show ?thesis by (auto simp: live_def Let_def evidence_order_def)
  next
    case None
    then have m: "\<not> marker_holds alive p ?h s pid" for pid by (simp add: holder_None)
    note first = None
    show ?thesis
    proof (cases "pb_ok p")
      case False
      with first m show ?thesis by (simp add: live_def Let_def evidence_order_def recent_iff)
    next
      case ok: True
      show ?thesis
      proof (cases ?opened)
        case (Some opened)
        obtain pr f where "opened = (pr, f)" by fastforce
        with Some opened_Some [of s ?mine pr f] have "pr \<in> set ?mine" "holds_open s pr" by auto
        with first m ok Some \<open>opened = (pr, f)\<close> show ?thesis by (auto simp: live_def Let_def evidence_order_def)
      next
        case None
        then have "\<forall>pr \<in> set ?mine. \<not> holds_open s pr" by (simp only: opened_None)
        then have o: "\<not> (\<exists>pr \<in> set ?mine. holds_open s pr)" by simp
        note now = first m ok None o
        show ?thesis
        proof (cases "?mine = [] \<or> ls_cwd s = []")
          case True
          with now show ?thesis by (auto simp: live_def Let_def evidence_order_def recent_iff in_dir_def)
        next
          case False
          then have mine: "?mine \<noteq> []" and cwd: "ls_cwd s \<noteq> []" by auto
          show ?thesis
          proof (cases ?here)
            case (Some pr)
            with find_SomeD [OF Some] now mine cwd show ?thesis
              by (auto simp: live_def Let_def evidence_order_def cwd_loop_spec)
          next
            case here: None
            then have n: "\<not> (\<exists>pr \<in> set ?mine. in_dir s pr \<and> \<not> serves_other p s pr)" by (simp add: find_None_iff)
            show ?thesis
            proof (cases "filter (in_dir s) ?mine = []")
              case True
              then have "\<not> (\<exists>pr \<in> set ?mine. in_dir s pr)" by (simp add: filter_empty_conv)
              with here now mine cwd True n show ?thesis
                by (auto simp: live_def Let_def evidence_order_def cwd_loop_spec recent_iff)
            next
              case False
              then have "\<exists>pr \<in> set ?mine. in_dir s pr" by (auto simp: filter_empty_conv)
              with here now mine cwd False n show ?thesis
                by (auto simp: live_def Let_def evidence_order_def cwd_loop_spec)
            qed
          qed
        qed
      qed
    qed
  qed
qed

end
