(* ===== verification/Agent_Events.thy ===== *)
theory Agent_Events
  imports Json_Struct Run_State
begin

text \<open>
  The event stream of a run: event types, the event and its payloads (\<open>model/agent_event.go\<close>) and
  how a payload is put into an event and taken out again (\<open>model/event_payload.go\<close>).

  Enumerations whose values other programs may extend are strings, as in the code. A payload's
  JSON is written and read field by field, in the order of the struct.
\<close>

section \<open>Events\<close>

datatype agent_event_type =
    EvRunStarted | EvRunStateChanged | EvTurnStarted | EvTurnCompleted | EvContentDelta
  | EvToolStarted | EvToolCompleted | EvApprovalRequired | EvApprovalResolved | EvHookExecuted
  | EvUsageUpdated | EvContextUpdated | EvLimitsUpdated | EvAccountUpdated | EvContextCompacted | EvError
  | OtherEvent string

fun event_type_text :: "agent_event_type \<Rightarrow> string" where
  "event_type_text EvRunStarted = ''run.started''"
| "event_type_text EvRunStateChanged = ''run.state_changed''"
| "event_type_text EvTurnStarted = ''turn.started''"
| "event_type_text EvTurnCompleted = ''turn.completed''"
| "event_type_text EvContentDelta = ''content.delta''"
| "event_type_text EvToolStarted = ''tool.started''"
| "event_type_text EvToolCompleted = ''tool.completed''"
| "event_type_text EvApprovalRequired = ''approval.required''"
| "event_type_text EvApprovalResolved = ''approval.resolved''"
| "event_type_text EvHookExecuted = ''hook.executed''"
| "event_type_text EvUsageUpdated = ''usage.updated''"
| "event_type_text EvContextUpdated = ''context.updated''"
| "event_type_text EvLimitsUpdated = ''limits.updated''"
| "event_type_text EvAccountUpdated = ''account.updated''"
| "event_type_text EvContextCompacted = ''context.compacted''"
| "event_type_text EvError = ''error''"
| "event_type_text (OtherEvent s) = s"

text \<open>A payload is the text of a JSON value, empty when there is none.\<close>

record agent_event =
  ae_id :: string
  ae_type :: agent_event_type
  ae_run_id :: string
  ae_chat_id :: string
  ae_agent_id :: string
  ae_timestamp :: int        \<comment> \<open>nanoseconds since Go's zero time, so that \<open>IsZero\<close> is 0\<close>
  ae_payload :: string

section \<open>Payloads\<close>

record run_started_payload =
  rsp_agent_id :: string
  rsp_agent_version_id :: string
  rsp_user_message_id :: string

record turn_started_payload =
  tsp_turn_index :: int
  tsp_model :: string
  tsp_origin :: string
  tsp_task_id :: string

definition turn_origin_background :: string where
  "turn_origin_background = ''background''"

record turn_completed_payload =
  tcp_turn_index :: int
  tcp_tool_count :: int
  tcp_has_output :: bool
  tcp_stop_reason :: string

record content_delta_payload =
  cdp_kind :: string
  cdp_delta :: string
  cdp_subagent_id :: string

definition content_delta_text :: string where "content_delta_text = ''text''"
definition content_delta_reasoning :: string where "content_delta_reasoning = ''reasoning''"

record tool_started_payload =
  tst_tool_invocation_id :: string
  tst_tool_name :: string
  tst_tool_type :: string
  tst_display_name :: string
  tst_arguments :: string_encoded_map
  tst_subagent_id :: string

record tool_completed_payload =
  tco_tool_invocation_id :: string
  tco_tool_name :: string
  tco_status :: string
  tco_result :: string
  tco_duration_ms :: int
  tco_subagent_id :: string

record approval_resolved_payload =
  arp_tool_invocation_id :: string
  arp_tool_name :: string
  arp_decision :: string
  arp_reason :: string

record hook_executed_payload =
  hep_hook_event :: string
  hep_decision :: string
  hep_reason :: string
  hep_duration_ms :: int

record context_compacted_payload =
  ccp_before_tokens :: int
  ccp_after_tokens :: int

record error_payload =
  erp_message :: string
  erp_code :: string

section \<open>Writing and reading a payload\<close>

definition run_started_json :: "run_started_payload \<Rightarrow> (string \<times> json) list" where
  "run_started_json p = fld_str ''agent_id'' (rsp_agent_id p)
     @ omit_str ''agent_version_id'' (rsp_agent_version_id p) @ omit_str ''user_message_id'' (rsp_user_message_id p)"

definition turn_started_json :: "turn_started_payload \<Rightarrow> (string \<times> json) list" where
  "turn_started_json p = fld_int ''turn_index'' (tsp_turn_index p) @ omit_str ''model'' (tsp_model p)
     @ omit_str ''origin'' (tsp_origin p) @ omit_str ''task_id'' (tsp_task_id p)"

definition turn_completed_json :: "turn_completed_payload \<Rightarrow> (string \<times> json) list" where
  "turn_completed_json p = fld_int ''turn_index'' (tcp_turn_index p) @ fld_int ''tool_count'' (tcp_tool_count p)
     @ fld_bool ''has_output'' (tcp_has_output p) @ omit_str ''stop_reason'' (tcp_stop_reason p)"

definition content_delta_json :: "content_delta_payload \<Rightarrow> (string \<times> json) list" where
  "content_delta_json p = fld_str ''kind'' (cdp_kind p) @ fld_str ''delta'' (cdp_delta p)
     @ omit_str ''subagent_id'' (cdp_subagent_id p)"

definition omit_map :: "string \<Rightarrow> string_encoded_map \<Rightarrow> (string \<times> json) list" where
  "omit_map k m = (if m = [] then [] else [(k, JObj m)])"

definition tool_started_json :: "tool_started_payload \<Rightarrow> (string \<times> json) list" where
  "tool_started_json p = fld_str ''tool_invocation_id'' (tst_tool_invocation_id p) @ fld_str ''tool_name'' (tst_tool_name p)
     @ omit_str ''tool_type'' (tst_tool_type p) @ omit_str ''display_name'' (tst_display_name p)
     @ omit_map ''arguments'' (tst_arguments p) @ omit_str ''subagent_id'' (tst_subagent_id p)"

definition tool_completed_json :: "tool_completed_payload \<Rightarrow> (string \<times> json) list" where
  "tool_completed_json p = fld_str ''tool_invocation_id'' (tco_tool_invocation_id p)
     @ fld_str ''tool_name'' (tco_tool_name p) @ fld_str ''status'' (tco_status p) @ omit_str ''result'' (tco_result p)
     @ omit_int ''duration_ms'' (tco_duration_ms p) @ omit_str ''subagent_id'' (tco_subagent_id p)"

definition approval_resolved_json :: "approval_resolved_payload \<Rightarrow> (string \<times> json) list" where
  "approval_resolved_json p = fld_str ''tool_invocation_id'' (arp_tool_invocation_id p)
     @ fld_str ''tool_name'' (arp_tool_name p) @ fld_str ''decision'' (arp_decision p) @ omit_str ''reason'' (arp_reason p)"

definition hook_executed_json :: "hook_executed_payload \<Rightarrow> (string \<times> json) list" where
  "hook_executed_json p = fld_str ''hook_event'' (hep_hook_event p) @ fld_str ''decision'' (hep_decision p)
     @ omit_str ''reason'' (hep_reason p) @ omit_int ''duration_ms'' (hep_duration_ms p)"

definition context_compacted_json :: "context_compacted_payload \<Rightarrow> (string \<times> json) list" where
  "context_compacted_json p = fld_int ''before_tokens'' (ccp_before_tokens p) @ fld_int ''after_tokens'' (ccp_after_tokens p)"

definition error_payload_json :: "error_payload \<Rightarrow> (string \<times> json) list" where
  "error_payload_json p = fld_str ''message'' (erp_message p) @ omit_str ''code'' (erp_code p)"

lemmas payload_writers =
  run_started_json_def turn_started_json_def turn_completed_json_def content_delta_json_def tool_started_json_def
  tool_completed_json_def approval_resolved_json_def hook_executed_json_def context_compacted_json_def
  error_payload_json_def omit_map_def field_writers

text \<open>
  \<open>json.Unmarshal\<close> into a struct: a null leaves it as it is, an object sets the fields it names, and
  a value of the wrong kind or type is an error. A member that is a map replaces the map.
\<close>

definition conv_map :: "json \<Rightarrow> string_encoded_map option" where
  "conv_map j =
     (case sem_of_json j of
        Some m \<Rightarrow> Some m
      | None \<Rightarrow> (case j of JStr s \<Rightarrow> Option.bind (json_parse s) sem_of_json | _ \<Rightarrow> None))"

definition read_struct :: "((string \<times> json) list \<Rightarrow> 'p \<Rightarrow> 'p option) \<Rightarrow> json \<Rightarrow> 'p \<Rightarrow> 'p option" where
  "read_struct rd j old = (case j of JNull \<Rightarrow> Some old | JObj kvs \<Rightarrow> rd kvs old | _ \<Rightarrow> None)"

definition field :: "(json \<Rightarrow> 'a option) \<Rightarrow> string \<Rightarrow> (string \<times> json) list \<Rightarrow> 'a \<Rightarrow> 'a option" where
  "field conv k kvs old = (case dec_field conv k kvs old of (x, ok) \<Rightarrow> if ok then Some x else None)"

text \<open>A map field: its decoder is called for a null too, which it reads as the empty map.\<close>

fun map_field :: "string \<Rightarrow> (string \<times> json) list \<Rightarrow> string_encoded_map \<Rightarrow> string_encoded_map option" where
  "map_field k [] old = Some old"
| "map_field k ((k', j) # kvs) old =
     (if equal_fold k' k then (case conv_map j of Some m \<Rightarrow> map_field k kvs m | None \<Rightarrow> None)
      else map_field k kvs old)"

definition run_started_read :: "(string \<times> json) list \<Rightarrow> run_started_payload \<Rightarrow> run_started_payload option" where
  "run_started_read kvs p =
     (case (field conv_str ''agent_id'' kvs (rsp_agent_id p), field conv_str ''agent_version_id'' kvs (rsp_agent_version_id p),
            field conv_str ''user_message_id'' kvs (rsp_user_message_id p)) of
        (Some a, Some v, Some u) \<Rightarrow> Some \<lparr>rsp_agent_id = a, rsp_agent_version_id = v, rsp_user_message_id = u\<rparr>
      | _ \<Rightarrow> None)"

definition turn_started_read :: "(string \<times> json) list \<Rightarrow> turn_started_payload \<Rightarrow> turn_started_payload option" where
  "turn_started_read kvs p =
     (case (field conv_int ''turn_index'' kvs (tsp_turn_index p), field conv_str ''model'' kvs (tsp_model p),
            field conv_str ''origin'' kvs (tsp_origin p), field conv_str ''task_id'' kvs (tsp_task_id p)) of
        (Some i, Some m, Some og, Some t) \<Rightarrow>
          Some \<lparr>tsp_turn_index = i, tsp_model = m, tsp_origin = og, tsp_task_id = t\<rparr>
      | _ \<Rightarrow> None)"

definition turn_completed_read :: "(string \<times> json) list \<Rightarrow> turn_completed_payload \<Rightarrow> turn_completed_payload option" where
  "turn_completed_read kvs p =
     (case (field conv_int ''turn_index'' kvs (tcp_turn_index p), field conv_int ''tool_count'' kvs (tcp_tool_count p),
            field conv_bool ''has_output'' kvs (tcp_has_output p), field conv_str ''stop_reason'' kvs (tcp_stop_reason p)) of
        (Some i, Some n, Some b, Some r) \<Rightarrow>
          Some \<lparr>tcp_turn_index = i, tcp_tool_count = n, tcp_has_output = b, tcp_stop_reason = r\<rparr>
      | _ \<Rightarrow> None)"

definition content_delta_read :: "(string \<times> json) list \<Rightarrow> content_delta_payload \<Rightarrow> content_delta_payload option" where
  "content_delta_read kvs p =
     (case (field conv_str ''kind'' kvs (cdp_kind p), field conv_str ''delta'' kvs (cdp_delta p),
            field conv_str ''subagent_id'' kvs (cdp_subagent_id p)) of
        (Some k, Some d, Some s) \<Rightarrow> Some \<lparr>cdp_kind = k, cdp_delta = d, cdp_subagent_id = s\<rparr>
      | _ \<Rightarrow> None)"

definition tool_started_read :: "(string \<times> json) list \<Rightarrow> tool_started_payload \<Rightarrow> tool_started_payload option" where
  "tool_started_read kvs p =
     (case (field conv_str ''tool_invocation_id'' kvs (tst_tool_invocation_id p), field conv_str ''tool_name'' kvs (tst_tool_name p),
            field conv_str ''tool_type'' kvs (tst_tool_type p), field conv_str ''display_name'' kvs (tst_display_name p),
            map_field ''arguments'' kvs (tst_arguments p), field conv_str ''subagent_id'' kvs (tst_subagent_id p)) of
        (Some i, Some n, Some t, Some d, Some m, Some s) \<Rightarrow>
          Some \<lparr>tst_tool_invocation_id = i, tst_tool_name = n, tst_tool_type = t, tst_display_name = d,
                tst_arguments = m, tst_subagent_id = s\<rparr>
      | _ \<Rightarrow> None)"

definition tool_completed_read :: "(string \<times> json) list \<Rightarrow> tool_completed_payload \<Rightarrow> tool_completed_payload option" where
  "tool_completed_read kvs p =
     (case (field conv_str ''tool_invocation_id'' kvs (tco_tool_invocation_id p), field conv_str ''tool_name'' kvs (tco_tool_name p),
            field conv_str ''status'' kvs (tco_status p), field conv_str ''result'' kvs (tco_result p),
            field conv_int ''duration_ms'' kvs (tco_duration_ms p), field conv_str ''subagent_id'' kvs (tco_subagent_id p)) of
        (Some i, Some n, Some t, Some r, Some d, Some s) \<Rightarrow>
          Some \<lparr>tco_tool_invocation_id = i, tco_tool_name = n, tco_status = t, tco_result = r, tco_duration_ms = d,
                tco_subagent_id = s\<rparr>
      | _ \<Rightarrow> None)"

definition approval_resolved_read :: "(string \<times> json) list \<Rightarrow> approval_resolved_payload \<Rightarrow> approval_resolved_payload option" where
  "approval_resolved_read kvs p =
     (case (field conv_str ''tool_invocation_id'' kvs (arp_tool_invocation_id p), field conv_str ''tool_name'' kvs (arp_tool_name p),
            field conv_str ''decision'' kvs (arp_decision p), field conv_str ''reason'' kvs (arp_reason p)) of
        (Some i, Some n, Some d, Some r) \<Rightarrow>
          Some \<lparr>arp_tool_invocation_id = i, arp_tool_name = n, arp_decision = d, arp_reason = r\<rparr>
      | _ \<Rightarrow> None)"

definition hook_executed_read :: "(string \<times> json) list \<Rightarrow> hook_executed_payload \<Rightarrow> hook_executed_payload option" where
  "hook_executed_read kvs p =
     (case (field conv_str ''hook_event'' kvs (hep_hook_event p), field conv_str ''decision'' kvs (hep_decision p),
            field conv_str ''reason'' kvs (hep_reason p), field conv_int ''duration_ms'' kvs (hep_duration_ms p)) of
        (Some e, Some d, Some r, Some n) \<Rightarrow>
          Some \<lparr>hep_hook_event = e, hep_decision = d, hep_reason = r, hep_duration_ms = n\<rparr>
      | _ \<Rightarrow> None)"

definition context_compacted_read :: "(string \<times> json) list \<Rightarrow> context_compacted_payload \<Rightarrow> context_compacted_payload option" where
  "context_compacted_read kvs p =
     (case (field conv_int ''before_tokens'' kvs (ccp_before_tokens p), field conv_int ''after_tokens'' kvs (ccp_after_tokens p)) of
        (Some b, Some a) \<Rightarrow> Some \<lparr>ccp_before_tokens = b, ccp_after_tokens = a\<rparr>
      | _ \<Rightarrow> None)"

definition error_payload_read :: "(string \<times> json) list \<Rightarrow> error_payload \<Rightarrow> error_payload option" where
  "error_payload_read kvs p =
     (case (field conv_str ''message'' kvs (erp_message p), field conv_str ''code'' kvs (erp_code p)) of
        (Some m, Some c) \<Rightarrow> Some \<lparr>erp_message = m, erp_code = c\<rparr>
      | _ \<Rightarrow> None)"

lemmas payload_readers =
  run_started_read_def turn_started_read_def turn_completed_read_def content_delta_read_def tool_started_read_def
  tool_completed_read_def approval_resolved_read_def hook_executed_read_def context_compacted_read_def
  error_payload_read_def

section \<open>Events and payloads (event\_payload.go)\<close>

definition decode_payload :: "((string \<times> json) list \<Rightarrow> 'p \<Rightarrow> 'p option) \<Rightarrow> agent_event \<Rightarrow> 'p \<Rightarrow> 'p option" where
  "decode_payload rd e v =
     (if ae_payload e = [] then Some v
      else (case json_parse (ae_payload e) of None \<Rightarrow> None | Some j \<Rightarrow> read_struct rd j v))"

definition payload_as :: "((string \<times> json) list \<Rightarrow> 'p \<Rightarrow> 'p option) \<Rightarrow> 'p \<Rightarrow> agent_event \<Rightarrow> agent_event_type \<Rightarrow> 'p option" where
  "payload_as rd zero e want = (if ae_type e \<noteq> want then None else decode_payload rd e zero)"

text \<open>The payload is given as its JSON; the time is an argument. A payload that cannot be encoded is none.\<close>

definition new_event :: "agent_event_type \<Rightarrow> string \<Rightarrow> string \<Rightarrow> int \<Rightarrow> json option \<Rightarrow> agent_event" where
  "new_event typ run_id chat_id now payload =
     \<lparr>ae_id = [], ae_type = typ, ae_run_id = run_id, ae_chat_id = chat_id, ae_agent_id = [], ae_timestamp = now,
      ae_payload = (case payload of None \<Rightarrow> [] | Some j \<Rightarrow> json_print j)\<rparr>"

section \<open>What is put in comes out\<close>

text \<open>A payload's writer and reader, with the payloads they are made for.\<close>

locale payload_codec =
  fixes js :: "'p \<Rightarrow> (string \<times> json) list"
    and rd :: "(string \<times> json) list \<Rightarrow> 'p \<Rightarrow> 'p option"
    and zero :: 'p
    and ok :: "'p \<Rightarrow> bool"
  assumes read_written: "ok p \<Longrightarrow> rd (js p) zero = Some p"
    and written_ok: "ok p \<Longrightarrow> json_ok (JObj (js p))"
begin

lemma payload_back:
  "ok p \<Longrightarrow> payload_as rd zero (new_event typ run chat now (Some (JObj (js p)))) typ = Some p"
  using json_parse_print [OF written_ok] read_written
  by (simp add: payload_as_def new_event_def decode_payload_def read_struct_def)

lemma other_type: "want \<noteq> typ \<Longrightarrow> payload_as rd zero (new_event typ run chat now payload) want = None"
  by (simp add: payload_as_def new_event_def)

lemma no_payload: "payload_as rd zero (new_event typ run chat now None) typ = Some zero"
  by (simp add: payload_as_def new_event_def decode_payload_def)

end

text \<open>Keys of structs are lower case, and a key only matches itself then.\<close>

lemma field_hit:
  "conv j = Some x \<Longrightarrow> j \<noteq> JNull \<Longrightarrow> field conv k ((k, j) # kvs) old = field conv k kvs x"
  by (simp add: field_def)

lemma field_skip: "\<not> equal_fold k' k \<Longrightarrow> field conv k ((k', j) # kvs) old = field conv k kvs old"
  by (simp add: field_def)

lemma field_Nil: "field conv k [] old = Some old"
  by (simp add: field_def)

lemma conv_map_ok: "sem_ok m \<Longrightarrow> conv_map (JObj m) = Some m"
  by (simp add: conv_map_def sem_of_json_def map_of_object_ok)

lemma conv_int_show: "int64_ok i \<Longrightarrow> conv_int (JNum (show_int i)) = Some i"
  by (simp add: conv_int_def parse_show_int64)

lemma int64_ok_0 [simp]: "int64_ok 0"
  by (simp add: int64_ok_def)

lemmas key_eval = equal_fold_no_upper no_upper_def in_range_def byte_def

lemmas field_eval =
  field_hit field_skip field_Nil conv_int_show conv_map_ok conv_str_def conv_bool_def key_eval

definition no_run_started :: run_started_payload where
  "no_run_started = \<lparr>rsp_agent_id = [], rsp_agent_version_id = [], rsp_user_message_id = []\<rparr>"

definition run_started_ok :: "run_started_payload \<Rightarrow> bool" where
  "run_started_ok p \<longleftrightarrow> valid_utf8 (rsp_agent_id p) \<and> valid_utf8 (rsp_agent_version_id p) \<and> valid_utf8 (rsp_user_message_id p)"

interpretation run_started_codec: payload_codec run_started_json run_started_read no_run_started run_started_ok
  by unfold_locales
    (auto simp: run_started_ok_def no_run_started_def run_started_json_def run_started_read_def payload_writers field_eval sem_ok_def byte_def)

definition no_turn_started :: turn_started_payload where
  "no_turn_started = \<lparr>tsp_turn_index = 0, tsp_model = [], tsp_origin = [], tsp_task_id = []\<rparr>"

definition turn_started_ok :: "turn_started_payload \<Rightarrow> bool" where
  "turn_started_ok p \<longleftrightarrow> int64_ok (tsp_turn_index p) \<and> valid_utf8 (tsp_model p) \<and> valid_utf8 (tsp_origin p) \<and> valid_utf8 (tsp_task_id p)"

interpretation turn_started_codec: payload_codec turn_started_json turn_started_read no_turn_started turn_started_ok
  by unfold_locales
    (auto simp: turn_started_ok_def no_turn_started_def turn_started_json_def turn_started_read_def payload_writers field_eval sem_ok_def byte_def)

definition no_turn_completed :: turn_completed_payload where
  "no_turn_completed = \<lparr>tcp_turn_index = 0, tcp_tool_count = 0, tcp_has_output = False, tcp_stop_reason = []\<rparr>"

definition turn_completed_ok :: "turn_completed_payload \<Rightarrow> bool" where
  "turn_completed_ok p \<longleftrightarrow> int64_ok (tcp_turn_index p) \<and> int64_ok (tcp_tool_count p) \<and> valid_utf8 (tcp_stop_reason p)"

interpretation turn_completed_codec: payload_codec turn_completed_json turn_completed_read no_turn_completed turn_completed_ok
  by unfold_locales
    (auto simp: turn_completed_ok_def no_turn_completed_def turn_completed_json_def turn_completed_read_def payload_writers field_eval sem_ok_def byte_def)

definition no_content_delta :: content_delta_payload where
  "no_content_delta = \<lparr>cdp_kind = [], cdp_delta = [], cdp_subagent_id = []\<rparr>"

definition content_delta_ok :: "content_delta_payload \<Rightarrow> bool" where
  "content_delta_ok p \<longleftrightarrow> valid_utf8 (cdp_kind p) \<and> valid_utf8 (cdp_delta p) \<and> valid_utf8 (cdp_subagent_id p)"

interpretation content_delta_codec: payload_codec content_delta_json content_delta_read no_content_delta content_delta_ok
  by unfold_locales
    (auto simp: content_delta_ok_def no_content_delta_def content_delta_json_def content_delta_read_def payload_writers field_eval sem_ok_def byte_def)

definition no_tool_started :: tool_started_payload where
  "no_tool_started = \<lparr>tst_tool_invocation_id = [], tst_tool_name = [], tst_tool_type = [], tst_display_name = [], tst_arguments = [], tst_subagent_id = []\<rparr>"

definition tool_started_ok :: "tool_started_payload \<Rightarrow> bool" where
  "tool_started_ok p \<longleftrightarrow> valid_utf8 (tst_tool_invocation_id p) \<and> valid_utf8 (tst_tool_name p) \<and> valid_utf8 (tst_tool_type p) \<and> valid_utf8 (tst_display_name p) \<and> sem_ok (tst_arguments p) \<and> valid_utf8 (tst_subagent_id p)"

interpretation tool_started_codec: payload_codec tool_started_json tool_started_read no_tool_started tool_started_ok
  by unfold_locales
    (auto simp: tool_started_ok_def no_tool_started_def tool_started_json_def tool_started_read_def payload_writers field_eval sem_ok_def byte_def)

definition no_tool_completed :: tool_completed_payload where
  "no_tool_completed = \<lparr>tco_tool_invocation_id = [], tco_tool_name = [], tco_status = [], tco_result = [], tco_duration_ms = 0, tco_subagent_id = []\<rparr>"

definition tool_completed_ok :: "tool_completed_payload \<Rightarrow> bool" where
  "tool_completed_ok p \<longleftrightarrow> valid_utf8 (tco_tool_invocation_id p) \<and> valid_utf8 (tco_tool_name p) \<and> valid_utf8 (tco_status p) \<and> valid_utf8 (tco_result p) \<and> int64_ok (tco_duration_ms p) \<and> valid_utf8 (tco_subagent_id p)"

interpretation tool_completed_codec: payload_codec tool_completed_json tool_completed_read no_tool_completed tool_completed_ok
  by unfold_locales
    (auto simp: tool_completed_ok_def no_tool_completed_def tool_completed_json_def tool_completed_read_def payload_writers field_eval sem_ok_def byte_def)

definition no_approval_resolved :: approval_resolved_payload where
  "no_approval_resolved = \<lparr>arp_tool_invocation_id = [], arp_tool_name = [], arp_decision = [], arp_reason = []\<rparr>"

definition approval_resolved_ok :: "approval_resolved_payload \<Rightarrow> bool" where
  "approval_resolved_ok p \<longleftrightarrow> valid_utf8 (arp_tool_invocation_id p) \<and> valid_utf8 (arp_tool_name p) \<and> valid_utf8 (arp_decision p) \<and> valid_utf8 (arp_reason p)"

interpretation approval_resolved_codec: payload_codec approval_resolved_json approval_resolved_read no_approval_resolved approval_resolved_ok
  by unfold_locales
    (auto simp: approval_resolved_ok_def no_approval_resolved_def approval_resolved_json_def approval_resolved_read_def payload_writers field_eval sem_ok_def byte_def)

definition no_hook_executed :: hook_executed_payload where
  "no_hook_executed = \<lparr>hep_hook_event = [], hep_decision = [], hep_reason = [], hep_duration_ms = 0\<rparr>"

definition hook_executed_ok :: "hook_executed_payload \<Rightarrow> bool" where
  "hook_executed_ok p \<longleftrightarrow> valid_utf8 (hep_hook_event p) \<and> valid_utf8 (hep_decision p) \<and> valid_utf8 (hep_reason p) \<and> int64_ok (hep_duration_ms p)"

interpretation hook_executed_codec: payload_codec hook_executed_json hook_executed_read no_hook_executed hook_executed_ok
  by unfold_locales
    (auto simp: hook_executed_ok_def no_hook_executed_def hook_executed_json_def hook_executed_read_def payload_writers field_eval sem_ok_def byte_def)

definition no_context_compacted :: context_compacted_payload where
  "no_context_compacted = \<lparr>ccp_before_tokens = 0, ccp_after_tokens = 0\<rparr>"

definition context_compacted_ok :: "context_compacted_payload \<Rightarrow> bool" where
  "context_compacted_ok p \<longleftrightarrow> int64_ok (ccp_before_tokens p) \<and> int64_ok (ccp_after_tokens p)"

interpretation context_compacted_codec: payload_codec context_compacted_json context_compacted_read no_context_compacted context_compacted_ok
  by unfold_locales
    (auto simp: context_compacted_ok_def no_context_compacted_def context_compacted_json_def context_compacted_read_def payload_writers field_eval sem_ok_def byte_def)

definition no_error_payload :: error_payload where
  "no_error_payload = \<lparr>erp_message = [], erp_code = []\<rparr>"

definition error_payload_ok :: "error_payload \<Rightarrow> bool" where
  "error_payload_ok p \<longleftrightarrow> valid_utf8 (erp_message p) \<and> valid_utf8 (erp_code p)"

interpretation error_payload_codec: payload_codec error_payload_json error_payload_read no_error_payload error_payload_ok
  by unfold_locales
    (auto simp: error_payload_ok_def no_error_payload_def error_payload_json_def error_payload_read_def payload_writers field_eval sem_ok_def byte_def)

definition sample_tool_started :: tool_started_payload where
  "sample_tool_started = \<lparr>tst_tool_invocation_id = ''t1'', tst_tool_name = ''Read'', tst_tool_type = [], tst_display_name = [],
     tst_arguments = [(''path'', JStr ''a'')], tst_subagent_id = []\<rparr>"

lemma no_payloads_ok:
  "run_started_ok no_run_started" "turn_started_ok no_turn_started" "turn_completed_ok no_turn_completed"
  "content_delta_ok no_content_delta" "tool_completed_ok no_tool_completed" "approval_resolved_ok no_approval_resolved"
  "hook_executed_ok no_hook_executed" "context_compacted_ok no_context_compacted" "error_payload_ok no_error_payload"
  by (simp_all add: run_started_ok_def no_run_started_def turn_started_ok_def no_turn_started_def turn_completed_ok_def
      no_turn_completed_def content_delta_ok_def no_content_delta_def tool_completed_ok_def no_tool_completed_def
      approval_resolved_ok_def no_approval_resolved_def hook_executed_ok_def no_hook_executed_def
      context_compacted_ok_def no_context_compacted_def error_payload_ok_def no_error_payload_def)

lemma sample_tool_started_ok: "tool_started_ok sample_tool_started"
  by (simp add: tool_started_ok_def sample_tool_started_def sem_ok_def byte_def)

end
