(* ===== verification/Session_Events.thy ===== *)
theory Session_Events
  imports Agent_Events Transcript
begin

text \<open>
  A session as the event stream every other consumer reads (\<open>transcript/events.go\<close>): the projector
  and its steps, and the reading of a session as turns they are proved to give.
\<close>

section \<open>The projector\<close>

record projector =
  pj_out :: "agent_event list"
  pj_turn :: int
  pj_open :: bool
  pj_tools :: int
  pj_has_output :: bool

definition start_projector :: projector where
  "start_projector = \<lparr>pj_out = [], pj_turn = -1, pj_open = False, pj_tools = 0, pj_has_output = False\<rparr>"

definition event_of :: "'v session \<Rightarrow> agent_event_type \<times> int \<times> (string \<times> json) list \<Rightarrow> agent_event" where
  "event_of s e =
     (case e of (t, at, payload) \<Rightarrow>
        \<lparr>ae_id = [], ae_type = t, ae_run_id = [], ae_chat_id = s_id s, ae_agent_id = s_agent s, ae_timestamp = at,
         ae_payload = json_print (JObj payload)\<rparr>)"

definition emit :: "'v session \<Rightarrow> agent_event_type \<Rightarrow> int \<Rightarrow> (string \<times> json) list \<Rightarrow> projector \<Rightarrow> projector" where
  "emit s t at payload p = p\<lparr>pj_out := pj_out p @ [event_of s (t, at, payload)]\<rparr>"

definition tool_status :: "call_status \<Rightarrow> string" where
  "tool_status s = (if s = StatusError then ''failed'' else ''completed'')"

text \<open>Input that is an object is its map, a null is none, and anything else goes under one key.\<close>

definition arguments_map :: "string \<Rightarrow> string_encoded_map" where
  "arguments_map raw =
     (if raw = [] then []
      else (case json_parse raw of
              Some (JObj kvs) \<Rightarrow> map_of_object kvs
            | Some JNull \<Rightarrow> []
            | _ \<Rightarrow> [(''input'', JStr raw)]))"

definition completed_payload :: "int \<Rightarrow> int \<Rightarrow> bool \<Rightarrow> (string \<times> json) list" where
  "completed_payload turn tools out =
     turn_completed_json \<lparr>tcp_turn_index = turn, tcp_tool_count = tools, tcp_has_output = out, tcp_stop_reason = []\<rparr>"

definition started_payload :: "int \<Rightarrow> (string \<times> json) list" where
  "started_payload turn = turn_started_json \<lparr>tsp_turn_index = turn, tsp_model = [], tsp_origin = [], tsp_task_id = []\<rparr>"

definition delta_payload :: "string \<Rightarrow> string \<Rightarrow> (string \<times> json) list" where
  "delta_payload kind delta = content_delta_json \<lparr>cdp_kind = kind, cdp_delta = delta, cdp_subagent_id = []\<rparr>"

definition call_payload :: "block \<Rightarrow> (string \<times> json) list" where
  "call_payload b = tool_started_json
     \<lparr>tst_tool_invocation_id = b_tool_id b, tst_tool_name = b_name b, tst_tool_type = [], tst_display_name = [],
      tst_arguments = arguments_map (b_input b), tst_subagent_id = []\<rparr>"

definition result_payload :: "block \<Rightarrow> (string \<times> json) list" where
  "result_payload b = tool_completed_json
     \<lparr>tco_tool_invocation_id = b_tool_id b, tco_tool_name = b_name b, tco_status = tool_status (b_status b),
      tco_result = b_text b, tco_duration_ms = 0, tco_subagent_id = []\<rparr>"

definition close_turn :: "'v session \<Rightarrow> int \<Rightarrow> projector \<Rightarrow> projector" where
  "close_turn s at p =
     (if \<not> pj_open p then p
      else (emit s EvTurnCompleted at (completed_payload (pj_turn p) (pj_tools p) (pj_has_output p)) p)\<lparr>pj_open := False\<rparr>)"

definition assistant_block :: "'v session \<Rightarrow> int \<Rightarrow> block \<Rightarrow> projector \<Rightarrow> projector" where
  "assistant_block s at b p =
     (case b_kind b of
        BlockText \<Rightarrow>
          if b_text b \<noteq> [] then emit s EvContentDelta at (delta_payload content_delta_text (b_text b)) (p\<lparr>pj_has_output := True\<rparr>)
          else p
      | BlockReasoning \<Rightarrow>
          if b_text b \<noteq> [] then emit s EvContentDelta at (delta_payload content_delta_reasoning (b_text b)) p else p
      | BlockToolUse \<Rightarrow> emit s EvToolStarted at (call_payload b) (p\<lparr>pj_tools := pj_tools p + 1\<rparr>)
      | _ \<Rightarrow> p)"

definition tool_block :: "'v session \<Rightarrow> int \<Rightarrow> block \<Rightarrow> projector \<Rightarrow> projector" where
  "tool_block s at b p =
     (if b_kind b \<noteq> BlockToolResult then p else emit s EvToolCompleted at (result_payload b) p)"

definition project_entry :: "'v session \<Rightarrow> projector \<Rightarrow> entry \<Rightarrow> projector" where
  "project_entry s p e =
     (case e_role e of
        RoleUser \<Rightarrow>
          let p = close_turn s (e_time e) p;
              p = p\<lparr>pj_turn := pj_turn p + 1, pj_tools := 0, pj_has_output := False, pj_open := True\<rparr>
          in emit s EvTurnStarted (e_time e) (started_payload (pj_turn p)) p
      | RoleAssistant \<Rightarrow> foldl (\<lambda>p b. assistant_block s (e_time e) b p) p (e_content e)
      | RoleTool \<Rightarrow> foldl (\<lambda>p b. tool_block s (e_time e) b p) p (e_content e)
      | _ \<Rightarrow> p)"

definition session_events :: "'v session \<Rightarrow> agent_event list" where
  "session_events s =
     (let entries = linearize s;
          p = foldl (project_entry s) start_projector entries
      in pj_out (if entries \<noteq> [] then close_turn s (e_time (last entries)) p else p))"

section \<open>A session as turns\<close>

text \<open>What one entry says, whatever turn it is in; how many tools it calls and whether it has output.\<close>

definition block_events :: "int \<Rightarrow> block \<Rightarrow> (agent_event_type \<times> int \<times> (string \<times> json) list) list" where
  "block_events at b =
     (case b_kind b of
        BlockText \<Rightarrow> if b_text b = [] then [] else [(EvContentDelta, at, delta_payload content_delta_text (b_text b))]
      | BlockReasoning \<Rightarrow> if b_text b = [] then [] else [(EvContentDelta, at, delta_payload content_delta_reasoning (b_text b))]
      | BlockToolUse \<Rightarrow> [(EvToolStarted, at, call_payload b)]
      | _ \<Rightarrow> [])"

definition entry_events :: "entry \<Rightarrow> (agent_event_type \<times> int \<times> (string \<times> json) list) list" where
  "entry_events e =
     (if e_role e = RoleAssistant then concat (map (block_events (e_time e)) (e_content e))
      else if e_role e = RoleTool
        then map (\<lambda>b. (EvToolCompleted, e_time e, result_payload b)) (filter (\<lambda>b. b_kind b = BlockToolResult) (e_content e))
      else [])"

definition entry_calls :: "entry \<Rightarrow> int" where
  "entry_calls e = (if e_role e = RoleAssistant then int (length (filter (\<lambda>b. b_kind b = BlockToolUse) (e_content e))) else 0)"

definition entry_output :: "entry \<Rightarrow> bool" where
  "entry_output e \<longleftrightarrow> e_role e = RoleAssistant \<and> (\<exists>b \<in> set (e_content e). b_kind b = BlockText \<and> b_text b \<noteq> [])"

definition no_prompt :: "entry \<Rightarrow> bool" where
  "no_prompt e \<longleftrightarrow> e_role e \<noteq> RoleUser"

text \<open>
  The turns of a list that starts with a prompt, or is empty: started, what its entries say, and
  completed when the next prompt comes or at the end.
\<close>

function turn_events :: "int \<Rightarrow> int \<Rightarrow> entry list \<Rightarrow> (agent_event_type \<times> int \<times> (string \<times> json) list) list" where
  "turn_events fin i [] = []"
| "turn_events fin i (u # es) =
     (let body = takeWhile no_prompt es; rest = dropWhile no_prompt es in
      (EvTurnStarted, e_time u, started_payload i) # concat (map entry_events body)
      @ (EvTurnCompleted, (case rest of [] \<Rightarrow> fin | v # _ \<Rightarrow> e_time v),
          completed_payload i (sum_list (map entry_calls body)) (list_ex entry_output body))
      # turn_events fin (i + 1) rest)"
  by pat_completeness auto
termination
  by (relation "measure (\<lambda>(_, _, es). length es)") (auto simp: le_imp_less_Suc length_dropWhile_le)

declare turn_events.simps(2) [simp del]

lemma emit_sel [simp]:
  "pj_out (emit s t at pl p) = pj_out p @ [event_of s (t, at, pl)]" "pj_turn (emit s t at pl p) = pj_turn p"
  "pj_open (emit s t at pl p) = pj_open p" "pj_tools (emit s t at pl p) = pj_tools p"
  "pj_has_output (emit s t at pl p) = pj_has_output p"
  by (simp_all add: emit_def)

text \<open>What a step leaves of the projector, as an equation of its fields.\<close>

definition after :: "'v session \<Rightarrow> projector \<Rightarrow> (agent_event_type \<times> int \<times> (string \<times> json) list) list \<Rightarrow> int \<Rightarrow> bool \<Rightarrow> projector" where
  "after s p evs calls out =
     p\<lparr>pj_out := pj_out p @ map (event_of s) evs, pj_tools := pj_tools p + calls, pj_has_output := pj_has_output p \<or> out\<rparr>"

lemma after_after: "after s (after s p e1 c1 o1) e2 c2 o2 = after s p (e1 @ e2) (c1 + c2) (o1 \<or> o2)"
  by (simp add: after_def)

lemma after_none [simp]: "after s p [] 0 False = p"
  by (simp add: after_def)

lemma assistant_block_after:
  "assistant_block s at b p = after s p (block_events at b) (if b_kind b = BlockToolUse then 1 else 0)
     (b_kind b = BlockText \<and> b_text b \<noteq> [])"
  by (simp add: assistant_block_def block_events_def after_def emit_def split: block_kind.split)

lemma tool_block_after:
  "tool_block s at b p = after s p (if b_kind b = BlockToolResult then [(EvToolCompleted, at, result_payload b)] else []) 0 False"
  by (simp add: tool_block_def after_def emit_def)

lemma assistant_blocks_after:
  "foldl (\<lambda>p b. assistant_block s at b p) p bs =
   after s p (concat (map (block_events at) bs)) (int (length (filter (\<lambda>b. b_kind b = BlockToolUse) bs)))
     (\<exists>b \<in> set bs. b_kind b = BlockText \<and> b_text b \<noteq> [])"
proof (induction bs arbitrary: p)
  case (Cons b bs)
  show ?case
    using Cons.IH [of "assistant_block s at b p"] by (auto simp: assistant_block_after after_after)
qed simp

lemma tool_blocks_after:
  "foldl (\<lambda>p b. tool_block s at b p) p bs =
   after s p (map (\<lambda>b. (EvToolCompleted, at, result_payload b)) (filter (\<lambda>b. b_kind b = BlockToolResult) bs)) 0 False"
  by (induction bs arbitrary: p) (simp_all add: tool_block_after after_after)

lemma project_entry_after:
  "no_prompt e \<Longrightarrow> project_entry s p e = after s p (entry_events e) (entry_calls e) (entry_output e)"
  by (simp add: project_entry_def no_prompt_def entry_events_def entry_calls_def entry_output_def
      assistant_blocks_after tool_blocks_after split: role.split)

lemma after_sel [simp]:
  "pj_out (after s p evs n b) = pj_out p @ map (event_of s) evs" "pj_turn (after s p evs n b) = pj_turn p"
  "pj_open (after s p evs n b) = pj_open p" "pj_tools (after s p evs n b) = pj_tools p + n"
  "pj_has_output (after s p evs n b) \<longleftrightarrow> pj_has_output p \<or> b"
  by (simp_all add: after_def)

text \<open>The end of the open turn, as the rest of the entries decides it.\<close>

definition turn_end :: "int \<Rightarrow> projector \<Rightarrow> entry list \<Rightarrow> (agent_event_type \<times> int \<times> (string \<times> json) list) list" where
  "turn_end fin p es =
     (if pj_open p
      then [(EvTurnCompleted, (case dropWhile no_prompt es of [] \<Rightarrow> fin | v # _ \<Rightarrow> e_time v),
             completed_payload (pj_turn p) (pj_tools p + sum_list (map entry_calls (takeWhile no_prompt es)))
               (pj_has_output p \<or> list_ex entry_output (takeWhile no_prompt es)))]
      else [])"

lemma turn_end_skip:
  "no_prompt e \<Longrightarrow> turn_end fin p (e # es) = turn_end fin (after s p (entry_events e) (entry_calls e) (entry_output e)) es"
  by (simp add: turn_end_def add.assoc disj_assoc)

lemma close_turn_out:
  "pj_out (close_turn s fin p) = pj_out p @ map (event_of s) (turn_end fin p [])"
  by (simp add: close_turn_def turn_end_def)

lemma projected:
  "pj_out (close_turn s fin (foldl (project_entry s) p es)) =
   pj_out p @ map (event_of s)
     (concat (map entry_events (takeWhile no_prompt es)) @ turn_end fin p es
      @ turn_events fin (pj_turn p + 1) (dropWhile no_prompt es))"
proof (induction es arbitrary: p)
  case Nil
  then show ?case by (simp add: close_turn_out)
next
  case (Cons e es)
  show ?case
  proof (cases "no_prompt e")
    case True
    show ?thesis
      using True Cons.IH [of "project_entry s p e"]
      by (simp add: project_entry_after turn_end_skip [where s = s])
  next
    case False
    then have user: "e_role e = RoleUser" by (simp add: no_prompt_def)
    let ?q = "project_entry s p e"
    have q: "pj_turn ?q = pj_turn p + 1" "pj_open ?q" "pj_tools ?q = 0" "\<not> pj_has_output ?q"
      "pj_out ?q = pj_out p @ map (event_of s) (turn_end fin p (e # es) @ [(EvTurnStarted, e_time e, started_payload (pj_turn p + 1))])"
      using user False by (simp_all add: project_entry_def Let_def close_turn_def turn_end_def)
    have "turn_events fin (pj_turn p + 1) (e # es) =
        (EvTurnStarted, e_time e, started_payload (pj_turn p + 1)) # concat (map entry_events (takeWhile no_prompt es))
        @ turn_end fin ?q es @ turn_events fin (pj_turn ?q + 1) (dropWhile no_prompt es)"
      by (simp add: turn_events.simps(2) Let_def turn_end_def q)
    then show ?thesis
      using False Cons.IH [of ?q] by (simp add: q)
  qed
qed

text \<open>C22. A session's events are its turns: after what is said before the first prompt, each prompt starts
  the next turn, the turn says what its entries say in their order, and it is completed exactly once, when
  the next prompt comes or at the end, with the number of its tool calls and whether it had output.\<close>

theorem events_by_turn:
  "session_events s =
     (let es = linearize s in
      map (event_of s) (concat (map entry_events (takeWhile no_prompt es))
        @ turn_events (if es = [] then 0 else e_time (last es)) 0 (dropWhile no_prompt es)))"
proof (cases "linearize s = []")
  case True
  then show ?thesis by (simp add: session_events_def start_projector_def)
next
  case False
  then show ?thesis
    using projected [of s "e_time (last (linearize s))" start_projector "linearize s"]
    by (simp add: session_events_def Let_def turn_end_def start_projector_def)
qed

end
