(* ===== verification/Event_Pump.thy ===== *)
theory Event_Pump
  imports Prelude
begin

text \<open>
  The event pump between a driver and its consumer (\<open>driver/events.go\<close>): a queue that the producer
  appends to without ever blocking, and a goroutine that hands it out.

  Each mutex section and each channel operation is one step; the steps of the producer, of the
  goroutine and of the consumer come in any order. \<open>pm_signals\<close> counts the calls that have left
  their mutex section and not yet signalled. \<open>pm_out\<close> is what the consumer received, and
  \<open>pm_accepted\<close> records every event a push appended.
\<close>

section \<open>The pump\<close>

datatype pump_place = AtLoop | InBatch | AtSelect | Finished

record 'e pump =
  pm_queue :: "'e list"
  pm_ended :: bool
  pm_wake :: bool
  pm_stopped :: bool
  pm_signals :: nat
  pm_place :: pump_place
  pm_batch :: "'e list"
  pm_had :: bool
  pm_saw_end :: bool
  pm_out :: "'e list"
  pm_accepted :: "'e list"

definition new_event_pump :: "'e pump" where
  "new_event_pump =
     \<lparr>pm_queue = [], pm_ended = False, pm_wake = False, pm_stopped = False, pm_signals = 0, pm_place = AtLoop,
      pm_batch = [], pm_had = False, pm_saw_end = False, pm_out = [], pm_accepted = []\<rparr>"

text \<open>The producer's side.\<close>

definition pump_push :: "'e \<Rightarrow> 'e pump \<Rightarrow> 'e pump" where
  "pump_push ev p =
     (if pm_ended p then p
      else p\<lparr>pm_queue := pm_queue p @ [ev], pm_accepted := pm_accepted p @ [ev], pm_signals := pm_signals p + 1\<rparr>)"

definition pump_end :: "'e pump \<Rightarrow> 'e pump" where
  "pump_end p = p\<lparr>pm_ended := True, pm_signals := pm_signals p + 1\<rparr>"

text \<open>The second half of \<open>stopNow\<close>, whose first is \<open>end\<close>.\<close>

definition pump_stop :: "'e pump \<Rightarrow> 'e pump option" where
  "pump_stop p = (if pm_ended p then Some (p\<lparr>pm_stopped := True\<rparr>) else None)"

definition pump_signal :: "'e pump \<Rightarrow> 'e pump option" where
  "pump_signal p =
     (if pm_signals p = 0 then None else Some (p\<lparr>pm_signals := pm_signals p - 1, pm_wake := True\<rparr>))"

text \<open>The goroutine (\<open>run\<close>), place by place. A step that is not possible now is \<open>None\<close>.\<close>

definition run_take :: "'e pump \<Rightarrow> 'e pump option" where
  "run_take p =
     (if pm_place p = AtLoop
      then Some (p\<lparr>pm_batch := pm_queue p, pm_had := pm_queue p \<noteq> [], pm_saw_end := pm_ended p, pm_queue := [],
                   pm_place := InBatch\<rparr>)
      else None)"

definition run_send :: "'e pump \<Rightarrow> 'e pump option" where
  "run_send p =
     (if pm_place p = InBatch
      then (case pm_batch p of [] \<Rightarrow> None | ev # evs \<Rightarrow> Some (p\<lparr>pm_batch := evs, pm_out := pm_out p @ [ev]\<rparr>))
      else None)"

definition run_send_stopped :: "'e pump \<Rightarrow> 'e pump option" where
  "run_send_stopped p =
     (if pm_place p = InBatch \<and> pm_batch p \<noteq> [] \<and> pm_stopped p then Some (p\<lparr>pm_place := Finished\<rparr>) else None)"

definition run_next :: "'e pump \<Rightarrow> 'e pump option" where
  "run_next p =
     (if pm_place p = InBatch \<and> pm_batch p = []
      then Some (p\<lparr>pm_place := (if pm_had p then AtLoop else if pm_saw_end p then Finished else AtSelect)\<rparr>)
      else None)"

definition run_wake :: "'e pump \<Rightarrow> 'e pump option" where
  "run_wake p =
     (if pm_place p = AtSelect \<and> pm_wake p then Some (p\<lparr>pm_wake := False, pm_place := AtLoop\<rparr>) else None)"

definition run_wait_stopped :: "'e pump \<Rightarrow> 'e pump option" where
  "run_wait_stopped p = (if pm_place p = AtSelect \<and> pm_stopped p then Some (p\<lparr>pm_place := Finished\<rparr>) else None)"

datatype 'e pump_op = Push 'e | End | Stop | Signal | Take | Send | SendStopped | NextBatch | WakeUp | WaitStopped

fun pump_step :: "'e pump_op \<Rightarrow> 'e pump \<Rightarrow> 'e pump option" where
  "pump_step (Push ev) p = Some (pump_push ev p)"
| "pump_step End p = Some (pump_end p)"
| "pump_step Stop p = pump_stop p"
| "pump_step Signal p = pump_signal p"
| "pump_step Take p = run_take p"
| "pump_step Send p = run_send p"
| "pump_step SendStopped p = run_send_stopped p"
| "pump_step NextBatch p = run_next p"
| "pump_step WakeUp p = run_wake p"
| "pump_step WaitStopped p = run_wait_stopped p"

lemmas pump_steps =
  pump_push_def pump_end_def pump_stop_def pump_signal_def run_take_def run_send_def run_send_stopped_def run_next_def
  run_wake_def run_wait_stopped_def

text \<open>What the pump does of its own once the producer is silent and the consumer receives.\<close>

definition own_ops :: "'e pump_op list" where
  "own_ops = [Signal, Take, Send, SendStopped, NextBatch, WakeUp, WaitStopped]"

inductive pump_reaches :: "'e pump \<Rightarrow> bool" where
  start: "pump_reaches new_event_pump"
| move: "pump_reaches p \<Longrightarrow> pump_step op p = Some p' \<Longrightarrow> pump_reaches p'"

section \<open>What always holds\<close>

text \<open>Every accepted event is received, in the batch or in the queue, in the order it was pushed.\<close>

definition in_order :: "'e pump \<Rightarrow> bool" where
  "in_order p \<longleftrightarrow> pm_accepted p = pm_out p @ pm_batch p @ pm_queue p"

text \<open>The batch is empty outside its loop, and a goroutine that saw the end has the last batch.\<close>

definition place_ok :: "'e pump \<Rightarrow> bool" where
  "place_ok p \<longleftrightarrow>
     (case pm_place p of
        AtLoop \<Rightarrow> pm_batch p = []
      | InBatch \<Rightarrow> (pm_batch p \<noteq> [] \<longrightarrow> pm_had p) \<and> (pm_saw_end p \<longrightarrow> pm_ended p \<and> pm_queue p = [])
      | AtSelect \<Rightarrow> pm_batch p = []
      | Finished \<Rightarrow> pm_stopped p \<or> pm_batch p = [] \<and> pm_queue p = [] \<and> pm_ended p)"

text \<open>No wakeup is lost: a goroutine that saw nothing to do is woken when there is something.\<close>

definition wake_ok :: "'e pump \<Rightarrow> bool" where
  "wake_ok p \<longleftrightarrow>
     (pm_place p = AtSelect \<or> pm_place p = InBatch \<and> \<not> pm_had p \<and> \<not> pm_saw_end p \<longrightarrow>
        pm_queue p \<noteq> [] \<or> pm_ended p \<longrightarrow> pm_wake p \<or> 0 < pm_signals p)"

lemmas pump_inv = in_order_def place_ok_def wake_ok_def

lemma step_in_order: "in_order p \<Longrightarrow> place_ok p \<Longrightarrow> pump_step op p = Some p' \<Longrightarrow> in_order p'"
  by (cases op) (auto simp: in_order_def place_ok_def pump_steps split: if_splits list.splits)

lemma step_place_ok: "place_ok p \<Longrightarrow> pump_step op p = Some p' \<Longrightarrow> place_ok p'"
  by (cases op) (auto simp: place_ok_def pump_steps split: if_splits list.splits pump_place.splits)

lemma step_wake_ok: "wake_ok p \<Longrightarrow> pump_step op p = Some p' \<Longrightarrow> wake_ok p'"
  by (cases op) (auto simp: wake_ok_def pump_steps split: if_splits list.splits)

lemma reaches_inv: "pump_reaches p \<Longrightarrow> in_order p \<and> place_ok p \<and> wake_ok p"
proof (induction rule: pump_reaches.induct)
  case start
  then show ?case by (simp add: pump_inv new_event_pump_def)
next
  case (move p op p')
  then show ?case using step_in_order step_place_ok step_wake_ok by blast
qed

section \<open>It comes to rest\<close>

definition place_rank :: "'e pump \<Rightarrow> nat" where
  "place_rank p =
     (case pm_place p of
        Finished \<Rightarrow> 0 | AtSelect \<Rightarrow> 1 | AtLoop \<Rightarrow> 3 | InBatch \<Rightarrow> if pm_had p then 4 else 2)"

definition work_left :: "'e pump \<Rightarrow> nat" where
  "work_left p =
     10 * (2 * pm_signals p + (if pm_wake p then 1 else 0)) + 3 * length (pm_queue p) + length (pm_batch p) + place_rank p"

lemma own_step_works:
  "place_ok p \<Longrightarrow> op \<in> set own_ops \<Longrightarrow> pump_step op p = Some p' \<Longrightarrow> work_left p' < work_left p"
  by (cases "pm_queue p") (auto simp: own_ops_def work_left_def place_rank_def pump_steps place_ok_def split: if_splits list.splits)

lemma at_rest:
  assumes "place_ok p" "wake_ok p" "\<forall>op \<in> set own_ops. pump_step op p = None"
  shows "pm_place p = Finished \<or> pm_place p = AtSelect \<and> pm_queue p = [] \<and> pm_batch p = [] \<and> \<not> pm_ended p"
  using assms
  by (cases "pm_place p")
    (auto simp: own_ops_def pump_steps place_ok_def wake_ok_def split: if_splits list.splits)

text \<open>C27. Events arrive in order and none is lost: whatever way producer, goroutine and consumer
  interleave, what the consumer has received is the beginning of what was pushed before the end, and when
  the channel closes without \<open>stopNow\<close> it is all of it.\<close>

theorem pump_in_order:
  assumes "pump_reaches p"
  shows "pm_accepted p = pm_out p @ pm_batch p @ pm_queue p
     \<and> (pm_place p = Finished \<longrightarrow> pm_stopped p \<or> pm_out p = pm_accepted p)"
  using reaches_inv [OF assms] by (auto simp: in_order_def place_ok_def)

fun run_ops :: "'e pump_op list \<Rightarrow> 'e pump \<Rightarrow> 'e pump option" where
  "run_ops [] p = Some p"
| "run_ops (op # ops) p = Option.bind (pump_step op p) (run_ops ops)"

lemma run_ops_reaches: "pump_reaches p \<Longrightarrow> run_ops ops p = Some p' \<Longrightarrow> pump_reaches p'"
  by (induction ops arbitrary: p) (auto simp: Option.bind_eq_Some_conv intro: pump_reaches.move)

definition sample_pump :: "nat pump" where
  "sample_pump =
     the (run_ops [Push 1, Take, Push 2, Signal, Send, NextBatch, Take, Send, End, Signal, Signal, NextBatch, Take, NextBatch]
       new_event_pump)"

lemma sample_pump_fields:
  "sample_pump = \<lparr>pm_queue = [], pm_ended = True, pm_wake = True, pm_stopped = False, pm_signals = 0, pm_place = Finished,
     pm_batch = [], pm_had = False, pm_saw_end = True, pm_out = [1, 2], pm_accepted = [1, 2]\<rparr>"
  by (simp add: sample_pump_def pump_steps new_event_pump_def)

lemma sample_pump_reached: "pump_reaches sample_pump"
proof -
  have "run_ops [Push 1, Take, Push 2, Signal, Send, NextBatch, Take, Send, End, Signal, Signal, NextBatch, Take, NextBatch]
      new_event_pump = Some sample_pump"
    by (simp add: sample_pump_fields pump_steps new_event_pump_def)
  then show ?thesis by (rule run_ops_reaches [OF pump_reaches.start])
qed

theorem pump_in_order_witness: "pm_out sample_pump = [1, 2] \<and> pm_accepted sample_pump = pm_out sample_pump"
  using pump_in_order [OF sample_pump_reached] by (simp add: sample_pump_fields)

text \<open>C17. The pump comes to rest, and only when it is done: while the consumer receives, the pump's own
  steps run out, and when none is left and it was not stopped every pushed event has been received and, if
  the producer ended the stream, the channel is closed. No wakeup is lost.\<close>

theorem pump_drains:
  assumes "pump_reaches p"
  shows "(\<forall>op \<in> set own_ops. \<forall>p'. pump_step op p = Some p' \<longrightarrow> work_left p' < work_left p)
     \<and> ((\<forall>op \<in> set own_ops. pump_step op p = None) \<and> \<not> pm_stopped p \<longrightarrow>
          pm_out p = pm_accepted p \<and> (pm_ended p \<longrightarrow> pm_place p = Finished))"
proof -
  from reaches_inv [OF assms] have inv: "in_order p" "place_ok p" "wake_ok p" by auto
  then show ?thesis
    using own_step_works [OF inv(2)] at_rest [OF inv(2,3)] by (auto simp: in_order_def place_ok_def)
qed

theorem pump_drains_witness:
  "list_all (\<lambda>op. pump_step op sample_pump = None) own_ops \<and> pm_place sample_pump = Finished"
proof -
  have "list_all (\<lambda>op. pump_step op sample_pump = None) own_ops"
    by (simp add: own_ops_def pump_steps sample_pump_fields)
  with pump_drains [OF sample_pump_reached] show ?thesis by (simp add: sample_pump_fields list_all_iff)
qed

end
