(* ===== verification/A2A_Map.thy ===== *)
theory A2A_Map
  imports Agent_Events
begin

text \<open>
  The Agent2Agent view of a run: the wire types (\<open>a2a/types.go\<close>) and the mapping of run states and
  lifecycle events to task states and status updates (\<open>a2a/map.go\<close>).

  The RFC 3339 text of a time is the argument \<open>fmt\<close>, and the current time, used for an event
  without one, is the argument \<open>now\<close>. Metadata and structured data keep their text.
\<close>

section \<open>Wire types (types.go)\<close>

definition a2a_version :: string where "a2a_version = ''1.0''"

definition err_task_not_found :: int where "err_task_not_found = -32100"
definition err_task_not_cancelable :: int where "err_task_not_cancelable = -32101"
definition err_version_not_supported :: int where "err_version_not_supported = -32102"

datatype task_state =
    TaskSubmitted | TaskWorking | TaskInputRequired | TaskCompleted | TaskFailed | TaskCanceled | TaskRejected
  | TaskAuthRequired | OtherTaskState string

definition task_is_terminal :: "task_state \<Rightarrow> bool" where
  "task_is_terminal s \<longleftrightarrow> s = TaskCompleted \<or> s = TaskFailed \<or> s = TaskCanceled \<or> s = TaskRejected"

datatype message_role = MessageRoleUser | MessageRoleAgent

record file_part =
  fp_name :: string
  fp_mime_type :: string
  fp_uri :: string
  fp_bytes :: string

record a2a_part =
  ap_text :: string
  ap_file :: "file_part option"
  ap_data :: string
  ap_metadata :: string

record a2a_message =
  am_message_id :: string
  am_role :: message_role
  am_parts :: "a2a_part list"
  am_context_id :: string
  am_metadata :: string

record task_status =
  ts_state :: task_state
  ts_message :: "a2a_message option"
  ts_timestamp :: string

record artifact =
  ar_name :: string
  ar_parts :: "a2a_part list"
  ar_index :: int
  ar_append :: bool
  ar_last_part :: bool

record a2a_task =
  at_id :: string
  at_context_id :: string
  at_status :: task_status
  at_history :: "a2a_message list"
  at_artifacts :: "artifact list"
  at_metadata :: string

record status_update_event =
  su_id :: string
  su_status :: task_status

section \<open>States (map.go)\<close>

fun task_state_for_run_state :: "agent_run_state \<Rightarrow> task_state" where
  "task_state_for_run_state Submitted = TaskSubmitted"
| "task_state_for_run_state Working = TaskWorking"
| "task_state_for_run_state InputRequired = TaskInputRequired"
| "task_state_for_run_state AuthRequired = TaskAuthRequired"
| "task_state_for_run_state Completed = TaskCompleted"
| "task_state_for_run_state Failed = TaskFailed"
| "task_state_for_run_state Canceled = TaskCanceled"
| "task_state_for_run_state Rejected = TaskRejected"
| "task_state_for_run_state (OtherRunState _) = TaskFailed"

fun run_state_for_task_state :: "task_state \<Rightarrow> agent_run_state" where
  "run_state_for_task_state TaskSubmitted = Submitted"
| "run_state_for_task_state TaskWorking = Working"
| "run_state_for_task_state TaskInputRequired = InputRequired"
| "run_state_for_task_state TaskAuthRequired = AuthRequired"
| "run_state_for_task_state TaskCompleted = Completed"
| "run_state_for_task_state TaskFailed = Failed"
| "run_state_for_task_state TaskCanceled = Canceled"
| "run_state_for_task_state TaskRejected = Rejected"
| "run_state_for_task_state (OtherTaskState _) = Failed"

definition agent_text :: "string \<Rightarrow> string \<Rightarrow> a2a_message" where
  "agent_text i text =
     \<lparr>am_message_id = i, am_role = MessageRoleAgent,
      am_parts = [\<lparr>ap_text = text, ap_file = None, ap_data = [], ap_metadata = []\<rparr>],
      am_context_id = [], am_metadata = []\<rparr>"

definition text_of :: "a2a_message \<Rightarrow> string" where
  "text_of m = concat (map ap_text (am_parts m))"

definition status_for_run :: "(int \<Rightarrow> string) \<Rightarrow> string \<Rightarrow> agent_run_state \<Rightarrow> int \<Rightarrow> string \<Rightarrow> string \<Rightarrow> task_status" where
  "status_for_run fmt run_id state at failure interrupt_reason =
     \<lparr>ts_state = task_state_for_run_state state,
      ts_message =
        (if state = Failed \<and> failure \<noteq> [] then Some (agent_text (run_id @ ''-error'') failure)
         else if run_is_interrupted state then
           Some (agent_text (run_id @ ''-interrupt'')
             (if interrupt_reason \<noteq> [] then ''Input required: '' @ interrupt_reason else ''Input required''))
         else None),
      ts_timestamp = fmt at\<rparr>"

section \<open>Payloads read here\<close>

record run_state_changed_payload =
  rsc_from_state :: agent_run_state
  rsc_to_state :: agent_run_state
  rsc_error :: string

definition run_state_changed_json :: "run_state_changed_payload \<Rightarrow> (string \<times> json) list" where
  "run_state_changed_json p = fld_str ''from_state'' (run_state_value (rsc_from_state p))
     @ fld_str ''to_state'' (run_state_value (rsc_to_state p)) @ omit_str ''error'' (rsc_error p)"

definition run_state_changed_read :: "(string \<times> json) list \<Rightarrow> run_state_changed_payload \<Rightarrow> run_state_changed_payload option" where
  "run_state_changed_read kvs p =
     (case (field conv_str ''from_state'' kvs (run_state_value (rsc_from_state p)),
            field conv_str ''to_state'' kvs (run_state_value (rsc_to_state p)), field conv_str ''error'' kvs (rsc_error p)) of
        (Some f, Some t, Some e) \<Rightarrow>
          Some \<lparr>rsc_from_state = run_state_of f, rsc_to_state = run_state_of t, rsc_error = e\<rparr>
      | _ \<Rightarrow> None)"

record input_form =
  if_message :: string
  if_schema :: "json option"

text \<open>
  The form an approval may carry, a field of a pointer type: a null empties it, a form given again is read
  into the one there is, and the schema keeps what was given last, a null too.
\<close>

fun last_value :: "string \<Rightarrow> (string \<times> json) list \<Rightarrow> json option \<Rightarrow> json option" where
  "last_value k [] old = old"
| "last_value k ((k', j) # kvs) old = last_value k kvs (if equal_fold k' k then Some j else old)"

definition input_form_read :: "(string \<times> json) list \<Rightarrow> input_form option \<Rightarrow> input_form option" where
  "input_form_read kvs old =
     (let f = (case old of None \<Rightarrow> \<lparr>if_message = [], if_schema = None\<rparr> | Some f \<Rightarrow> f)
      in map_option (\<lambda>m. \<lparr>if_message = m, if_schema = last_value ''requested_schema'' kvs (if_schema f)\<rparr>)
           (field conv_str ''message'' kvs (if_message f)))"

fun form_field :: "string \<Rightarrow> (string \<times> json) list \<Rightarrow> input_form option \<Rightarrow> input_form option option" where
  "form_field k [] old = Some old"
| "form_field k ((k', j) # kvs) old =
     (if equal_fold k' k then
        (case j of
           JNull \<Rightarrow> form_field k kvs None
         | JObj ms \<Rightarrow> (case input_form_read ms old of None \<Rightarrow> None | Some f \<Rightarrow> form_field k kvs (Some f))
         | _ \<Rightarrow> None)
      else form_field k kvs old)"

record approval_required_payload =
  apr_tool_invocation_id :: string
  apr_tool_name :: string
  apr_arguments :: string_encoded_map
  apr_reason :: string
  apr_input :: "input_form option"
  apr_subagent_id :: string

definition no_approval_required :: approval_required_payload where
  "no_approval_required = \<lparr>apr_tool_invocation_id = [], apr_tool_name = [], apr_arguments = [], apr_reason = [],
     apr_input = None, apr_subagent_id = []\<rparr>"

definition approval_required_read ::
  "(string \<times> json) list \<Rightarrow> approval_required_payload \<Rightarrow> approval_required_payload option" where
  "approval_required_read kvs p =
     (case (field conv_str ''tool_invocation_id'' kvs (apr_tool_invocation_id p),
            field conv_str ''tool_name'' kvs (apr_tool_name p), map_field ''arguments'' kvs (apr_arguments p),
            field conv_str ''reason'' kvs (apr_reason p), form_field ''input'' kvs (apr_input p),
            field conv_str ''subagent_id'' kvs (apr_subagent_id p)) of
        (Some i, Some n, Some a, Some r, Some f, Some s) \<Rightarrow>
          Some \<lparr>apr_tool_invocation_id = i, apr_tool_name = n, apr_arguments = a, apr_reason = r, apr_input = f,
                apr_subagent_id = s\<rparr>
      | _ \<Rightarrow> None)"

section \<open>Events\<close>

definition no_state_change :: run_state_changed_payload where
  "no_state_change = \<lparr>rsc_from_state = OtherRunState [], rsc_to_state = OtherRunState [], rsc_error = []\<rparr>"

definition run_state_from_event :: "agent_event \<Rightarrow> agent_run_state option" where
  "run_state_from_event ev =
     (case ae_type ev of
        EvRunStarted \<Rightarrow> Some Working
      | EvRunStateChanged \<Rightarrow> map_option rsc_to_state (decode_payload run_state_changed_read ev no_state_change)
      | EvApprovalRequired \<Rightarrow> Some InputRequired
      | EvError \<Rightarrow> Some Failed
      | _ \<Rightarrow> None)"

definition status_message_for_event :: "agent_event \<Rightarrow> a2a_message option" where
  "status_message_for_event ev =
     (case ae_type ev of
        EvError \<Rightarrow>
          (case decode_payload error_payload_read ev no_error_payload of
             Some p \<Rightarrow> if erp_message p \<noteq> [] then Some (agent_text (ae_run_id ev @ ''-error'') (erp_message p)) else None
           | None \<Rightarrow> None)
      | EvApprovalRequired \<Rightarrow>
          (case decode_payload approval_required_read ev no_approval_required of
             Some p \<Rightarrow>
               if apr_tool_name p \<noteq> []
               then Some (agent_text (ae_run_id ev @ ''-interrupt'') (''Input required: approve tool '' @ apr_tool_name p))
               else Some (agent_text (ae_run_id ev @ ''-interrupt'') ''Input required'')
           | None \<Rightarrow> Some (agent_text (ae_run_id ev @ ''-interrupt'') ''Input required''))
      | _ \<Rightarrow> None)"

definition status_update_for_event :: "(int \<Rightarrow> string) \<Rightarrow> int \<Rightarrow> agent_event \<Rightarrow> status_update_event option" where
  "status_update_for_event fmt now ev =
     (case run_state_from_event ev of
        None \<Rightarrow> None
      | Some state \<Rightarrow>
          Some \<lparr>su_id = ae_run_id ev,
                su_status = \<lparr>ts_state = task_state_for_run_state state, ts_message = status_message_for_event ev,
                  ts_timestamp = fmt (if ae_timestamp ev = 0 then now else ae_timestamp ev)\<rparr>\<rparr>)"

section \<open>The mapping is faithful\<close>

definition run_state_known :: "agent_run_state \<Rightarrow> bool" where
  "run_state_known s \<longleftrightarrow> (\<forall>t. s \<noteq> OtherRunState t)"

lemma run_state_value_of: "run_state_known s \<Longrightarrow> run_state_of (run_state_value s) = s"
  by (cases s) (simp_all add: run_state_of_def run_state_known_def)

definition run_state_changed_ok :: "run_state_changed_payload \<Rightarrow> bool" where
  "run_state_changed_ok p \<longleftrightarrow>
     run_state_known (rsc_from_state p) \<and> run_state_known (rsc_to_state p) \<and> valid_utf8 (rsc_error p)"

lemma run_state_value_utf8: "run_state_known s \<Longrightarrow> valid_utf8 (run_state_value s)"
  by (cases s) (simp_all add: run_state_known_def byte_def)

interpretation run_state_changed_codec:
  payload_codec run_state_changed_json run_state_changed_read no_state_change run_state_changed_ok
proof
  fix p
  assume ok: "run_state_changed_ok p"
  then show "run_state_changed_read (run_state_changed_json p) no_state_change = Some p"
    by (cases p) (auto simp: run_state_changed_ok_def run_state_changed_read_def run_state_changed_json_def no_state_change_def
        field_writers field_eval run_state_value_of)
  from ok show "json_ok (JObj (run_state_changed_json p))"
    by (auto simp: run_state_changed_ok_def run_state_changed_json_def field_writers run_state_value_utf8 byte_def)
qed

text \<open>C30. A task says what its run says: the event of a run's transition becomes a status update of that
  run in the task state of the new run state, which a remote client reads back as the same run state, and
  the task is over exactly when the run is. Every run state the model knows has a task state of its own.\<close>

theorem status_update_of_transition:
  assumes "run_state_changed_ok p"
  shows "\<exists>u. status_update_for_event fmt now
         (new_event EvRunStateChanged run chat at (Some (JObj (run_state_changed_json p)))) = Some u
      \<and> su_id u = run \<and> ts_state (su_status u) = task_state_for_run_state (rsc_to_state p)
      \<and> run_state_for_task_state (ts_state (su_status u)) = rsc_to_state p
      \<and> task_is_terminal (ts_state (su_status u)) = run_is_terminal (rsc_to_state p)"
proof -
  let ?ev = "new_event EvRunStateChanged run chat at (Some (JObj (run_state_changed_json p)))"
  from run_state_changed_codec.payload_back [OF assms, of EvRunStateChanged run chat at]
  have "decode_payload run_state_changed_read ?ev no_state_change = Some p"
    by (simp add: payload_as_def new_event_def)
  moreover have "run_state_known (rsc_to_state p)" using assms by (simp add: run_state_changed_ok_def)
  ultimately show ?thesis
    by (cases "rsc_to_state p")
      (simp_all add: status_update_for_event_def run_state_from_event_def new_event_def run_state_known_def
        task_is_terminal_def run_is_terminal_def)
qed

theorem status_update_of_transition_witness:
  "\<exists>u. status_update_for_event (\<lambda>_. []) 5
       (new_event EvRunStateChanged ''r'' ''c'' 7 (Some (JObj (run_state_changed_json
          \<lparr>rsc_from_state = Working, rsc_to_state = AuthRequired, rsc_error = []\<rparr>)))) = Some u
    \<and> ts_state (su_status u) = TaskAuthRequired"
  using status_update_of_transition [of "\<lparr>rsc_from_state = Working, rsc_to_state = AuthRequired, rsc_error = []\<rparr>"
      "\<lambda>_. []" 5 "''r''" "''c''" 7]
  by (auto simp: run_state_changed_ok_def run_state_known_def)

end
