(* ===== verification/Rpc_Text.thy ===== *)
theory Rpc_Text
  imports Rpc_Conn
begin

text \<open>
  A JSON-RPC message as text (\<open>json.Marshal\<close> of \<open>Message\<close>, \<open>internal/jsonrpc/conn.go\<close>), and that the
  reader of the connection gives back the message that was written.

  A raw field is written as \<open>json.RawMessage\<close> is: its text without the blanks between tokens and with
  the characters escaped that \<open>json.Marshal\<close> keeps out of HTML.
\<close>

section \<open>Writing\<close>

fun compact :: "bool \<Rightarrow> string \<Rightarrow> string" where
  "compact inside [] = []"
| "compact False (c # s) =
     (if is_ws c then compact False s else if c = CHR 0x22 then c # compact True s else c # compact False s)"
| "compact True (c # s) =
     (if c = CHR 0x22 then c # compact False s
      else if c = CHR 0x5C then (case s of [] \<Rightarrow> [c] | d # s' \<Rightarrow> c # d # compact True s')
      else if c = CHR ''<'' \<or> c = CHR ''>'' \<or> c = CHR ''&'' then escape_u (byte c) @ compact True s
      else if byte c = 0xE2 \<and> 2 \<le> length s \<and> byte (s ! 0) = 0x80 \<and> (byte (s ! 1) = 0xA8 \<or> byte (s ! 1) = 0xA9)
        then escape_u (0x2028 + (byte (s ! 1) - 0xA8)) @ compact True (drop 2 s)
      else c # compact True s)"

definition member_text :: "string \<times> string \<Rightarrow> string" where
  "member_text kt = print_string (fst kt) @ '':'' @ snd kt"

definition object_text :: "(string \<times> string) list \<Rightarrow> string" where
  "object_text kts = ''{'' @ join (map member_text kts) '','' @ ''}''"

text \<open>A member that is left out when there is nothing to write.\<close>

definition omit :: "string \<Rightarrow> 'a option \<Rightarrow> (string \<times> 'a) list" where
  "omit k v = (case v of None \<Rightarrow> [] | Some x \<Rightarrow> [(k, x)])"

definition given :: "string \<Rightarrow> string option" where
  "given s = (if s = [] then None else Some s)"

definition error_members :: "rpc_error \<Rightarrow> (string \<times> string) list" where
  "error_members e =
     [(''code'', show_int (er_code e)), (''message'', print_string (er_message e))]
     @ omit ''data'' (map_option (compact False) (given (er_data e)))"

definition message_members :: "message \<Rightarrow> (string \<times> string) list" where
  "message_members m =
     omit ''jsonrpc'' (map_option print_string (given (m_jsonrpc m)))
     @ omit ''id'' (map_option (compact False) (given (m_id m)))
     @ omit ''method'' (map_option print_string (given (m_method m)))
     @ omit ''params'' (map_option (compact False) (given (m_params m)))
     @ omit ''result'' (map_option (compact False) (given (m_result m)))
     @ omit ''error'' (map_option (object_text \<circ> error_members) (m_error m))"

definition message_text :: "message \<Rightarrow> string" where
  "message_text m = object_text (message_members m)"

section \<open>Text that is compact already\<close>

lemma print_members_join:
  "print_members kvs = join (map (\<lambda>(k, j). member_text (k, json_print j)) kvs) '',''"
  by (induction kvs rule: induct_list012) (auto simp: member_text_def)

lemma object_text_json: "object_text (map (\<lambda>(k, j). (k, json_print j)) kvs) = json_print (JObj kvs)"
  by (simp add: object_text_def print_members_join comp_def case_prod_unfold)

definition plain_byte :: "char \<Rightarrow> bool" where
  "plain_byte c \<longleftrightarrow> c \<notin> {CHR 0x22, CHR 0x5C, CHR ''<'', CHR ''>'', CHR ''&''} \<and> byte c \<noteq> 0xE2"

lemma compact_plain: "plain_byte c \<Longrightarrow> compact True (c # r) = c # compact True r"
  by (simp add: plain_byte_def)

lemma plain_hex: "n < 16 \<Longrightarrow> plain_byte (hex_digit n)"
proof -
  have "list_all (\<lambda>n. plain_byte (hex_digit n)) [0..<16]" by code_simp
  then show "n < 16 \<Longrightarrow> plain_byte (hex_digit n)" by (simp add: list_all_iff)
qed

lemma compact_escape: "compact True (CHR 0x5C # d # r) = CHR 0x5C # d # compact True r"
  by simp

lemma compact_escape_u: "compact True (escape_u n @ r) = escape_u n @ compact True r"
  by (simp add: escape_u_def compact_escape compact_plain plain_hex del: compact.simps)

lemma high_plain: "128 \<le> byte c \<Longrightarrow> byte c \<noteq> 0xE2 \<Longrightarrow> plain_byte c"
  by (auto simp: plain_byte_def byte_def)

lemma compact_all_plain: "list_all plain_byte w \<Longrightarrow> compact True (w @ r) = w @ compact True r"
  by (induction w) (simp_all add: compact_plain del: compact.simps)

lemma in_range_low:
  "in_range 0x80 0xBF a \<Longrightarrow> byte a < 192" "in_range 0xA0 0xBF a \<Longrightarrow> byte a < 192"
  "in_range 0x80 0x9F a \<Longrightarrow> byte a < 192" "in_range 0x90 0xBF a \<Longrightarrow> byte a < 192"
  "in_range 0x80 0x8F a \<Longrightarrow> byte a < 192"
  by (simp_all add: in_range_def)

lemma rune_tail2: "rune_len [a, b] = 2 \<Longrightarrow> byte b < 192"
  by (auto dest: in_range_low split: if_splits)

lemma rune_tail3: "rune_len [a, b, c] = 3 \<Longrightarrow> byte b < 192 \<and> byte c < 192"
  by (auto dest: in_range_low split: if_splits)

lemma rune_tail4: "rune_len [a, b, c, d] = 4 \<Longrightarrow> byte b < 192 \<and> byte c < 192 \<and> byte d < 192"
  by (auto dest: in_range_low split: if_splits)

lemma rune_lead:
  "byte a = 0xE2 \<Longrightarrow> rune_len [a, b] \<noteq> 2" "byte a = 0xE2 \<Longrightarrow> rune_len [a, b, c, d] \<noteq> 4"
  by (simp_all add: in_range_def)

lemma rune_shape:
  assumes "rune_len w = length w" "2 \<le> length w"
  obtains (two) a b where "w = [a, b]" "rune_len [a, b] = 2" | (three) a b c where "w = [a, b, c]" "rune_len [a, b, c] = 3"
  | (four) a b c d where "w = [a, b, c, d]" "rune_len [a, b, c, d] = 4"
proof -
  from assms rune_len_cases [of w] have "length w = 2 \<or> length w = 3 \<or> length w = 4" by auto
  then show ?thesis
  proof (elim disjE)
    assume "length w = 2"
    moreover from this obtain x y where "w = [x, y]" by (auto simp: length_Suc_conv numeral_eq_Suc)
    ultimately show ?thesis using assms two by metis
  next
    assume "length w = 3"
    moreover from this obtain x y z where "w = [x, y, z]" by (auto simp: length_Suc_conv numeral_eq_Suc)
    ultimately show ?thesis using assms three by metis
  next
    assume "length w = 4"
    moreover from this obtain x y z v where "w = [x, y, z, v]" by (auto simp: length_Suc_conv numeral_eq_Suc)
    ultimately show ?thesis using assms four by metis
  qed
qed

lemma separator_rune:
  "encode_rune 0x2028 = map char_of [0xE2, 0x80, 0xA8 :: nat]" "encode_rune 0x2029 = map char_of [0xE2, 0x80, 0xA9 :: nat]"
  by (simp_all add: encode_rune_def)

lemma compact_other:
  "a \<notin> {CHR 0x22, CHR 0x5C, CHR ''<'', CHR ''>'', CHR ''&''} \<Longrightarrow>
   \<not> (byte b = 0x80 \<and> (byte c = 0xA8 \<or> byte c = 0xA9)) \<Longrightarrow>
   compact True (a # b # c # r) = a # compact True (b # c # r)"
  by (subst compact.simps(3)) (auto simp del: compact.simps)

lemma compact_rune:
  assumes "rune_len w = length w" "2 \<le> length w" "128 \<le> byte (hd w)" "w \<noteq> encode_rune 0x2028" "w \<noteq> encode_rune 0x2029"
  shows "compact True (w @ r) = w @ compact True r"
proof (cases "byte (hd w) = 0xE2")
  case False
  have "list_all plain_byte w"
    using assms(1,2)
  proof (cases rule: rune_shape)
    case (two a b)
    with False assms(3) rune_bytes2 [of a b] rune_tail2 [of a b] show ?thesis
      by (simp add: high_plain del: rune_len.simps)
  next
    case (three a b c)
    with False assms(3) rune_bytes3 [of a b c] rune_tail3 [of a b c] show ?thesis
      by (simp add: high_plain del: rune_len.simps)
  next
    case (four a b c d)
    with False assms(3) rune_bytes4 [of a b c d] rune_tail4 [of a b c d] show ?thesis
      by (simp add: high_plain del: rune_len.simps)
  qed
  then show ?thesis by (rule compact_all_plain)
next
  case True
  show ?thesis
    using assms(1,2)
  proof (cases rule: rune_shape)
    case (three a b c)
    have "\<not> (byte b = 0x80 \<and> (byte c = 0xA8 \<or> byte c = 0xA9))"
    proof
      assume "byte b = 0x80 \<and> (byte c = 0xA8 \<or> byte c = 0xA9)"
      then have "w = map char_of [0xE2, 0x80, 0xA8 :: nat] \<or> w = map char_of [0xE2, 0x80, 0xA9 :: nat]"
        using True three(1) byte_char_of [of a] byte_char_of [of b] byte_char_of [of c] by fastforce
      then show False using assms(4,5) by (simp add: separator_rune)
    qed
    moreover have "a \<notin> {CHR 0x22, CHR 0x5C, CHR ''<'', CHR ''>'', CHR ''&''}"
      using True three(1) by (auto simp: byte_def)
    ultimately have "compact True (a # b # c # r) = a # compact True ([b, c] @ r)"
      using compact_other by simp
    moreover have "list_all plain_byte [b, c]"
      using three(2) rune_bytes3 [of a b c] rune_tail3 [of a b c] by (simp add: high_plain del: rune_len.simps)
    ultimately show ?thesis using three(1) compact_all_plain [of "[b, c]" r] by simp
  qed (use True rune_lead in simp_all)
qed

lemma compact_chunk: "chunk_valid w \<Longrightarrow> compact True (print_chunk w @ r) = print_chunk w @ compact True r"
proof (erule chunk_valid_cases)
  fix c assume w: "w = [c]" and low: "byte c < 0x80"
  have plain: "plain_byte c" if "byte c \<notin> {0x22, 0x5C, 0x3C, 0x3E, 0x26}"
    using that low by (auto simp: plain_byte_def byte_def)
  show ?thesis
    using w low plain
    by (simp add: print_chunk_def compact_escape compact_escape_u compact_plain del: compact.simps)
next
  assume more: "rune_len w = length w" "2 \<le> length w" "128 \<le> byte (hd w)"
  then obtain x y z where w: "w = x # y # z" by (cases w; cases "tl w") auto
  have special: "print_chunk w =
      (if w = encode_rune 0x2028 then escape_u 0x2028
       else if w = encode_rune 0x2029 then escape_u 0x2029 else w)"
    by (simp add: print_chunk_def w)
  show ?thesis
  proof (cases "w = encode_rune 0x2028 \<or> w = encode_rune 0x2029")
    case True
    then have "print_chunk w = escape_u 0x2028 \<or> print_chunk w = escape_u 0x2029" using special by auto
    then show ?thesis using compact_escape_u by auto
  next
    case False
    then have "print_chunk w = w" using special by simp
    with False compact_rune [OF more] show ?thesis by simp
  qed
qed

lemma compact_word: "list_all (\<lambda>d. \<not> is_ws d \<and> d \<noteq> CHR 0x22) w \<Longrightarrow> compact False (w @ r) = w @ compact False r"
  by (induction w) auto

lemma compact_string: "valid_utf8 s \<Longrightarrow> compact False (print_string s @ r) = print_string s @ compact False r"
proof -
  have "list_all chunk_valid ws \<Longrightarrow>
      compact True (concat (map print_chunk ws) @ CHR 0x22 # r) = concat (map print_chunk ws) @ CHR 0x22 # compact False r" for ws
    by (induction ws) (simp_all add: compact_chunk)
  then show "valid_utf8 s \<Longrightarrow> ?thesis"
    by (simp add: print_string_def print_body_def valid_utf8_def is_ws_def byte_def)
qed

lemma compact_num: "compact False (show_int i @ r) = show_int i @ compact False r"
proof (rule compact_word)
  have "c \<in> set (show_nat n) \<Longrightarrow> is_digit c" for c n
    using show_nat_digits [of n] by (simp add: list_all_iff)
  then have "c \<in> set (show_int i) \<Longrightarrow> is_digit c \<or> c = CHR ''-''" for c
    by (auto simp: show_int_def split: if_splits)
  then show "list_all (\<lambda>d. \<not> is_ws d \<and> d \<noteq> CHR 0x22) (show_int i)"
    using digit_not_special by (auto simp: list_all_iff)
qed

lemma compact_json:
  "json_ok j \<Longrightarrow> compact False (json_print j @ r) = json_print j @ compact False r"
  "list_all json_ok js \<Longrightarrow> compact False (print_items js @ r) = print_items js @ compact False r"
  "list_all (\<lambda>kv. valid_utf8 (fst kv) \<and> json_ok (snd kv)) kvs \<Longrightarrow>
     compact False (print_members kvs @ r) = print_members kvs @ compact False r"
proof (induction j and js and kvs arbitrary: r and r and r rule: json_print_print_items_print_members.induct)
  case (3 l)
  then show ?case by (auto simp: compact_num)
qed (simp_all add: compact_string compact_word is_ws_def byte_def)

lemma compact_print: "json_ok j \<Longrightarrow> compact False (json_print j) = json_print j"
  using compact_json(1) [of j "[]"] by simp

section \<open>Members that may be absent\<close>

lemma dec_field_omit:
  "equal_fold k' k \<Longrightarrow> dec_field conv k (omit k' f @ r) old =
     (case f of None \<Rightarrow> dec_field conv k r old
      | Some j \<Rightarrow> if j = JNull then dec_field conv k r old
                  else (case conv j of Some x \<Rightarrow> dec_field conv k r x | None \<Rightarrow> (fst (dec_field conv k r old), False)))"
  "\<not> equal_fold k' k \<Longrightarrow> dec_field conv k (omit k' f @ r) old = dec_field conv k r old"
  by (auto simp: omit_def split: option.split)

lemma last_raw_omit:
  "equal_fold k' k \<Longrightarrow> last_raw k (omit k' t @ r) old = last_raw k r (case t of None \<Rightarrow> old | Some x \<Rightarrow> x)"
  "\<not> equal_fold k' k \<Longrightarrow> last_raw k (omit k' t @ r) old = last_raw k r old"
  by (auto simp: omit_def split: option.split)

lemma omit_map: "map (\<lambda>(k, j). (k, g j)) (omit k f @ r) = omit k (map_option g f) @ map (\<lambda>(k, j). (k, g j)) r"
  by (simp add: omit_def split: option.split)

lemma omit_ok:
  "list_all (\<lambda>kv. valid_utf8 (fst kv) \<and> json_ok (snd kv)) (omit k f @ r) \<longleftrightarrow>
   (f = None \<or> valid_utf8 k) \<and> (case f of None \<Rightarrow> True | Some j \<Rightarrow> json_ok j) \<and> list_all (\<lambda>kv. valid_utf8 (fst kv) \<and> json_ok (snd kv)) r"
  by (simp add: omit_def split: option.split)

lemmas dec_field_omits = dec_field_omit dec_field_omit [where r = "[]", unfolded append_Nil2 dec_field.simps(1) fst_conv]
lemmas last_raw_omits = last_raw_omit last_raw_omit [where r = "[]", unfolded append_Nil2 last_raw.simps(1)]
lemmas omit_maps = omit_map omit_map [where r = "[]", unfolded append_Nil2 list.map(1)]
lemmas omit_oks = omit_ok omit_ok [where r = "[]", unfolded append_Nil2 list.pred_inject(1)]

text \<open>A raw field that is empty or a value without blanks, and the value it is.\<close>

definition is_value :: "string \<Rightarrow> bool" where
  "is_value t \<longleftrightarrow> (\<exists>j. json_ok j \<and> t = json_print j)"

definition given_json :: "string \<Rightarrow> json option" where
  "given_json t = (if t = [] then None else json_parse t)"

lemma json_print_not_Nil: "json_ok j \<Longrightarrow> json_print j \<noteq> []"
  using json_print_first by fastforce

lemma given_value:
  assumes "t = [] \<or> is_value t"
  shows "map_option (compact False) (given t) = map_option json_print (given_json t)"
    and "case given_json t of None \<Rightarrow> t = [] | Some j \<Rightarrow> json_ok j \<and> t = json_print j"
  using assms by (auto simp: given_def given_json_def is_value_def json_print_not_Nil compact_print json_parse_print)

lemma raw_given: "t = [] \<or> is_value t \<Longrightarrow> (case map_option json_print (given_json t) of None \<Rightarrow> [] | Some x \<Rightarrow> x) = t"
  using given_value(2) [of t] by (auto split: option.splits)

lemma print_given: "map_option print_string (given s) = map_option json_print (map_option JStr (given s))"
  by (simp add: option.map_comp comp_def)

section \<open>What is written is read\<close>

definition error_ok :: "rpc_error \<Rightarrow> bool" where
  "error_ok e \<longleftrightarrow> int64_ok (er_code e) \<and> valid_utf8 (er_message e) \<and> (er_data e = [] \<or> is_value (er_data e))"

definition error_json :: "rpc_error \<Rightarrow> (string \<times> json) list" where
  "error_json e = [(''code'', JNum (show_int (er_code e))), (''message'', JStr (er_message e))] @ omit ''data'' (given_json (er_data e))"

definition message_ok :: "message \<Rightarrow> bool" where
  "message_ok m \<longleftrightarrow>
     valid_utf8 (m_jsonrpc m) \<and> valid_utf8 (m_method m)
     \<and> list_all (\<lambda>t. t = [] \<or> is_value t) [m_id m, m_params m, m_result m]
     \<and> (case m_error m of None \<Rightarrow> True | Some e \<Rightarrow> error_ok e)"

definition message_json :: "message \<Rightarrow> (string \<times> json) list" where
  "message_json m =
     omit ''jsonrpc'' (map_option JStr (given (m_jsonrpc m))) @ omit ''id'' (given_json (m_id m))
     @ omit ''method'' (map_option JStr (given (m_method m))) @ omit ''params'' (given_json (m_params m))
     @ omit ''result'' (given_json (m_result m)) @ omit ''error'' (map_option (\<lambda>e. JObj (error_json e)) (m_error m))"

lemmas message_keys = equal_fold_no_upper no_upper_def in_range_def byte_def

lemma error_json_ok: "error_ok e \<Longrightarrow> json_ok (JObj (error_json e))"
  using given_value(2) [of "er_data e"] by (auto simp: error_ok_def error_json_def omit_oks byte_def split: option.splits)

lemma error_text_json: "error_ok e \<Longrightarrow> object_text (error_members e) = json_print (JObj (error_json e))"
  using given_value(1) [of "er_data e"]
  by (simp add: error_ok_def error_members_def error_json_def object_text_json [symmetric] omit_maps del: json_print.simps(6))

lemma read_error_written:
  assumes "error_ok e"
  shows "read_error_object (json_print (JObj (error_json e))) = Some (Some e)"
proof -
  have data: "er_data e = [] \<or> is_value (er_data e)" "int64_ok (er_code e)" using assms by (simp_all add: error_ok_def)
  have code: "dec_field conv_int ''code'' (error_json e) 0 = (er_code e, True)"
    by (simp add: error_json_def message_keys dec_field_omits conv_int_def parse_show_int64 [OF data(2)])
  have msg: "dec_field conv_str ''message'' (error_json e) [] = (er_message e, True)"
    by (simp add: error_json_def message_keys dec_field_omits conv_str_def)
  have "last_raw ''data'' (raw_object (json_print (JObj (error_json e)))) [] = er_data e"
    using raw_given [OF data(1)] unfolding raw_object_print [OF error_json_ok [OF assms]]
    by (simp add: error_json_def omit_maps last_raw_omits message_keys del: case_map_option)
  with code msg show ?thesis
    by (simp add: read_error_object_def json_parse_print [OF error_json_ok [OF assms]] Let_def del: json_print.simps)
qed

lemma message_json_ok: "message_ok m \<Longrightarrow> json_ok (JObj (message_json m))"
proof -
  assume m: "message_ok m"
  then have raw: "case given_json t of None \<Rightarrow> True | Some j \<Rightarrow> json_ok j" if "t \<in> {m_id m, m_params m, m_result m}" for t
    using that given_value(2) [of t] by (auto simp: message_ok_def split: option.splits)
  have str: "case map_option JStr (given s) of None \<Rightarrow> True | Some j \<Rightarrow> json_ok j" if "valid_utf8 s" for s
    using that by (simp add: given_def)
  have err: "case map_option (\<lambda>e. JObj (error_json e)) (m_error m) of None \<Rightarrow> True | Some j \<Rightarrow> json_ok j"
    using m error_json_ok by (auto simp: message_ok_def simp del: json_ok.simps split: option.splits)
  show ?thesis
    using m raw str err by (simp add: message_json_def omit_oks message_ok_def byte_def del: case_map_option)
qed

lemma message_text_json: "message_ok m \<Longrightarrow> message_text m = json_print (JObj (message_json m))"
proof -
  assume m: "message_ok m"
  then have raw: "map_option (compact False) (given t) = map_option json_print (given_json t)"
    if "t \<in> {m_id m, m_params m, m_result m}" for t
    using that given_value(1) [of t] by (auto simp: message_ok_def)
  have err: "map_option (object_text \<circ> error_members) (m_error m) = map_option json_print (map_option (\<lambda>e. JObj (error_json e)) (m_error m))"
    using m error_text_json by (auto simp: message_ok_def simp del: json_print.simps split: option.splits)
  show ?thesis
    using raw err
    by (simp add: message_text_def message_members_def message_json_def object_text_json [symmetric] omit_maps print_given del: json_print.simps)
qed

lemma parse_message_text:
  assumes "message_ok m"
  shows "parse_message (message_text m) = Some m"
proof -
  have raws: "m_id m = [] \<or> is_value (m_id m)" "m_params m = [] \<or> is_value (m_params m)" "m_result m = [] \<or> is_value (m_result m)"
    using assms by (simp_all add: message_ok_def)
  have str: "dec_field conv_str k (message_json m) [] = (s, True)"
    if "k = ''jsonrpc'' \<and> s = m_jsonrpc m \<or> k = ''method'' \<and> s = m_method m" for k s
    using that by (auto simp: message_json_def dec_field_omits message_keys given_def conv_str_def)
  have raw: "raw_object (message_text m) = map (\<lambda>(k, j). (k, json_print j)) (message_json m)"
    by (simp add: message_text_json [OF assms] raw_object_print [OF message_json_ok [OF assms]] del: json_print.simps)
  have field: "last_raw k (raw_object (message_text m)) [] = t"
    if "k = ''id'' \<and> t = m_id m \<or> k = ''params'' \<and> t = m_params m \<or> k = ''result'' \<and> t = m_result m" for k t
    using that raw_given [OF raws(1)] raw_given [OF raws(2)] raw_given [OF raws(3)]
    by (auto simp: raw message_json_def omit_maps last_raw_omits message_keys simp del: case_map_option)
  have err: "last_raw ''error'' (raw_object (message_text m)) []
      = (case m_error m of None \<Rightarrow> [] | Some e \<Rightarrow> json_print (JObj (error_json e)))"
    by (simp add: raw message_json_def omit_maps last_raw_omits message_keys del: json_print.simps split: option.split)
  have "json_parse (message_text m) = Some (JObj (message_json m))"
    by (simp add: message_text_json [OF assms] json_parse_print [OF message_json_ok [OF assms]] del: json_print.simps)
  note parts = this str field err
  show ?thesis
  proof (cases "m_error m")
    case None
    with parts show ?thesis by (simp add: parse_message_def Let_def)
  next
    case (Some e)
    then have e: "error_ok e" using assms by (simp add: message_ok_def)
    from Some parts json_print_not_Nil [OF error_json_ok [OF e]] read_error_written [OF e] show ?thesis
      by (simp add: parse_message_def Let_def del: json_print.simps)
  qed
qed

end
