(* ===== verification/Mcp_Server.thy ===== *)
theory Mcp_Server
  imports Rpc_Text Transcript_Names Tool_Calls
begin

text \<open>
  The server that offers a caller's tools to an agent (\<open>internal/mcptools/server.go\<close>,
  \<open>internal/mcptools/http.go\<close>), with the tools of a session behind it (\<open>callerToolServer\<close> of
  \<open>driver/tools.go\<close>) and the bridge an agent reaches it through when it starts MCP servers as
  subprocesses (\<open>mcpbridge/bridge.go\<close>).

  The caller's tool function acts on a state of its own, of type \<open>'s\<close>, so that whether and how often
  it ran can be said. The text of an error of \<open>encoding/json\<close> is not spelled out. HTTP itself is a
  request with its body and headers going in and a status with a body coming out.
\<close>

section \<open>Data\<close>

record mcp_tool =
  mt_name :: string
  mt_description :: string
  mt_schema :: string          \<comment> \<open>\<open>InputSchema\<close>, empty for nil\<close>

record mcp_call =
  mc_name :: string
  mc_arguments :: string
  mc_tool_use_id :: string

record mcp_image =
  mi_mime :: string
  mi_data :: string

record mcp_result =
  mr_text :: string
  mr_images :: "mcp_image list"
  mr_is_error :: bool

record 's mcp_server =
  ms_name :: string
  ms_version :: string
  ms_tools :: "mcp_tool list"
  ms_run :: "(mcp_call \<Rightarrow> 's \<Rightarrow> (string + mcp_result) \<times> 's) option"

definition code_invalid_params :: int where "code_invalid_params = -32602"

definition tool_use_id_meta :: string where "tool_use_id_meta = ''claudecode/toolUseId''"

definition tool_call_id_meta :: string where "tool_call_id_meta = ''agentprotocol/toolCallId''"

section \<open>Answers\<close>

text \<open>A map is written in the order of its keys.\<close>

definition text_block :: "string \<Rightarrow> json" where
  "text_block t = JObj [(''text'', JStr t), (''type'', JStr ''text'')]"

definition image_block :: "mcp_image \<Rightarrow> json" where
  "image_block i = JObj [(''data'', JStr (b64_encode (mi_data i))), (''mimeType'', JStr (mi_mime i)), (''type'', JStr ''image'')]"

definition result_content :: "mcp_result \<Rightarrow> json list" where
  "result_content r =
     (if mr_text r \<noteq> [] \<or> mr_images r = [] then [text_block (mr_text r)] else []) @ map image_block (mr_images r)"

definition protocol_versions :: "string list" where
  "protocol_versions = [''2025-11-25'', ''2025-06-18'', ''2025-03-26'', ''2024-11-05'']"

definition negotiate_version :: "string \<Rightarrow> string" where
  "negotiate_version requested = (if requested \<in> set protocol_versions then requested else hd protocol_versions)"

definition has_tool :: "'s mcp_server \<Rightarrow> string \<Rightarrow> bool" where
  "has_tool s name = list_ex (\<lambda>t. mt_name t = name) (ms_tools s)"

text \<open>One tool of \<open>tools/list\<close>; \<open>None\<close> when its schema is not JSON, which \<open>json.Marshal\<close> refuses.\<close>

definition tool_entry :: "mcp_tool \<Rightarrow> string option" where
  "tool_entry t =
     (if mt_schema t \<noteq> [] \<and> \<not> json_valid (mt_schema t) then None
      else Some (object_text ([(''name'', print_string (mt_name t))]
             @ omit ''description'' (map_option print_string (given (mt_description t)))
             @ [(''inputSchema'', if mt_schema t = [] then ''null'' else compact False (mt_schema t))])))"

fun tool_entries :: "mcp_tool list \<Rightarrow> string list option" where
  "tool_entries [] = Some []"
| "tool_entries (t # ts) =
     (case tool_entry t of None \<Rightarrow> None | Some e \<Rightarrow> map_option (\<lambda>es. e # es) (tool_entries ts))"

definition tools_text :: "mcp_tool list \<Rightarrow> string option" where
  "tools_text ts = map_option (\<lambda>es. object_text [(''tools'', ''['' @ join es '','' @ '']'')]) (tool_entries ts)"

definition initialize_json :: "'s mcp_server \<Rightarrow> string \<Rightarrow> json" where
  "initialize_json s requested =
     JObj [(''capabilities'', JObj [(''tools'', JObj [])]),
           (''protocolVersion'', JStr (negotiate_version requested)),
           (''serverInfo'', JObj [(''name'', JStr (ms_name s)), (''version'', JStr (ms_version s))])]"

definition result_json :: "mcp_result \<Rightarrow> json" where
  "result_json r = JObj [(''content'', JArr (result_content r)), (''isError'', JBool (mr_is_error r))]"

section \<open>Dispatch\<close>

definition requested_version :: "string \<Rightarrow> string" where
  "requested_version params =
     (case json_parse params of
        Some (JObj kvs) \<Rightarrow> fst (dec_field conv_str ''protocolVersion'' kvs [])
      | _ \<Rightarrow> [])"

text \<open>The \<open>_meta\<close> member: a \<open>map[string]any\<close> that a repeated member adds to and a null empties.\<close>

fun meta_field :: "(string \<times> json) list \<Rightarrow> (string \<times> json) list \<Rightarrow> (string \<times> json) list \<times> bool" where
  "meta_field [] m = (m, True)"
| "meta_field ((k, j) # kvs) m =
     (if equal_fold k ''_meta'' then
        (case j of
           JNull \<Rightarrow> meta_field kvs []
         | JObj es \<Rightarrow> meta_field kvs (m @ es)
         | _ \<Rightarrow> (fst (meta_field kvs m), False))
      else meta_field kvs m)"

definition meta_string :: "(string \<times> json) list \<Rightarrow> string \<Rightarrow> string option" where
  "meta_string m k = (case map_of (rev m) k of Some (JStr s) \<Rightarrow> Some s | _ \<Rightarrow> None)"

text \<open>The call a \<open>tools/call\<close> asks for; \<open>None\<close> when it cannot be read or names no tool.\<close>

definition read_call :: "string \<Rightarrow> mcp_call option" where
  "read_call params =
     (case json_parse params of
        Some (JObj kvs) \<Rightarrow>
          (let (name, ok1) = dec_field conv_str ''name'' kvs [];
               (meta, ok2) = meta_field kvs [];
               args = last_raw ''arguments'' (raw_object params) []
           in if \<not> (ok1 \<and> ok2) \<or> name = [] then None
              else Some
                \<lparr>mc_name = name,
                 mc_arguments = (if args = [] \<or> args = ''null'' then ''{}'' else args),
                 mc_tool_use_id =
                   (case meta_string meta tool_call_id_meta of
                      Some i \<Rightarrow> i
                    | None \<Rightarrow> (case meta_string meta tool_use_id_meta of Some i \<Rightarrow> i | None \<Rightarrow> []))\<rparr>)
      | _ \<Rightarrow> None)"

definition run_tool :: "'s mcp_server \<Rightarrow> mcp_call \<Rightarrow> 's \<Rightarrow> mcp_result \<times> 's" where
  "run_tool srv call s =
     (case ms_run srv of
        None \<Rightarrow> (\<lparr>mr_text = ''no tool handler is attached'', mr_images = [], mr_is_error = True\<rparr>, s)
      | Some run \<Rightarrow>
          (case run call s of
             (Inl err, s') \<Rightarrow> (\<lparr>mr_text = err, mr_images = [], mr_is_error = True\<rparr>, s')
           | (Inr r, s') \<Rightarrow> (r, s')))"

text \<open>
  What a request is answered with: the text of the result, or an error of the protocol. The inner
  \<open>None\<close> is a result \<open>json.Marshal\<close> refuses.
\<close>

definition server_dispatch :: "'s mcp_server \<Rightarrow> message \<Rightarrow> 's \<Rightarrow> (rpc_error + string option) \<times> 's" where
  "server_dispatch srv m s =
     (if m_method m = ''initialize'' then
        (Inr (Some (json_print (initialize_json srv (requested_version (m_params m))))), s)
      else if m_method m = ''ping'' then (Inr (Some (json_print (JObj []))), s)
      else if m_method m = ''prompts/list'' then (Inr (Some (json_print (JObj [(''prompts'', JArr [])]))), s)
      else if m_method m = ''resources/list'' then (Inr (Some (json_print (JObj [(''resources'', JArr [])]))), s)
      else if m_method m = ''resources/templates/list'' then (Inr (Some (json_print (JObj [(''resourceTemplates'', JArr [])]))), s)
      else if m_method m = ''tools/list'' then (Inr (tools_text (ms_tools srv)), s)
      else if m_method m = ''tools/call'' then
        (case read_call (m_params m) of
           None \<Rightarrow> (Inl \<lparr>er_code = code_invalid_params, er_message = ''tools/call needs a tool name'', er_data = []\<rparr>, s)
         | Some call \<Rightarrow>
             if \<not> has_tool srv (mc_name call) then
               (Inl \<lparr>er_code = code_invalid_params, er_message = ''unknown tool: '' @ mc_name call, er_data = []\<rparr>, s)
             else (case run_tool srv call s of (r, s') \<Rightarrow> (Inr (Some (json_print (result_json r))), s')))
      else (Inl \<lparr>er_code = code_method_not_found, er_message = ''method not found: '' @ m_method m, er_data = []\<rparr>, s))"

datatype handle_error = NotAMessage | NotEncodable

definition answer_message :: "string \<Rightarrow> rpc_error + string \<Rightarrow> message" where
  "answer_message i res =
     (case res of
        Inl e \<Rightarrow> empty_message\<lparr>m_jsonrpc := ''2.0'', m_id := i, m_error := Some e\<rparr>
      | Inr t \<Rightarrow> empty_message\<lparr>m_jsonrpc := ''2.0'', m_id := i, m_result := t\<rparr>)"

definition handle_message :: "'s mcp_server \<Rightarrow> string \<Rightarrow> 's \<Rightarrow> (handle_error + string option) \<times> 's" where
  "handle_message srv raw s =
     (case parse_message raw of
        None \<Rightarrow> (Inl NotAMessage, s)
      | Some m \<Rightarrow>
          if \<not> has_id m then (Inr None, s)
          else (case server_dispatch srv m s of
             (Inl e, s') \<Rightarrow> (Inr (Some (message_text (answer_message (m_id m) (Inl e)))), s')
           | (Inr None, s') \<Rightarrow> (Inl NotEncodable, s')
           | (Inr (Some t), s') \<Rightarrow> (Inr (Some (message_text (answer_message (m_id m) (Inr t)))), s')))"

section \<open>Over HTTP (http.go)\<close>

definition max_body :: nat where "max_body = 8 * 2 ^ 20"

datatype http_body = NoBody | Plain string | JsonBody string | FailureOf handle_error

record http_reply =
  hr_status :: nat
  hr_body :: http_body

text \<open>The body of a request is \<open>None\<close> when reading it fails.\<close>

definition serve_http :: "'s mcp_server \<Rightarrow> string \<Rightarrow> string option \<Rightarrow> 's \<Rightarrow> http_reply \<times> 's" where
  "serve_http srv meth given_body s =
     (if meth = ''DELETE'' then (\<lparr>hr_status = 200, hr_body = NoBody\<rparr>, s)
      else if meth \<noteq> ''POST'' then (\<lparr>hr_status = 405, hr_body = Plain ''method not allowed''\<rparr>, s)
      else (case given_body of
         None \<Rightarrow> (\<lparr>hr_status = 400, hr_body = Plain ''read body''\<rparr>, s)
       | Some full \<Rightarrow>
           let body = take (max_body + 1) full in
           if length body > max_body then (\<lparr>hr_status = 413, hr_body = Plain ''body too large''\<rparr>, s)
           else if has_prefix (trim_space body) ''['' then (\<lparr>hr_status = 400, hr_body = Plain ''batches are not supported''\<rparr>, s)
           else (case handle_message srv body s of
              (Inl e, s') \<Rightarrow> (\<lparr>hr_status = 400, hr_body = FailureOf e\<rparr>, s')
            | (Inr None, s') \<Rightarrow> (\<lparr>hr_status = 202, hr_body = NoBody\<rparr>, s')
            | (Inr (Some out), s') \<Rightarrow> (\<lparr>hr_status = 200, hr_body = JsonBody out\<rparr>, s'))))"

definition bearer :: "string \<Rightarrow> string" where "bearer token = ''Bearer '' @ token"

text \<open>The handler of a loopback listener, with the Authorization header of the request.\<close>

definition loopback_handle ::
  "string \<Rightarrow> 's mcp_server \<Rightarrow> string \<Rightarrow> string \<Rightarrow> string option \<Rightarrow> 's \<Rightarrow> http_reply \<times> 's" where
  "loopback_handle token srv auth meth body s =
     (if auth \<noteq> bearer token then (\<lparr>hr_status = 401, hr_body = Plain ''unauthorized''\<rparr>, s)
      else serve_http srv meth body s)"

section \<open>The bridge (bridge.go)\<close>

definition max_message :: nat where "max_message = 8 * 2 ^ 20"

text \<open>How a request went: it failed with an error, or was answered with a status, its text and a body.\<close>

datatype exchange = Failed string | Responded nat string string

definition post_result :: "exchange \<Rightarrow> string + string option" where
  "post_result ex =
     (case ex of
        Failed err \<Rightarrow> Inl err
      | Responded status line full \<Rightarrow>
          let body = take (max_message + 1) full in
          if status = 202 then Inr None
          else if status \<noteq> 200 then Inl (''server answered '' @ line @ '': '' @ trim_space body)
          else if length body > max_message then Inl ''answer too large''
          else Inr (Some (trim_space body)))"

definition head_id :: "string \<Rightarrow> string" where
  "head_id msg = (case json_parse msg of Some (JObj kvs) \<Rightarrow> last_raw ''id'' (raw_object msg) [] | _ \<Rightarrow> [])"

definition bridge_error :: "string \<Rightarrow> string \<Rightarrow> string" where
  "bridge_error i err =
     object_text [(''error'', object_text [(''code'', show_int (-32603)), (''message'', print_string (''mcpbridge: '' @ err))]),
                  (''id'', compact False i), (''jsonrpc'', print_string ''2.0'')]"

text \<open>What the bridge writes for a message, empty for nothing.\<close>

definition forward :: "string \<Rightarrow> exchange \<Rightarrow> string" where
  "forward msg ex =
     (let i = head_id msg;
          res = (case post_result ex of
                   Inl err \<Rightarrow> (if i = [] \<or> i = ''null'' then [] else bridge_error i err)
                 | Inr None \<Rightarrow> []
                 | Inr (Some t) \<Rightarrow> t)
      in if res = [] then [] else res @ [CHR 0x0A])"

definition status_line :: "nat \<Rightarrow> string" where
  "status_line n =
     (if n = 400 then ''400 Bad Request'' else if n = 401 then ''401 Unauthorized''
      else if n = 405 then ''405 Method Not Allowed'' else if n = 413 then ''413 Request Entity Too Large''
      else if n = 202 then ''202 Accepted'' else ''200 OK'')"

text \<open>\<open>http.Error\<close> ends the text it is given with a line feed; \<open>err\<close> is the text of a failure.\<close>

definition body_text :: "(handle_error \<Rightarrow> string) \<Rightarrow> http_body \<Rightarrow> string" where
  "body_text err b =
     (case b of NoBody \<Rightarrow> [] | Plain t \<Rightarrow> t @ [CHR 0x0A] | JsonBody t \<Rightarrow> t | FailureOf e \<Rightarrow> err e @ [CHR 0x0A])"

text \<open>
  A line of the agent through the bridge to a loopback server: what is written back. \<open>None\<close> when the line
  does not fit the buffer of the scanner together with its end: the scanner stops there with
  \<open>token too long\<close> and the bridge takes no more lines. That the answers still being fetched when the input
  ends are cancelled after \<open>EOFGrace\<close> is not modelled.
\<close>

definition bridge_line ::
  "(handle_error \<Rightarrow> string) \<Rightarrow> string \<Rightarrow> string \<Rightarrow> 's mcp_server \<Rightarrow> string \<Rightarrow> 's \<Rightarrow> (string \<times> 's) option" where
  "bridge_line err token auth srv line s =
     (let msg = trim_space line in
      if max_message \<le> length line then None
      else if msg = [] then Some ([], s)
      else (case loopback_handle token srv auth ''POST'' (Some msg) s of
         (r, s') \<Rightarrow> Some (forward msg (Responded (hr_status r) (status_line (hr_status r)) (body_text err (hr_body r))), s')))"

section \<open>The tools of a session (callerToolServer)\<close>

record tool_output =
  to_text :: string
  to_images :: "mcp_image list"
  to_is_error :: bool

text \<open>The caller's function gets the id of the invocation, the tool's name and the arguments.\<close>

definition caller_tool_server ::
  "tool list \<Rightarrow> (string \<Rightarrow> string \<Rightarrow> string \<Rightarrow> 's \<Rightarrow> (string + tool_output) \<times> 's) \<Rightarrow> caller_tools_error + 's mcp_server" where
  "caller_tool_server tools call =
     (case caller_tools tools of
        Inl e \<Rightarrow> Inl e
      | Inr ts \<Rightarrow> Inr
          \<lparr>ms_name = ''agentprotocol'', ms_version = ''1'',
           ms_tools = map (\<lambda>t. \<lparr>mt_name = ct_name t, mt_description = ct_description t, mt_schema = json_print (JObj (ct_schema t))\<rparr>) ts,
           ms_run = Some (\<lambda>c s.
             case call (mc_tool_use_id c) (mc_name c) (mc_arguments c) s of
               (Inl err, s') \<Rightarrow> (Inl err, s')
             | (Inr out, s') \<Rightarrow> (Inr \<lparr>mr_text = to_text out, mr_images = to_images out, mr_is_error = to_is_error out\<rparr>, s'))\<rparr>)"

section \<open>What the server says is well formed\<close>

definition result_ok :: "mcp_result \<Rightarrow> bool" where
  "result_ok r \<longleftrightarrow> valid_utf8 (mr_text r) \<and> list_all (\<lambda>i. valid_utf8 (mi_mime i)) (mr_images r)"

definition tool_ok :: "mcp_tool \<Rightarrow> bool" where
  "tool_ok t \<longleftrightarrow> valid_utf8 (mt_name t) \<and> valid_utf8 (mt_description t) \<and> (mt_schema t = [] \<or> is_value (mt_schema t))"

definition run_ok :: "(mcp_call \<Rightarrow> 's \<Rightarrow> (string + mcp_result) \<times> 's) \<Rightarrow> bool" where
  "run_ok run \<longleftrightarrow> (\<forall>call s. case fst (run call s) of Inl e \<Rightarrow> valid_utf8 e | Inr r \<Rightarrow> result_ok r)"

definition server_ok :: "'s mcp_server \<Rightarrow> bool" where
  "server_ok srv \<longleftrightarrow> valid_utf8 (ms_name srv) \<and> valid_utf8 (ms_version srv) \<and> list_all tool_ok (ms_tools srv)
     \<and> (case ms_run srv of None \<Rightarrow> True | Some run \<Rightarrow> run_ok run)"

lemma b64_valid: "valid_utf8 (b64_encode s)"
proof -
  have "byte (b64_digit d) < 0x80" if "d < 64" for d
    using that by (auto simp: b64_digit_def byte_def)
  moreover have "byte (CHR ''='') < 0x80" by (simp add: byte_def)
  ultimately have "\<forall>c \<in> set (b64_encode s). byte c < 0x80"
    by (induction s rule: b64_encode.induct) (simp_all add: sextets)
  then show ?thesis by (rule valid_chars)
qed

lemma content_ok: "result_ok r \<Longrightarrow> list_all json_ok (result_content r)"
  by (auto simp: result_ok_def result_content_def text_block_def image_block_def list_all_iff b64_valid byte_def)

lemma result_json_ok: "result_ok r \<Longrightarrow> json_ok (result_json r)"
  using content_ok [of r] by (simp add: result_json_def byte_def)

lemma is_value_print: "json_ok j \<Longrightarrow> is_value (json_print j)"
  by (auto simp: is_value_def)

lemma negotiated_ok: "valid_utf8 (negotiate_version v)"
  by (auto simp: negotiate_version_def protocol_versions_def byte_def)

lemma initialize_ok: "server_ok srv \<Longrightarrow> json_ok (initialize_json srv v)"
  by (simp add: initialize_json_def server_ok_def negotiated_ok byte_def)

definition tool_json :: "mcp_tool \<Rightarrow> json" where
  "tool_json t =
     JObj ([(''name'', JStr (mt_name t))] @ omit ''description'' (map_option JStr (given (mt_description t)))
       @ [(''inputSchema'', case given_json (mt_schema t) of None \<Rightarrow> JNull | Some j \<Rightarrow> j)])"

lemma tool_json_ok: "tool_ok t \<Longrightarrow> json_ok (tool_json t)"
  using given_value(2) [of "mt_schema t"]
  by (auto simp: tool_ok_def tool_json_def omit_oks given_def byte_def split: option.splits)

lemma is_value_valid: "is_value t \<Longrightarrow> json_valid t"
  by (auto simp: is_value_def json_valid_def json_parse_print)

lemma tool_entry_json: "tool_ok t \<Longrightarrow> tool_entry t = Some (json_print (tool_json t))"
proof -
  assume t: "tool_ok t"
  then have "(if mt_schema t = [] then ''null'' else compact False (mt_schema t))
      = json_print (case given_json (mt_schema t) of None \<Rightarrow> JNull | Some j \<Rightarrow> j)"
    using given_value(2) [of "mt_schema t"] json_print_not_Nil by (auto simp: tool_ok_def compact_print split: option.splits)
  moreover have "\<not> (mt_schema t \<noteq> [] \<and> \<not> json_valid (mt_schema t))"
    using t is_value_valid by (auto simp: tool_ok_def)
  ultimately show ?thesis
    by (auto simp: tool_entry_def tool_json_def object_text_json [symmetric] omit_maps print_given simp del: json_print.simps(6))
qed

lemma tools_text_json:
  "list_all tool_ok ts \<Longrightarrow> tools_text ts = Some (json_print (JObj [(''tools'', JArr (map tool_json ts))]))"
proof -
  have "list_all tool_ok ts \<Longrightarrow> tool_entries ts = Some (map (\<lambda>t. json_print (tool_json t)) ts)"
    by (induction ts) (simp_all add: tool_entry_json)
  then show "list_all tool_ok ts \<Longrightarrow> ?thesis"
    by (simp add: tools_text_def object_text_def member_text_def print_items_join comp_def)
qed

lemma dec_str_valid:
  "list_all (\<lambda>kv. valid_utf8 (fst kv) \<and> json_ok (snd kv)) kvs \<Longrightarrow> valid_utf8 old \<Longrightarrow> valid_utf8 (fst (dec_field conv_str k kvs old))"
  by (induction conv_str k kvs old rule: dec_field.induct) (auto simp: conv_str_def split: json.splits option.splits)

lemma read_call_name: "params = [] \<or> is_value params \<Longrightarrow> read_call params = Some call \<Longrightarrow> valid_utf8 (mc_name call)"
proof -
  assume p: "params = [] \<or> is_value params" and call: "read_call params = Some call"
  have "json_parse [] = None" by (simp add: json_parse_def skip_ws_def)
  with p call obtain j where j: "json_ok j" "params = json_print j" by (auto simp: read_call_def is_value_def)
  with call obtain kvs where "j = JObj kvs"
    by (cases j) (auto simp: read_call_def json_parse_print simp del: json_print.simps)
  moreover from this call j have "mc_name call = fst (dec_field conv_str ''name'' kvs [])"
    by (auto simp: read_call_def json_parse_print Let_def split: prod.splits if_splits simp del: json_print.simps)
  ultimately show ?thesis using dec_str_valid [of kvs "[]"] j by simp
qed

lemma run_tool_ok: "server_ok srv \<Longrightarrow> result_ok (fst (run_tool srv call s))"
proof -
  assume srv: "server_ok srv"
  show ?thesis
  proof (cases "ms_run srv")
    case None
    then show ?thesis by (simp add: run_tool_def result_ok_def byte_def)
  next
    case (Some run)
    with srv have "case fst (run call s) of Inl e \<Rightarrow> valid_utf8 e | Inr r \<Rightarrow> result_ok r"
      by (simp add: server_ok_def run_ok_def)
    with Some show ?thesis
      by (cases "run call s") (auto simp: run_tool_def result_ok_def split: sum.splits)
  qed
qed

text \<open>An answer: the text of a result, or an error, both well formed.\<close>

definition response_ok :: "rpc_error + string option \<Rightarrow> bool" where
  "response_ok a \<longleftrightarrow> (case a of Inl e \<Rightarrow> error_ok e | Inr t \<Rightarrow> (case t of None \<Rightarrow> False | Some t \<Rightarrow> is_value t))"

lemma code_ok: "int64_ok code_invalid_params" "int64_ok code_method_not_found" "int64_ok code_internal"
  by (simp_all add: int64_ok_def code_invalid_params_def code_method_not_found_def code_internal_def)

lemma call_response_ok:
  assumes "server_ok srv" "m_params m = [] \<or> is_value (m_params m)"
  shows "m_method m = ''tools/call'' \<Longrightarrow> response_ok (fst (server_dispatch srv m s))"
proof (cases "read_call (m_params m)")
  case None
  then show "m_method m = ''tools/call'' \<Longrightarrow> ?thesis"
    by (simp add: server_dispatch_def response_ok_def error_ok_def code_ok byte_def)
next
  case (Some call)
  obtain r s' where r: "run_tool srv call s = (r, s')" by (cases "run_tool srv call s")
  then have "is_value (json_print (result_json r))"
    using run_tool_ok [OF assms(1), of call s] by (intro is_value_print result_json_ok) simp
  with Some r read_call_name [OF assms(2) Some]
  show "m_method m = ''tools/call'' \<Longrightarrow> ?thesis"
    by (simp add: server_dispatch_def response_ok_def error_ok_def code_ok byte_def valid_append)
qed

lemma dispatch_response_ok:
  assumes "server_ok srv" "message_ok m"
  shows "response_ok (fst (server_dispatch srv m s))"
proof (cases "m_method m = ''tools/call''")
  case True
  then show ?thesis using call_response_ok [of srv m s] assms by (simp add: message_ok_def)
next
  case False
  have "is_value (json_print (initialize_json srv v))" for v
    using assms(1) by (intro is_value_print initialize_ok)
  moreover have "is_value (json_print (JObj []))" "is_value (json_print (JObj [(k, JArr [])]))" if "valid_utf8 k" for k
    using that by (auto intro!: is_value_print simp del: json_print.simps)
  moreover have tools: "tools_text (ms_tools srv) = Some (json_print (JObj [(''tools'', JArr (map tool_json (ms_tools srv)))]))"
    using assms(1) by (intro tools_text_json) (simp add: server_ok_def)
  moreover have "is_value (json_print (JObj [(''tools'', JArr (map tool_json (ms_tools srv)))]))"
    using assms(1) tool_json_ok by (intro is_value_print) (auto simp: server_ok_def list_all_iff byte_def)
  moreover have "valid_utf8 (m_method m)" using assms(2) by (simp add: message_ok_def)
  ultimately show ?thesis
    using False by (simp add: server_dispatch_def response_ok_def error_ok_def code_ok byte_def valid_append del: json_print.simps)
qed

lemma answer_ok:
  "is_value i \<Longrightarrow> error_ok e \<Longrightarrow> message_ok (answer_message i (Inl e))"
  "is_value i \<Longrightarrow> is_value t \<Longrightarrow> message_ok (answer_message i (Inr t))"
  by (simp_all add: message_ok_def answer_message_def empty_message_def byte_def)

lemma is_value_not_Nil: "is_value t \<Longrightarrow> t \<noteq> []"
  by (auto simp: is_value_def json_print_not_Nil)

section \<open>One reply to each request\<close>

text \<open>The reply to a request the server gives an answer to, and its state afterwards.\<close>

lemma handle_request:
  assumes "parse_message raw = Some m" "has_id m" "server_dispatch srv m s = (a, s')" "response_ok a"
  shows "handle_message srv raw s =
    (Inr (Some (message_text (answer_message (m_id m) (map_sum id the a)))), s')"
  using assms by (auto simp: handle_message_def response_ok_def split: sum.splits option.splits)

lemma answer_shape:
  assumes "is_value i" "response_ok a"
  shows "message_ok (answer_message i (map_sum id the a))"
    and "m_id (answer_message i x) = i" "m_method (answer_message i x) = []"
    and "m_error (answer_message i (map_sum id the a)) = None \<longleftrightarrow> m_result (answer_message i (map_sum id the a)) \<noteq> []"
  using assms is_value_not_Nil answer_ok
  by (auto simp: response_ok_def answer_message_def empty_message_def split: sum.splits option.splits)

text \<open>C9. Every request is answered exactly once and under its own id: for a message with an id, as
  \<open>json.Marshal\<close> writes one, and a server whose tools give well-formed results, the server
  writes one message, which reads back as a response to that id with either a result or an error and not
  both; a message without an id is answered with nothing and runs no tool.\<close>

theorem request_answered:
  assumes "message_ok m" "server_ok srv"
  shows "if has_id m
    then \<exists>ans s'. handle_message srv (message_text m) s = (Inr (Some (message_text ans)), s')
           \<and> parse_message (message_text ans) = Some ans \<and> m_id ans = m_id m \<and> m_method ans = []
           \<and> (m_error ans = None \<longleftrightarrow> m_result ans \<noteq> [])
    else handle_message srv (message_text m) s = (Inr None, s)"
proof (cases "has_id m")
  case True
  obtain a s' where a: "server_dispatch srv m s = (a, s')" by (cases "server_dispatch srv m s")
  with dispatch_response_ok [OF assms(2,1), of s] have ok: "response_ok a" by simp
  have "is_value (m_id m)" using True assms(1) by (auto simp: has_id_def message_ok_def)
  with handle_request [OF parse_message_text [OF assms(1)] True a ok] answer_shape [OF _ ok] parse_message_text True
  show ?thesis by auto
next
  case False
  then show ?thesis by (simp add: handle_message_def parse_message_text [OF assms(1)])
qed

section \<open>The sample server\<close>

text \<open>A server with one tool that says what it was given and counts its runs.\<close>

definition done_result :: mcp_result where
  "done_result = \<lparr>mr_text = ''done'', mr_images = [], mr_is_error = False\<rparr>"

definition echo_run :: "mcp_call \<Rightarrow> nat \<Rightarrow> (string + mcp_result) \<times> nat" where
  "echo_run c n = (Inr done_result, n + 1)"

definition echo_server :: "nat mcp_server" where
  "echo_server =
     \<lparr>ms_name = ''agentprotocol'', ms_version = ''1'',
      ms_tools = [\<lparr>mt_name = ''echo'', mt_description = [], mt_schema = ''{}''\<rparr>],
      ms_run = Some echo_run\<rparr>"

definition echo_params :: "(string \<times> json) list" where
  "echo_params = [(''name'', JStr ''echo''), (''_meta'', JObj [(tool_call_id_meta, JStr ''t1'')])]"

definition echo_call :: mcp_call where
  "echo_call = \<lparr>mc_name = ''echo'', mc_arguments = ''{}'', mc_tool_use_id = ''t1''\<rparr>"

definition echo_request :: message where
  "echo_request =
     empty_message\<lparr>m_jsonrpc := ''2.0'', m_id := show_int 1, m_method := ''tools/call'', m_params := json_print (JObj echo_params)\<rparr>"

lemma echo_server_ok: "server_ok echo_server"
proof -
  have "is_value (json_print (JObj []))" by (rule is_value_print) simp
  then show ?thesis by (simp add: server_ok_def echo_server_def tool_ok_def run_ok_def echo_run_def done_result_def result_ok_def byte_def)
qed

lemma show_1: "show_int 1 = ''1''"
  by code_simp

lemma echo_params_ok: "json_ok (JObj echo_params)"
  by (simp add: echo_params_def tool_call_id_meta_def byte_def)

lemma echo_request_ok: "message_ok echo_request"
proof -
  have "is_value (json_print (JNum (show_int 1)))" by (rule is_value_print) auto
  moreover have "is_value (json_print (JObj echo_params))" by (rule is_value_print [OF echo_params_ok])
  ultimately show ?thesis
    by (simp add: message_ok_def echo_request_def empty_message_def byte_def del: json_print.simps(6))
qed

lemma echo_has_id: "has_id echo_request"
  by (simp add: has_id_def echo_request_def empty_message_def show_1)

lemma echo_read: "read_call (json_print (JObj echo_params)) = Some echo_call"
  unfolding read_call_def json_parse_print [OF echo_params_ok] raw_object_print [OF echo_params_ok]
  by (simp add: echo_params_def echo_call_def message_keys conv_str_def meta_string_def)

theorem request_answered_witness:
  "\<exists>ans s'. handle_message echo_server (message_text echo_request) 0 = (Inr (Some (message_text ans)), s')
     \<and> parse_message (message_text ans) = Some ans \<and> m_id ans = ''1'' \<and> m_method ans = []
     \<and> (m_error ans = None \<longleftrightarrow> m_result ans \<noteq> [])"
  using request_answered [OF echo_request_ok echo_server_ok, of 0] echo_has_id
  by (simp add: echo_request_def empty_message_def show_1)

section \<open>Only what was asked for runs\<close>

lemma dispatch_runs:
  "server_dispatch srv m s = (a, s') \<Longrightarrow> s' \<noteq> s \<Longrightarrow>
   \<exists>call run. m_method m = ''tools/call'' \<and> read_call (m_params m) = Some call \<and> has_tool srv (mc_name call)
     \<and> ms_run srv = Some run \<and> s' = snd (run call s)"
  by (auto simp: server_dispatch_def run_tool_def split: if_splits option.splits prod.splits sum.splits)

lemma handle_runs:
  "handle_message srv raw s = (a, s') \<Longrightarrow> s' \<noteq> s \<Longrightarrow>
   \<exists>m b. parse_message raw = Some m \<and> has_id m \<and> server_dispatch srv m s = (b, s')"
  by (auto simp: handle_message_def split: if_splits option.splits prod.splits sum.splits)

lemma serve_runs:
  "serve_http srv meth body s = (r, s') \<Longrightarrow> s' \<noteq> s \<Longrightarrow>
   meth = ''POST'' \<and> (\<exists>full a. body = Some full \<and> length full \<le> max_body \<and> handle_message srv full s = (a, s'))"
  by (auto simp: serve_http_def Let_def split: if_splits option.splits prod.splits sum.splits)

text \<open>C8. A local process cannot make the caller's tools run by reaching the port, and an agent can only
  run what it names: when a request to the loopback server changed anything, it carried the bearer token
  and was a POST, within the size limit, of a \<open>tools/call\<close> request for a tool in the list, and the change
  is that of running that tool once with the arguments given.\<close>

theorem tools_run_when_asked:
  assumes "loopback_handle token srv auth meth body s = (r, s')" "s' \<noteq> s"
  shows "auth = bearer token \<and> meth = ''POST'' \<and>
    (\<exists>full m call run. body = Some full \<and> length full \<le> max_body \<and> parse_message full = Some m \<and> has_id m
       \<and> m_method m = ''tools/call'' \<and> read_call (m_params m) = Some call \<and> has_tool srv (mc_name call)
       \<and> ms_run srv = Some run \<and> s' = snd (run call s))"
proof -
  from assms have auth: "auth = bearer token" "serve_http srv meth body s = (r, s')"
    by (auto simp: loopback_handle_def split: if_splits)
  from serve_runs [OF this(2) assms(2)] obtain full a where
    "meth = ''POST''" "body = Some full" "length full \<le> max_body" "handle_message srv full s = (a, s')" by blast
  moreover from handle_runs [OF this(4) assms(2)] obtain m b where
    "parse_message full = Some m" "has_id m" "server_dispatch srv m s = (b, s')" by blast
  moreover from dispatch_runs [OF this(3) assms(2)] obtain call run where
    "m_method m = ''tools/call''" "read_call (m_params m) = Some call" "has_tool srv (mc_name call)"
    "ms_run srv = Some run" "s' = snd (run call s)" by blast
  ultimately show ?thesis using auth by blast
qed

text \<open>The answer to a call of a tool that gives a result.\<close>

lemma call_answer:
  assumes "message_ok m" "has_id m" "m_method m = ''tools/call''" "read_call (m_params m) = Some call"
    and "has_tool srv (mc_name call)" "ms_run srv = Some run" "run call s = (Inr r, s')"
  shows "handle_message srv (message_text m) s =
    (Inr (Some (message_text (answer_message (m_id m) (Inr (json_print (result_json r)))))), s')"
  using assms by (simp add: handle_message_def parse_message_text server_dispatch_def run_tool_def)

lemma message_text_braces: "message_text m = CHR ''{'' # tl (butlast (message_text m)) @ ''}''"
  by (simp add: message_text_def object_text_def)

lemma message_text_trim: "trim_space (message_text m) = message_text m"
  using trim_object [of "tl (butlast (message_text m))"] message_text_braces [of m] by metis

lemma message_text_start: "\<not> has_prefix (message_text m) ''[''" "message_text m \<noteq> []"
  by (simp_all add: message_text_def object_text_def has_prefix_def)

lemma bridged:
  assumes "handle_message srv (message_text m) s = (Inr (Some (message_text ans)), s')"
    and "length (message_text m) \<le> max_body" "length (message_text m) < max_message" "length (message_text ans) \<le> max_message"
  shows "bridge_line err token (bearer token) srv (message_text m) s = Some (message_text ans @ [CHR 0x0A], s')"
  using assms message_text_start
  by (simp add: bridge_line_def message_text_trim loopback_handle_def serve_http_def Let_def body_text_def forward_def
      post_result_def)

lemma echo_answered:
  "handle_message echo_server (message_text echo_request) n =
     (Inr (Some (message_text (answer_message ''1'' (Inr (json_print (result_json done_result)))))), n + 1)"
proof -
  have "m_method echo_request = ''tools/call''" "m_params echo_request = json_print (JObj echo_params)" "m_id echo_request = ''1''"
    by (simp_all add: echo_request_def empty_message_def show_1 del: json_print.simps)
  moreover have "has_tool echo_server (mc_name echo_call)" "ms_run echo_server = Some echo_run"
    by (simp_all add: has_tool_def echo_server_def echo_call_def)
  ultimately show ?thesis
    using call_answer [OF echo_request_ok echo_has_id, of echo_call echo_server echo_run n done_result "n + 1"] echo_read
    by (simp add: echo_run_def del: json_print.simps)
qed

text \<open>A string is written with at most six bytes for each of its own.\<close>

lemma print_chunk_length: "w \<noteq> [] \<Longrightarrow> length (print_chunk w) \<le> 6 * length w"
proof -
  have esc: "length (escape_u n) = 6" for n by (simp add: escape_u_def)
  assume "w \<noteq> []"
  then consider (one) c where "w = [c]" | (more) x y z where "w = x # y # z" by (cases w; cases "tl w") auto
  then show ?thesis
  proof cases
    case one
    then show ?thesis by (simp add: print_chunk_def esc)
  next
    case more
    have "print_chunk w = (if w = encode_rune 0x2028 then escape_u 0x2028
        else if w = encode_rune 0x2029 then escape_u 0x2029 else w)"
      by (simp add: print_chunk_def more)
    then show ?thesis using esc more by auto
  qed
qed

lemma print_string_length: "length (print_string s) \<le> 6 * length s + 2"
proof -
  have "[] \<notin> set ws \<Longrightarrow> length (concat (map print_chunk ws)) \<le> 6 * length (concat ws)" for ws
  proof (induction ws)
    case (Cons w ws)
    then show ?case using print_chunk_length [of w] by fastforce
  qed simp
  moreover have "[] \<notin> set (chunks s)"
    by (induction s rule: chunks.induct) auto
  ultimately have "length (print_body s) \<le> 6 * length s"
    by (metis print_body_def concat_chunks)
  then show ?thesis by (simp add: print_string_def)
qed

lemma echo_sizes: "length (message_text echo_request) \<le> max_body"
proof -
  have params: "given_json (json_print (JObj echo_params)) = Some (JObj echo_params)"
    by (simp add: given_json_def json_parse_print [OF echo_params_ok] json_print_not_Nil [OF echo_params_ok] del: json_print.simps)
  have "json_parse ''1'' = Some (JNum ''1'')"
    using json_parse_print [of "JNum (show_int 1)"] unfolding json_ok.simps json_print.simps show_1 by (metis show_1)
  then have "message_json echo_request =
      [(''jsonrpc'', JStr ''2.0''), (''id'', JNum ''1''), (''method'', JStr ''tools/call''), (''params'', JObj echo_params)]"
    by (simp add: message_json_def echo_request_def empty_message_def omit_def given_def params show_1 del: json_print.simps)
      (simp add: given_json_def)
  then have "length (json_print (JObj (message_json echo_request))) < 2000"
    using print_string_length [of "''jsonrpc''"] print_string_length [of "''2.0''"] print_string_length [of "''id''"]
      print_string_length [of "''method''"] print_string_length [of "''tools/call''"] print_string_length [of "''params''"]
      print_string_length [of "''name''"] print_string_length [of "''echo''"] print_string_length [of "''_meta''"]
      print_string_length [of "''t1''"] print_string_length [of tool_call_id_meta]
    by (simp add: echo_params_def tool_call_id_meta_def)
  then show ?thesis by (simp add: max_body_def message_text_json [OF echo_request_ok] del: json_print.simps)
qed

theorem tools_run_when_asked_witness:
  "\<exists>call. read_call (m_params echo_request) = Some call \<and> has_tool echo_server (mc_name call) \<and> m_method echo_request = ''tools/call''"
proof -
  obtain r where "loopback_handle ''t'' echo_server (bearer ''t'') ''POST'' (Some (message_text echo_request)) 0 = (r, 1)"
    using echo_answered [of 0] echo_sizes message_text_start
    by (simp add: loopback_handle_def serve_http_def Let_def message_text_trim)
  from tools_run_when_asked [OF this] parse_message_text [OF echo_request_ok] show ?thesis by auto
qed

section \<open>A call through everything\<close>

lemma run_version: "c_version (conn_run h ops c) = c_version c"
proof (induction ops arbitrary: c)
  case (Cons op ops)
  have "c_version (conn_step h op c) = c_version c"
    by (cases op) (auto simp: start_call_def pending_add_def act_def dispatch_def notify_def reply_def reply_error_def
        give_up_def end_stream_def Let_def split: option.splits sum.splits)
  with Cons.IH [of "conn_step h op c"] show ?case by simp
qed simp

lemma next_grows: "c_next c \<le> c_next (conn_run h ops c)"
proof (induction ops arbitrary: c)
  case (Cons op ops)
  have "c_next c \<le> c_next (conn_step h op c)"
    by (cases op) (auto simp: start_call_def pending_add_def act_def dispatch_def notify_def reply_def reply_error_def
        give_up_def end_stream_def Let_def split: option.splits sum.splits)
  also have "\<dots> \<le> c_next (conn_run h (op # ops) c)" using Cons.IH [of "conn_step h op c"] by simp
  finally show ?case .
qed simp

text \<open>The response to a call that was just made reaches it.\<close>

lemma call_then_reply:
  assumes "start_call name params True c = (Some ch, c1)" "\<not> c_done c" "0 \<le> c_next c" "c_next c < max_int64"
    and "parse_message line = Some m" "m_method m = []" "has_id m" "m_id m = show_int (c_next c + 1)"
  shows "call_result ch (conn_step h (DoLine line) c1) = Answered (case m_error m of Some e \<Rightarrow> Inl e | None \<Rightarrow> Inr (m_result m))"
proof -
  have id: "parse_int (m_id m) = Some (c_next c + 1)"
    using assms(3,4,8) by (simp add: parse_int_show min_int64_def)
  from assms(1) have c1: "ch = length (p_chans (c_pending c))" "c_done c1 = c_done c"
    "p_map (c_pending c1) (c_next c + 1) = Some ch" "p_chans (c_pending c1) = p_chans (c_pending c) @ [ChanOpen None]"
    by (auto simp: start_call_def pending_add_def Let_def act_def split: if_splits)
  then show ?thesis
    using assms(2) response_dispatch [OF assms(5,6,7) id, of h c1]
    by (simp add: pending_deliver_def call_result_def)
qed

text \<open>C1. A tool call from end to end: a call made on a connection, written as text, carried by the bridge
  to the loopback server with its token, run by the caller's function, written as a response and read
  back by the connection, ends with the text of the tool's result, and the tool ran once with the
  arguments that were given, provided that the messages are within the limits of the bridge and the server.\<close>

theorem tool_call_end_to_end:
  assumes "c = conn_run h ops (new_conn ''2.0'')" "\<not> c_done c" "c_next c < max_int64"
    and "start_call ''tools/call'' params True c = (Some ch, c1)"
    and "is_value params" "read_call params = Some call" "has_tool srv (mc_name call)"
    and "ms_run srv = Some run" "run call s = (Inr r, s')" "result_ok r"
  shows "\<exists>req ans. c_actions c1 = c_actions c @ [Wrote req]
    \<and> call_result ch (conn_step h (DoLine (message_text ans)) c1) = Answered (Inr (json_print (result_json r)))
    \<and> (length (message_text req) \<le> max_body \<and> length (message_text req) < max_message \<and> length (message_text ans) \<le> max_message
        \<longrightarrow> bridge_line err token (bearer token) srv (message_text req) s = Some (message_text ans @ [CHR 0x0A], s'))"
proof -
  define i where "i = show_int (c_next c + 1)"
  define req where "req = empty_message\<lparr>m_jsonrpc := ''2.0'', m_id := i, m_method := ''tools/call'', m_params := params\<rparr>"
  define ans where "ans = answer_message i (Inr (json_print (result_json r)))"
  have version: "c_version c = ''2.0''"
    using assms(1) by (simp add: run_version) (simp add: new_conn_def)
  have wrote: "c_actions c1 = c_actions c @ [Wrote req]"
    using assms(4) version by (auto simp: start_call_def pending_add_def Let_def act_def req_def i_def split: if_splits)
  have "json_ok (JNum i)" by (auto simp: i_def)
  from is_value_print [OF this] have i: "is_value i" by simp
  have id: "i \<noteq> ''null''" "i \<noteq> []" using show_int_first [of "c_next c + 1"] by (auto simp: i_def is_digit_def)
  have "0 \<le> c_next c" using next_grows [of "new_conn ''2.0''" h ops] assms(1) by (simp add: new_conn_def)
  have req: "message_ok req" "has_id req" "m_method req = ''tools/call''" "m_params req = params" "m_id req = i"
    using i id assms(5) by (simp_all add: req_def message_ok_def has_id_def empty_message_def byte_def)
  have ans: "message_ok ans" "has_id ans" "m_method ans = []" "m_id ans = i" "m_error ans = None"
    "m_result ans = json_print (result_json r)"
    using answer_ok(2) [OF i is_value_print [OF result_json_ok [OF assms(10)]]] id
    by (simp_all add: ans_def answer_message_def has_id_def empty_message_def)
  have result: "call_result ch (conn_step h (DoLine (message_text ans)) c1) = Answered (Inr (json_print (result_json r)))"
    using call_then_reply [OF assms(4,2) \<open>0 \<le> c_next c\<close> assms(3) parse_message_text [OF ans(1)] ans(3,2)] ans i_def
    by simp
  have "read_call (m_params req) = Some call" using assms(6) req(4) by simp
  from call_answer [OF req(1-3) this assms(7-9)]
  have handled: "handle_message srv (message_text req) s = (Inr (Some (message_text ans)), s')"
    by (simp only: req(5) ans_def)
  show ?thesis
    by (intro exI [of _ req] exI [of _ ans] conjI impI wrote result bridged [OF handled]) simp_all
qed

theorem tool_call_end_to_end_witness:
  "\<exists>c1 req ans. c_actions c1 = [Wrote req]
    \<and> call_result 0 (conn_step sample_handler (DoLine (message_text ans)) c1) = Answered (Inr (json_print (result_json done_result)))"
proof -
  let ?c = "conn_run sample_handler [] (new_conn ''2.0'')"
  have live: "\<not> c_done ?c" "c_next ?c < max_int64" by (simp_all add: new_conn_def max_int64_def)
  obtain c1 where call: "start_call ''tools/call'' (json_print (JObj echo_params)) True ?c = (Some 0, c1)"
    by (simp add: start_call_def new_conn_def pending_empty_def pending_add_def Let_def)
  have tool: "has_tool echo_server (mc_name echo_call)" "ms_run echo_server = Some echo_run"
    "echo_run echo_call 0 = (Inr done_result, 1)" "result_ok done_result"
    by (simp_all add: has_tool_def echo_server_def echo_call_def echo_run_def done_result_def result_ok_def byte_def)
  from tool_call_end_to_end [OF refl live call is_value_print [OF echo_params_ok] echo_read tool]
  obtain req ans where "c_actions c1 = c_actions ?c @ [Wrote req]"
    "call_result 0 (conn_step sample_handler (DoLine (message_text ans)) c1) = Answered (Inr (json_print (result_json done_result)))"
    by blast
  then show ?thesis by (intro exI conjI) (simp add: new_conn_def)
qed

end
