(* ===== verification/Acp_Map.thy ===== *)
theory Acp_Map
  imports A2A_Map
begin

text \<open>
  The Agent Client Protocol's messages about a running session (\<open>protocol/acp/protocol.go\<close>) and how they
  map to the events and decisions of this library (\<open>protocol/acp/map.go\<close>).

  A raw field is its text, empty when absent. The cost of a usage update, a \<open>float64\<close>, is left out.
\<close>

section \<open>Session updates\<close>

record session_update =
  up_kind :: string
  up_content :: string
  up_message_id :: string
  up_tool_call_id :: string
  up_status :: string
  up_title :: string
  up_raw_input :: string
  up_raw_output :: string
  up_meta :: string
  up_used :: "int option"
  up_size :: "int option"

definition user_message_chunk :: string where "user_message_chunk = ''user_message_chunk''"
definition agent_message_chunk :: string where "agent_message_chunk = ''agent_message_chunk''"
definition content_chunk :: string where "content_chunk = ''content_chunk''"
definition agent_thought_chunk :: string where "agent_thought_chunk = ''agent_thought_chunk''"
definition kind_tool_call :: string where "kind_tool_call = ''tool_call''"
definition kind_tool_call_update :: string where "kind_tool_call_update = ''tool_call_update''"
definition kind_plan :: string where "kind_plan = ''plan''"
definition kind_usage_update :: string where "kind_usage_update = ''usage_update''"

lemmas update_kinds =
  user_message_chunk_def agent_message_chunk_def content_chunk_def agent_thought_chunk_def kind_tool_call_def
  kind_tool_call_update_def kind_plan_def kind_usage_update_def

definition update_usage :: "session_update \<Rightarrow> (int \<times> int) option" where
  "update_usage u =
     (if up_kind u \<noteq> kind_usage_update then None
      else (case (up_used u, up_size u) of (Some used, Some window) \<Rightarrow> Some (used, window) | _ \<Rightarrow> None))"

text \<open>A content block's text; \<open>None\<close> when the value does not fit the struct.\<close>

definition block_text :: "json \<Rightarrow> string option" where
  "block_text j =
     (case j of
        JNull \<Rightarrow> Some []
      | JObj kvs \<Rightarrow>
          let t = dec_field conv_str ''text'' kvs [] in
          if snd t \<and> list_all (\<lambda>k. snd (dec_field conv_str k kvs [])) [''type'', ''uri'', ''name'', ''mimeType'', ''data'']
             \<and> snd (dec_field conv_int ''size'' kvs 0)
          then Some (fst t) else None
      | _ \<Rightarrow> None)"

fun blocks_text :: "json list \<Rightarrow> string option" where
  "blocks_text [] = Some []"
| "blocks_text (j # js) =
     (case (block_text j, blocks_text js) of (Some t, Some ts) \<Rightarrow> Some (t @ ts) | _ \<Rightarrow> None)"

definition update_text :: "session_update \<Rightarrow> string" where
  "update_text u =
     (case up_content u of
        [] \<Rightarrow> []
      | c # _ \<Rightarrow>
          if c = CHR ''['' then
            (case json_parse (up_content u) of
               Some (JArr js) \<Rightarrow> (case blocks_text js of Some t \<Rightarrow> t | None \<Rightarrow> [])
             | _ \<Rightarrow> [])
          else (case json_parse (up_content u) of
                  Some j \<Rightarrow> (case block_text j of Some t \<Rightarrow> t | None \<Rightarrow> [])
                | None \<Rightarrow> []))"

definition is_conversation :: "session_update \<Rightarrow> bool" where
  "is_conversation u \<longleftrightarrow>
     up_kind u \<in> {user_message_chunk, agent_message_chunk, content_chunk, agent_thought_chunk, kind_tool_call, kind_tool_call_update}"

definition is_user_turn :: "session_update \<Rightarrow> bool" where
  "is_user_turn u \<longleftrightarrow> up_kind u = user_message_chunk"

definition turn_done_kinds :: "string list" where
  "turn_done_kinds = [''turn_complete'', ''end_turn'', ''completed'', ''idle'']"

definition is_turn_done :: "session_update \<Rightarrow> bool" where
  "is_turn_done u \<longleftrightarrow> up_kind u \<in> set turn_done_kinds \<or> up_status u \<in> set turn_done_kinds"

section \<open>Events\<close>

definition invocation_status :: "string \<Rightarrow> tool_invocation_status" where
  "invocation_status s =
     (if s = ''pending'' then TPending
      else if s = ''in_progress'' \<or> s = ''running'' then TInProgress
      else if s = ''completed'' \<or> s = ''success'' then TCompleted
      else if s = ''cancelled'' \<or> s = ''canceled'' then TCancelled
      else TFailed)"

definition arguments_of :: "string \<Rightarrow> string_encoded_map" where
  "arguments_of raw =
     (if raw = [] then []
      else (case unmarshal_string_encoded_map raw of Inl _ \<Rightarrow> [] | Inr m \<Rightarrow> m))"

definition update_delta :: "string \<Rightarrow> string \<Rightarrow> string \<Rightarrow> int \<Rightarrow> string \<Rightarrow> agent_event option" where
  "update_delta kind run chat now t =
     (if t = [] then None
      else Some (new_event EvContentDelta run chat now
             (Some (JObj (content_delta_json \<lparr>cdp_kind = kind, cdp_delta = t, cdp_subagent_id = []\<rparr>)))))"

definition started_by :: "session_update \<Rightarrow> tool_started_payload" where
  "started_by u =
     \<lparr>tst_tool_invocation_id = up_tool_call_id u, tst_tool_name = up_title u, tst_tool_type = [],
      tst_display_name = up_title u, tst_arguments = arguments_of (up_raw_input u), tst_subagent_id = []\<rparr>"

definition completed_by :: "session_update \<Rightarrow> tool_completed_payload" where
  "completed_by u =
     \<lparr>tco_tool_invocation_id = up_tool_call_id u, tco_tool_name = up_title u,
      tco_status = tool_status_value (invocation_status (up_status u)), tco_result = update_text u,
      tco_duration_ms = 0, tco_subagent_id = []\<rparr>"

definition event_for_update :: "session_update \<Rightarrow> string \<Rightarrow> string \<Rightarrow> int \<Rightarrow> agent_event option" where
  "event_for_update u run chat now =
     (if up_kind u = agent_message_chunk \<or> up_kind u = content_chunk then
        update_delta content_delta_text run chat now (update_text u)
      else if up_kind u = agent_thought_chunk then
        update_delta content_delta_reasoning run chat now (update_text u)
      else if up_kind u = kind_tool_call then
        Some (new_event EvToolStarted run chat now (Some (JObj (tool_started_json (started_by u)))))
      else if up_kind u = kind_tool_call_update then
        (if \<not> tool_is_terminal (invocation_status (up_status u)) then None
         else Some (new_event EvToolCompleted run chat now (Some (JObj (tool_completed_json (completed_by u))))))
      else None)"

section \<open>Permission\<close>

record permission_option =
  po_id :: string
  po_kind :: string
  po_name :: string

record permission_tool_ref =
  pt_tool_call_id :: string
  pt_title :: string
  pt_raw_input :: string
  pt_meta :: string

record permission_request =
  pq_session_id :: string
  pq_tool_call :: "permission_tool_ref option"
  pq_options :: "permission_option list"
  pq_during_load :: bool

record permission_outcome =
  out_outcome :: string
  out_option_id :: string

definition selected :: "string \<Rightarrow> permission_outcome" where
  "selected i = \<lparr>out_outcome = ''selected'', out_option_id = i\<rparr>"

definition cancelled :: permission_outcome where
  "cancelled = \<lparr>out_outcome = ''cancelled'', out_option_id = []\<rparr>"

definition allow_once :: string where "allow_once = ''allow_once''"
definition allow_always :: string where "allow_always = ''allow_always''"
definition reject_once :: string where "reject_once = ''reject_once''"
definition reject_always :: string where "reject_always = ''reject_always''"

lemmas option_kinds = allow_once_def allow_always_def reject_once_def reject_always_def

fun first_of_kinds :: "string list \<Rightarrow> permission_option list \<Rightarrow> permission_option option" where
  "first_of_kinds [] opts = None"
| "first_of_kinds (k # ks) opts =
     (case find (\<lambda>o'. po_kind o' = k) opts of Some o' \<Rightarrow> Some o' | None \<Rightarrow> first_of_kinds ks opts)"

text \<open>The verb of a kind: what is before its first underscore, when something is.\<close>

definition verb_of :: "string \<Rightarrow> string" where
  "verb_of k =
     (let v = takeWhile (\<lambda>c. c \<noteq> CHR ''_'') k in if v = [] \<or> v = k then k else v)"

definition pick_option :: "permission_option list \<Rightarrow> string list \<Rightarrow> string option" where
  "pick_option opts prefer =
     (case first_of_kinds prefer opts of
        Some o' \<Rightarrow> Some (po_id o')
      | None \<Rightarrow>
          (case prefer of
             [] \<Rightarrow> None
           | k # _ \<Rightarrow> map_option po_id (find (\<lambda>o'. has_prefix (po_kind o') (verb_of k)) opts)))"

definition response_for_resolution :: "permission_request \<Rightarrow> interrupt_resolution \<Rightarrow> permission_outcome" where
  "response_for_resolution r d =
     (case d of
        ResolveAllow \<Rightarrow>
          (case pick_option (pq_options r) [allow_once, allow_always] of Some i \<Rightarrow> selected i | None \<Rightarrow> cancelled)
      | ResolveDeny \<Rightarrow>
          (case pick_option (pq_options r) [reject_once, reject_always] of Some i \<Rightarrow> selected i | None \<Rightarrow> cancelled)
      | OtherResolution _ \<Rightarrow> cancelled)"

definition approval_for_permission :: "permission_request \<Rightarrow> approval_required_payload" where
  "approval_for_permission r =
     (let p = no_approval_required\<lparr>apr_reason := interrupt_reason_value ReasonToolApproval\<rparr> in
      case pq_tool_call r of
        None \<Rightarrow> p
      | Some t \<Rightarrow> p\<lparr>apr_tool_invocation_id := pt_tool_call_id t, apr_tool_name := pt_title t,
                    apr_arguments := arguments_of (pt_raw_input t)\<rparr>)"

section \<open>Decisions\<close>

lemma find_in: "find P xs = Some x \<Longrightarrow> x \<in> set xs \<and> P x"
  by (auto simp: find_Some_iff in_set_conv_nth)

lemma first_of_kinds_in: "first_of_kinds ks opts = Some x \<Longrightarrow> x \<in> set opts \<and> po_kind x \<in> set ks"
  by (induction ks) (auto dest: find_in split: option.splits)

lemma first_of_kinds_none: "first_of_kinds ks opts = None \<longleftrightarrow> (\<forall>x \<in> set opts. po_kind x \<notin> set ks)"
  by (induction ks) (auto simp: find_None_iff split: option.splits dest: find_in)

text \<open>An option is picked exactly when one of the verb is offered, and it is one of the verb.\<close>

lemma pick_option_some:
  assumes "pick_option opts (k # ks) = Some i" "list_all (\<lambda>k'. has_prefix k' (verb_of k)) (k # ks)"
  shows "\<exists>x \<in> set opts. po_id x = i \<and> has_prefix (po_kind x) (verb_of k)"
proof (cases "first_of_kinds (k # ks) opts")
  case None
  then show ?thesis using assms(1) by (auto simp: pick_option_def simp del: first_of_kinds.simps dest: find_in)
next
  case (Some x)
  with first_of_kinds_in [OF Some] assms show ?thesis
    by (auto simp: pick_option_def list_all_iff simp del: first_of_kinds.simps)
qed

lemma pick_option_none:
  assumes "list_all (\<lambda>k'. has_prefix k' (verb_of k)) (k # ks)"
  shows "pick_option opts (k # ks) = None \<longleftrightarrow> (\<forall>x \<in> set opts. \<not> has_prefix (po_kind x) (verb_of k))"
proof (cases "first_of_kinds (k # ks) opts")
  case None
  then show ?thesis by (auto simp: pick_option_def find_None_iff simp del: first_of_kinds.simps)
next
  case (Some x)
  with first_of_kinds_in [OF Some] assms show ?thesis
    by (auto simp: pick_option_def list_all_iff simp del: first_of_kinds.simps)
qed

lemma verbs:
  "verb_of allow_once = ''allow''" "verb_of reject_once = ''reject''" "verb_of allow_always = ''allow''"
  by (simp_all add: verb_of_def option_kinds)

definition verb :: "interrupt_resolution \<Rightarrow> string option" where
  "verb d = (case d of ResolveAllow \<Rightarrow> Some ''allow'' | ResolveDeny \<Rightarrow> Some ''reject'' | OtherResolution _ \<Rightarrow> None)"

text \<open>The options an outcome can select for a decision.\<close>

definition fits :: "permission_option list \<Rightarrow> interrupt_resolution \<Rightarrow> string \<Rightarrow> bool" where
  "fits opts d i \<longleftrightarrow> list_ex (\<lambda>x. po_id x = i \<and> (case verb d of None \<Rightarrow> False | Some v \<Rightarrow> has_prefix (po_kind x) v)) opts"

lemma allow_prefixes: "list_all (\<lambda>k'. has_prefix k' (verb_of allow_once)) [allow_once, allow_always]"
  "list_all (\<lambda>k'. has_prefix k' (verb_of allow_always)) [allow_always, allow_once]"
  "list_all (\<lambda>k'. has_prefix k' (verb_of reject_once)) [reject_once, reject_always]"
  unfolding verbs by (simp_all add: option_kinds has_prefix_def)

lemma pick_fits:
  "pick_option opts [allow_once, allow_always] = Some i \<Longrightarrow> fits opts ResolveAllow i"
  "pick_option opts [allow_always, allow_once] = Some i \<Longrightarrow> fits opts ResolveAllow i"
  "pick_option opts [reject_once, reject_always] = Some i \<Longrightarrow> fits opts ResolveDeny i"
  using pick_option_some [OF _ allow_prefixes(1)] pick_option_some [OF _ allow_prefixes(2)] pick_option_some [OF _ allow_prefixes(3)]
  by (auto simp: fits_def verb_def verbs list_ex_iff)

lemma response_fits: "response_for_resolution r d = selected i \<Longrightarrow> fits (pq_options r) d i"
  using pick_fits by (auto simp: response_for_resolution_def selected_def cancelled_def split: interrupt_resolution.splits option.splits)

text \<open>C13. The agent gets the decision that was made, in its own terms: an approval selects an option the
  agent offered whose kind is an allowing one, a denial one whose kind is a rejecting one; with no such
  option on offer, and for any other decision, the request is cancelled. No option of the opposite kind,
  and none that was not offered, is ever selected.\<close>

theorem response_follows_decision:
  "(case verb d of
      None \<Rightarrow> response_for_resolution r d = cancelled
    | Some v \<Rightarrow>
        if list_ex (\<lambda>x. has_prefix (po_kind x) v) (pq_options r)
        then \<exists>i. response_for_resolution r d = selected i \<and> fits (pq_options r) d i
        else response_for_resolution r d = cancelled)"
proof (cases d)
  case ResolveAllow
  then show ?thesis
    using pick_option_none [OF allow_prefixes(1), of "pq_options r"] pick_fits(1) [of "pq_options r"]
    by (auto simp: verb_def verbs response_for_resolution_def list_ex_iff split: option.splits)
next
  case ResolveDeny
  then show ?thesis
    using pick_option_none [OF allow_prefixes(3), of "pq_options r"] pick_fits(3) [of "pq_options r"]
    by (auto simp: verb_def verbs response_for_resolution_def list_ex_iff split: option.splits)
qed (simp add: verb_def response_for_resolution_def)

end
