(* ===== verification/Acp_Tools.thy ===== *)
theory Acp_Tools
  imports Acp_Map
begin

text \<open>
  Which of an ACP agent's tool calls are the caller's own tools (\<open>driver/acp_tools.go\<close>): those are
  reported under the tool's bare name, and the agent's permission requests for them are allowed without
  asking anybody. The mutex of the Go struct makes each operation one step; a session without tools of
  the caller has no such state at all.
\<close>

record acp_caller_tools =
  at_server :: string
  at_names :: "string list"
  at_calls :: "string \<rightharpoonup> string"     \<comment> \<open>the bare name of each call recognised and not yet over\<close>

definition new_acp_caller_tools :: "string \<Rightarrow> string list \<Rightarrow> acp_caller_tools" where
  "new_acp_caller_tools server names = \<lparr>at_server = server, at_names = names, at_calls = Map.empty\<rparr>"

text \<open>The \<open>factory\<close> members of a \<open>_meta\<close>, together, and whether each was an object or null.\<close>

fun factory_members :: "(string \<times> json) list \<Rightarrow> (string \<times> json) list \<times> bool" where
  "factory_members [] = ([], True)"
| "factory_members ((k, j) # kvs) =
     (let (m, ok) = factory_members kvs in
      if equal_fold k ''factory'' then
        (case j of JNull \<Rightarrow> (m, ok) | JObj es \<Rightarrow> (es @ m, ok) | _ \<Rightarrow> (m, False))
      else (m, ok))"

definition match_meta :: "acp_caller_tools \<Rightarrow> string \<Rightarrow> string option" where
  "match_meta t meta =
     (if meta = [] then None
      else (case json_parse meta of
         Some (JObj kvs) \<Rightarrow>
           (let (m, ok) = factory_members kvs;
                (source, ok1) = dec_field conv_str ''source'' m [];
                (server, ok2) = dec_field conv_str ''server'' m [];
                (tool, ok3) = dec_field conv_str ''tool'' m []
            in if \<not> (ok \<and> ok1 \<and> ok2 \<and> ok3) then None
               else if source \<noteq> ''mcp'' \<or> server \<noteq> at_server t \<or> tool \<notin> set (at_names t) then None
               else Some tool)
       | _ \<Rightarrow> None))"

definition qualified_prefixes :: "string \<Rightarrow> string list" where
  "qualified_prefixes srv =
     [''mcp__'' @ srv @ ''__'', ''mcp_'' @ srv @ ''_'', srv @ ''__'', srv @ ''_'', srv @ ''/'', srv @ ''.'', srv @ '':'']"

fun match_title :: "string list \<Rightarrow> string list \<Rightarrow> string \<Rightarrow> string option" where
  "match_title names [] title = None"
| "match_title names (p # ps) title =
     (case cut_prefix title p of
        Some rest \<Rightarrow> if rest \<in> set names then Some rest else match_title names ps title
      | None \<Rightarrow> match_title names ps title)"

definition match_call :: "acp_caller_tools \<Rightarrow> string \<Rightarrow> string \<Rightarrow> string option" where
  "match_call t title meta =
     (case match_meta t meta of
        Some bare \<Rightarrow> Some bare
      | None \<Rightarrow> match_title (at_names t) (qualified_prefixes (at_server t)) title)"

definition is_terminal_tool_status :: "string \<Rightarrow> bool" where
  "is_terminal_tool_status s \<longleftrightarrow> s \<in> {''completed'', ''success'', ''failed'', ''error'', ''cancelled'', ''canceled''}"

definition observe :: "session_update \<Rightarrow> acp_caller_tools \<Rightarrow> string option \<times> acp_caller_tools" where
  "observe u t =
     (let found = match_call t (up_title u) (up_meta u); i = up_tool_call_id u in
      if i = [] then (found, t)
      else
        let (bare, calls) =
              (case found of
                 Some b \<Rightarrow> (Some b, (at_calls t)(i \<mapsto> b))
               | None \<Rightarrow> if up_kind u = kind_tool_call then (None, (at_calls t)(i := None))
                         else (at_calls t i, at_calls t))
        in (bare, t\<lparr>at_calls := if bare \<noteq> None \<and> is_terminal_tool_status (up_status u) then calls(i := None) else calls\<rparr>))"

definition owns :: "acp_caller_tools \<Rightarrow> permission_request \<Rightarrow> bool" where
  "owns t req =
     (case pq_tool_call req of
        None \<Rightarrow> False
      | Some c \<Rightarrow>
          match_call t (pt_title c) (pt_meta c) \<noteq> None
          \<or> (at_calls t (pt_tool_call_id c) \<noteq> None \<and> pt_tool_call_id c \<noteq> []))"

definition observe_all :: "session_update list \<Rightarrow> acp_caller_tools \<Rightarrow> acp_caller_tools" where
  "observe_all us t = foldl (\<lambda>t u. snd (observe u t)) t us"

section \<open>What the table of calls means\<close>

text \<open>An update that names one of the tools and does not end the call, and one after which a call is not
  the caller's any more.\<close>

definition announces :: "acp_caller_tools \<Rightarrow> string \<Rightarrow> session_update \<Rightarrow> bool" where
  "announces t i u \<longleftrightarrow>
     up_tool_call_id u = i \<and> match_call t (up_title u) (up_meta u) \<noteq> None \<and> \<not> is_terminal_tool_status (up_status u)"

definition ends_call :: "acp_caller_tools \<Rightarrow> string \<Rightarrow> session_update \<Rightarrow> bool" where
  "ends_call t i u \<longleftrightarrow>
     up_tool_call_id u = i
     \<and> (is_terminal_tool_status (up_status u)
        \<or> up_kind u = kind_tool_call \<and> match_call t (up_title u) (up_meta u) = None)"

lemma observe_fixed [simp]:
  "at_server (snd (observe u t)) = at_server t" "at_names (snd (observe u t)) = at_names t"
  by (simp_all add: observe_def Let_def split: option.split)

lemma match_call_cong:
  assumes "at_server t = at_server t'" "at_names t = at_names t'"
  shows "match_call t = match_call t'"
  by (intro ext) (unfold match_call_def match_meta_def assms, rule refl)

lemma observe_calls:
  "i \<noteq> [] \<Longrightarrow> i \<in> dom (at_calls (snd (observe u t))) \<longleftrightarrow>
     announces t i u \<or> (i \<in> dom (at_calls t) \<and> \<not> ends_call t i u)"
  by (auto simp: observe_def announces_def ends_call_def Let_def split: option.splits)

lemma observe_all_fixed [simp]:
  "at_server (observe_all us t) = at_server t" "at_names (observe_all us t) = at_names t"
  by (induction us arbitrary: t) (simp_all add: observe_all_def)

lemma observe_all_snoc: "observe_all (us @ [u]) t = snd (observe u (observe_all us t))"
  by (simp add: observe_all_def)

lemma announces_all: "announces (observe_all us t) = announces t" "ends_call (observe_all us t) = ends_call t"
proof -
  have "match_call (observe_all us t) = match_call t" by (rule match_call_cong) simp_all
  then show "announces (observe_all us t) = announces t" "ends_call (observe_all us t) = ends_call t"
    by (intro ext; simp add: announces_def ends_call_def)+
qed

definition still_ours :: "acp_caller_tools \<Rightarrow> string \<Rightarrow> session_update list \<Rightarrow> bool" where
  "still_ours t i us \<longleftrightarrow> (\<exists>as u bs. us = as @ u # bs \<and> announces t i u \<and> list_all (\<lambda>v. \<not> ends_call t i v) bs)"

lemma still_ours_snoc:
  "still_ours t i (us @ [u]) \<longleftrightarrow> announces t i u \<or> (still_ours t i us \<and> \<not> ends_call t i u)"
proof
  assume "still_ours t i (us @ [u])"
  then obtain as v bs where s: "us @ [u] = as @ v # bs" "announces t i v" "list_all (\<lambda>v. \<not> ends_call t i v) bs"
    unfolding still_ours_def by blast
  then show "announces t i u \<or> (still_ours t i us \<and> \<not> ends_call t i u)"
    by (cases bs rule: rev_cases) (auto simp: still_ours_def)
next
  assume r: "announces t i u \<or> (still_ours t i us \<and> \<not> ends_call t i u)"
  show "still_ours t i (us @ [u])"
  proof (cases "announces t i u")
    case True
    then show ?thesis unfolding still_ours_def by (intro exI [of _ us] exI [of _ u] exI [of _ "[]"]) simp
  next
    case False
    with r obtain as v bs where "us = as @ v # bs" "announces t i v" "list_all (\<lambda>v. \<not> ends_call t i v) bs" "\<not> ends_call t i u"
      unfolding still_ours_def by blast
    then show ?thesis unfolding still_ours_def by (intro exI [of _ as] exI [of _ v] exI [of _ "bs @ [u]"]) simp
  qed
qed

lemma calls_by_history:
  assumes "i \<noteq> []"
  shows "i \<in> dom (at_calls (observe_all us (new_acp_caller_tools srv names)))
    \<longleftrightarrow> still_ours (new_acp_caller_tools srv names) i us"
proof (induction us rule: rev_induct)
  case Nil
  then show ?case by (simp add: observe_all_def new_acp_caller_tools_def still_ours_def)
next
  case (snoc u us)
  then show ?case
    by (simp only: observe_all_snoc observe_calls [OF assms] still_ours_snoc announces_all)
qed

text \<open>C10. An agent's own tool is not taken for one of the caller's, and so is not allowed unasked: after
  any updates, a permission request counts as the caller's exactly when its own title or \<open>_meta\<close> names one
  of the tools, qualified by the server, or its call id was last announced by an update that does and has
  neither ended nor been taken over by a tool call that names something else since.\<close>

theorem ownership_by_history:
  "owns (observe_all us (new_acp_caller_tools srv names)) req \<longleftrightarrow>
     (\<exists>c. pq_tool_call req = Some c \<and>
        ((\<exists>tool. match_call (new_acp_caller_tools srv names) (pt_title c) (pt_meta c) = Some tool)
         \<or> pt_tool_call_id c \<noteq> [] \<and> still_ours (new_acp_caller_tools srv names) (pt_tool_call_id c) us))"
proof -
  let ?t = "new_acp_caller_tools srv names"
  have "match_call (observe_all us ?t) = match_call ?t" by (rule match_call_cong) simp_all
  moreover have "pt_tool_call_id c \<noteq> [] \<Longrightarrow>
      at_calls (observe_all us ?t) (pt_tool_call_id c) \<noteq> None \<longleftrightarrow> still_ours ?t (pt_tool_call_id c) us" for c
    using calls_by_history [of "pt_tool_call_id c" us srv names] by (simp add: dom_def)
  ultimately show ?thesis
    by (cases "pq_tool_call req") (auto simp: owns_def)
qed

end
