(* ===== verification/Acp_Session.thy ===== *)
theory Acp_Session
  imports Acp_Tools
begin

text \<open>
  A driver's session with an ACP agent (\<open>driver/acp.go\<close>): what it makes of the agent's updates, and the
  requests of the agent it parks until a person answers.

  Each request runs on a goroutine of its own; a request is an index into \<open>as_requests\<close>, and the goroutine's
  wait, its channel and its reply are the fields of that entry. The steps are the mutex sections and
  channel operations, in any order: a request arrives, a person resolves one, a goroutine takes its
  answer or sees the agent gone, the session fails what is parked. Turns are counted elsewhere, and an
  agent with extensions of its own is not modelled. The clock is the argument \<open>now\<close>.
\<close>

section \<open>State\<close>

text \<open>\<open>Values\<close> is a map of any values: none, values with their JSON, or one that \<open>json.Marshal\<close> refuses.\<close>

datatype given_values = NilValues | Values string_encoded_map | Unencodable

record resolution =
  rs_decision :: interrupt_resolution
  rs_scope :: string
  rs_reason :: string
  rs_values :: given_values

definition scope_once :: string where "scope_once = ''once''"
definition scope_session :: string where "scope_session = ''session''"
definition scope_always :: string where "scope_always = ''always''"

datatype acp_answer = Given resolution | Withdrawn

datatype asked = AskPermission permission_request | AskForm input_form

text \<open>An elicitation is answered with an action and, confirmed, the values.\<close>

datatype agent_reply = PermissionReply permission_outcome | FormReply string string

record pending_request =
  rq_asked :: asked
  rq_key :: string
  rq_tool :: string
  rq_unasked :: bool                           \<comment> \<open>answered on arrival, without asking\<close>
  rq_answer :: "acp_answer option"             \<comment> \<open>what was put on its channel, the first time\<close>
  rq_reply :: "agent_reply option"

record acp_session =
  as_id :: string
  as_run_id :: string
  as_chat_id :: string
  as_auto_allow :: bool
  as_tools :: "acp_caller_tools option"
  as_emit_replay :: bool
  as_window :: int
  as_requests :: "pending_request list"
  as_pending :: "string \<rightharpoonup> nat"
  as_ended :: bool                             \<comment> \<open>the agent's stream is over\<close>
  as_failed :: bool                            \<comment> \<open>\<open>closeOnce\<close> has run\<close>
  as_out :: "agent_event list"

definition resolution_value :: "interrupt_resolution \<Rightarrow> string" where
  "resolution_value d = (case d of ResolveAllow \<Rightarrow> ''allow'' | ResolveDeny \<Rightarrow> ''deny'' | OtherResolution t \<Rightarrow> t)"

definition emit_event :: "int \<Rightarrow> agent_event_type \<Rightarrow> (string \<times> json) list \<Rightarrow> acp_session \<Rightarrow> acp_session" where
  "emit_event now t p s =
     s\<lparr>as_out := as_out s @ [new_event t (as_run_id s) (as_chat_id s) now (Some (JObj p))]\<rparr>"

definition input_form_json :: "input_form \<Rightarrow> json" where
  "input_form_json f =
     JObj (omit_str ''message'' (if_message f)
       @ [(''requested_schema'', case if_schema f of None \<Rightarrow> JNull | Some j \<Rightarrow> j)])"

definition approval_required_json :: "approval_required_payload \<Rightarrow> (string \<times> json) list" where
  "approval_required_json p =
     fld_str ''tool_invocation_id'' (apr_tool_invocation_id p) @ fld_str ''tool_name'' (apr_tool_name p)
     @ omit_map ''arguments'' (apr_arguments p) @ fld_str ''reason'' (apr_reason p)
     @ (case apr_input p of None \<Rightarrow> [] | Some f \<Rightarrow> [(''input'', input_form_json f)])
     @ omit_str ''subagent_id'' (apr_subagent_id p)"

definition context_updated_json :: "int \<Rightarrow> int \<Rightarrow> (string \<times> json) list" where
  "context_updated_json used window = fld_int ''used_tokens'' used @ omit_int ''max_tokens'' window"

section \<open>Updates\<close>

definition on_update :: "int \<Rightarrow> session_update \<Rightarrow> bool \<Rightarrow> acp_session \<Rightarrow> acp_session" where
  "on_update now u replay s =
     (case update_usage u of
        Some (used, window) \<Rightarrow>
          emit_event now EvContextUpdated (context_updated_json used (if window = 0 then as_window s else window)) s
      | None \<Rightarrow>
          if replay \<and> \<not> as_emit_replay s then s
          else
            let (u, s) =
                  (case as_tools s of
                     None \<Rightarrow> (u, s)
                   | Some t \<Rightarrow>
                       if up_kind u = kind_tool_call \<or> up_kind u = kind_tool_call_update then
                         (case observe u t of
                            (Some bare, t') \<Rightarrow> (u\<lparr>up_title := bare\<rparr>, s\<lparr>as_tools := Some t'\<rparr>)
                          | (None, t') \<Rightarrow> (u, s\<lparr>as_tools := Some t'\<rparr>))
                       else (u, s))
            in (case event_for_update u (as_run_id s) (as_chat_id s) now of
                  None \<Rightarrow> s
                | Some ev \<Rightarrow> s\<lparr>as_out := as_out s @ [ev]\<rparr>))"

section \<open>Requests\<close>

text \<open>What the agent is told once its request has an answer.\<close>

definition permission_answer :: "permission_request \<Rightarrow> acp_answer \<Rightarrow> permission_outcome" where
  "permission_answer req a =
     (case a of
        Withdrawn \<Rightarrow> cancelled
      | Given res \<Rightarrow>
          let response = response_for_resolution req (rs_decision res) in
          if rs_decision res = ResolveAllow \<and> rs_scope res \<noteq> scope_once then
            (case pick_option (pq_options req) [allow_always, allow_once] of
               Some i \<Rightarrow> selected i
             | None \<Rightarrow> response)
          else response)"

definition form_answer :: "acp_answer \<Rightarrow> agent_reply" where
  "form_answer a =
     (case a of
        Withdrawn \<Rightarrow> FormReply ''cancel'' []
      | Given res \<Rightarrow>
          if rs_decision res \<noteq> ResolveAllow then FormReply ''decline'' []
          else (case rs_values res of
                  NilValues \<Rightarrow> FormReply ''confirm'' ''null''
                | Values m \<Rightarrow> FormReply ''confirm'' (sem_to_string m)
                | Unencodable \<Rightarrow> FormReply ''cancel'' []))"

definition finish :: "asked \<Rightarrow> acp_answer \<Rightarrow> agent_reply" where
  "finish q a = (case q of AskPermission req \<Rightarrow> PermissionReply (permission_answer req a) | AskForm _ \<Rightarrow> form_answer a)"

definition park :: "int \<Rightarrow> asked \<Rightarrow> approval_required_payload \<Rightarrow> acp_session \<Rightarrow> acp_session" where
  "park now q p s =
     (let key = (if apr_tool_invocation_id p = [] then as_id s else apr_tool_invocation_id p);
          r = \<lparr>rq_asked = q, rq_key = key, rq_tool = apr_tool_name p, rq_unasked = False, rq_answer = None, rq_reply = None\<rparr>
      in emit_event now EvApprovalRequired (approval_required_json (p\<lparr>apr_tool_invocation_id := key\<rparr>))
           (s\<lparr>as_requests := as_requests s @ [r], as_pending := (as_pending s)(key \<mapsto> length (as_requests s))\<rparr>))"

definition unasked :: "permission_request \<Rightarrow> acp_session \<Rightarrow> bool" where
  "unasked req s \<longleftrightarrow> as_auto_allow s \<or> (case as_tools s of None \<Rightarrow> False | Some t \<Rightarrow> owns t req)"

definition on_permission :: "int \<Rightarrow> permission_request \<Rightarrow> acp_session \<Rightarrow> acp_session" where
  "on_permission now req s =
     (if unasked req s then
        s\<lparr>as_requests := as_requests s @
            [\<lparr>rq_asked = AskPermission req, rq_key = [], rq_tool = [], rq_unasked = True, rq_answer = None,
              rq_reply = Some (PermissionReply (response_for_resolution req ResolveAllow))\<rparr>]\<rparr>
      else park now (AskPermission req) (approval_for_permission req) s)"

definition on_elicitation :: "int \<Rightarrow> input_form \<Rightarrow> acp_session \<Rightarrow> acp_session" where
  "on_elicitation now f s =
     park now (AskForm f)
       (no_approval_required\<lparr>apr_tool_name := ''elicitation'', apr_reason := interrupt_reason_value ReasonInput, apr_input := Some f\<rparr>) s"

text \<open>\<open>sync.Once\<close>: only the first answer counts.\<close>

definition settle :: "nat \<Rightarrow> acp_answer \<Rightarrow> acp_session \<Rightarrow> acp_session" where
  "settle k a s =
     s\<lparr>as_requests := (as_requests s)[k := (as_requests s ! k)\<lparr>rq_answer :=
         (case rq_answer (as_requests s ! k) of None \<Rightarrow> Some a | Some b \<Rightarrow> Some b)\<rparr>]\<rparr>"

text \<open>\<open>Resolve\<close>, with whether it knew the request.\<close>

definition resolve_request :: "int \<Rightarrow> string \<Rightarrow> resolution \<Rightarrow> acp_session \<Rightarrow> bool \<times> acp_session" where
  "resolve_request now i res s =
     (case as_pending s i of
        None \<Rightarrow> (False, s)
      | Some k \<Rightarrow>
          (True, emit_event now EvApprovalResolved
             (approval_resolved_json \<lparr>arp_tool_invocation_id = i, arp_tool_name = rq_tool (as_requests s ! k),
                                      arp_decision = resolution_value (rs_decision res), arp_reason = rs_reason res\<rparr>)
             (settle k (Given res) (s\<lparr>as_pending := (as_pending s)(i := None)\<rparr>))))"

definition set_reply :: "nat \<Rightarrow> agent_reply \<Rightarrow> acp_session \<Rightarrow> acp_session" where
  "set_reply k r s = s\<lparr>as_requests := (as_requests s)[k := (as_requests s ! k)\<lparr>rq_reply := Some r\<rparr>]\<rparr>"

text \<open>The two ways out of the \<open>select\<close> of a parked goroutine.\<close>

definition take_answer :: "nat \<Rightarrow> acp_session \<Rightarrow> acp_session" where
  "take_answer k s =
     (if k < length (as_requests s) \<and> rq_reply (as_requests s ! k) = None then
        (case rq_answer (as_requests s ! k) of
           None \<Rightarrow> s
         | Some a \<Rightarrow> set_reply k (finish (rq_asked (as_requests s ! k)) a) s)
      else s)"

definition drop_pending :: "string \<Rightarrow> acp_session \<Rightarrow> acp_session" where
  "drop_pending i s = s\<lparr>as_pending := (as_pending s)(i := None)\<rparr>"

definition leave :: "nat \<Rightarrow> acp_session \<Rightarrow> acp_session" where
  "leave k s =
     (if as_ended s \<and> k < length (as_requests s) \<and> rq_reply (as_requests s ! k) = None then
        set_reply k (finish (rq_asked (as_requests s ! k)) Withdrawn) (drop_pending (rq_key (as_requests s ! k)) s)
      else s)"

definition fail_pending :: "acp_session \<Rightarrow> acp_session" where
  "fail_pending s =
     s\<lparr>as_pending := Map.empty,
       as_requests := map (\<lambda>k. let r = as_requests s ! k in
           if k \<in> ran (as_pending s) \<and> rq_answer r = None then r\<lparr>rq_answer := Some Withdrawn\<rparr> else r)
         [0..<length (as_requests s)]\<rparr>"

section \<open>Steps\<close>

datatype acp_op =
    DoUpdate session_update bool
  | DoPermission permission_request
  | DoElicit input_form
  | DoResolve string resolution
  | DoTake nat
  | DoLeave nat
  | DoFail
  | DoAgentGone

fun acp_step :: "int \<Rightarrow> acp_op \<Rightarrow> acp_session \<Rightarrow> acp_session" where
  "acp_step now (DoUpdate u replay) s = on_update now u replay s"
| "acp_step now (DoPermission req) s = on_permission now req s"
| "acp_step now (DoElicit f) s = on_elicitation now f s"
| "acp_step now (DoResolve i res) s = snd (resolve_request now i res s)"
| "acp_step now (DoTake k) s = take_answer k s"
| "acp_step now (DoLeave k) s = leave k s"
| "acp_step now DoFail s = (if as_failed s then s else (fail_pending s)\<lparr>as_failed := True\<rparr>)"
| "acp_step now DoAgentGone s = s\<lparr>as_ended := True\<rparr>"

definition acp_run :: "(int \<times> acp_op) list \<Rightarrow> acp_session \<Rightarrow> acp_session" where
  "acp_run ops s = foldl (\<lambda>s (now, op). acp_step now op s) s ops"

definition fresh_session :: "acp_session \<Rightarrow> bool" where
  "fresh_session s \<longleftrightarrow> as_requests s = [] \<and> as_pending s = Map.empty \<and> \<not> as_ended s \<and> \<not> as_failed s"

section \<open>What steps do to requests\<close>

lemma acp_run_simps [simp]:
  "acp_run [] s = s" "acp_run (op # ops) s = acp_run ops (acp_step (fst op) (snd op) s)"
  "acp_run (ops @ ops') s = acp_run ops' (acp_run ops s)"
  by (simp_all add: acp_run_def case_prod_unfold)

lemma nth_update: "j < length xs \<Longrightarrow> xs[i := x] ! j = (if i = j then x else xs ! j)"
  by (cases "i < length xs") (auto simp: nth_list_update)

lemma emit_event_sel [simp]:
  "as_requests (emit_event now t p s) = as_requests s" "as_pending (emit_event now t p s) = as_pending s"
  "as_ended (emit_event now t p s) = as_ended s" "as_failed (emit_event now t p s) = as_failed s"
  "as_id (emit_event now t p s) = as_id s"
  by (simp_all add: emit_event_def)

lemma on_update_sel [simp]:
  "as_requests (on_update now u replay s) = as_requests s" "as_pending (on_update now u replay s) = as_pending s"
  "as_ended (on_update now u replay s) = as_ended s" "as_failed (on_update now u replay s) = as_failed s"
  by (auto simp: on_update_def Let_def split: option.split prod.split)

lemma set_reply_sel [simp]:
  "as_pending (set_reply k r s) = as_pending s" "as_ended (set_reply k r s) = as_ended s"
  "as_failed (set_reply k r s) = as_failed s" "length (as_requests (set_reply k r s)) = length (as_requests s)"
  by (simp_all add: set_reply_def)

lemma settle_sel [simp]:
  "as_pending (settle k a s) = as_pending s" "as_ended (settle k a s) = as_ended s"
  "as_failed (settle k a s) = as_failed s" "length (as_requests (settle k a s)) = length (as_requests s)"
  by (simp_all add: settle_def)

text \<open>A request of before is still there, asked for the same and at most answered and replied to since.\<close>

definition follows :: "pending_request \<Rightarrow> pending_request \<Rightarrow> bool" where
  "follows r r' \<longleftrightarrow>
     rq_asked r' = rq_asked r \<and> rq_key r' = rq_key r \<and> rq_unasked r' = rq_unasked r
     \<and> (rq_answer r = None \<or> rq_answer r' = rq_answer r) \<and> (rq_reply r = None \<or> rq_reply r' = rq_reply r)"

definition continues :: "acp_session \<Rightarrow> acp_session \<Rightarrow> bool" where
  "continues s s' \<longleftrightarrow>
     length (as_requests s) \<le> length (as_requests s')
     \<and> (\<forall>k < length (as_requests s). follows (as_requests s ! k) (as_requests s' ! k))
     \<and> (as_ended s \<longrightarrow> as_ended s') \<and> (as_failed s \<longrightarrow> as_failed s')"

lemma follows_refl [simp]: "follows r r"
  by (simp add: follows_def)

lemma follows_trans: "follows r r' \<Longrightarrow> follows r' r'' \<Longrightarrow> follows r r''"
  by (auto simp: follows_def)

lemma continues_refl [simp]: "continues s s"
  by (simp add: continues_def)

lemma continues_trans: "continues s s' \<Longrightarrow> continues s' s'' \<Longrightarrow> continues s s''"
  by (force simp: continues_def intro: follows_trans)

lemma park_continues: "continues s (park now q p s)"
  by (simp add: continues_def park_def Let_def nth_append)

lemma resolve_continues: "continues s (snd (resolve_request now i res s))"
  by (auto simp: resolve_request_def continues_def settle_def nth_update follows_def split: option.split)

lemma take_answer_continues: "continues s (take_answer k s)"
  by (auto simp: take_answer_def continues_def set_reply_def nth_update follows_def split: option.split)

lemma leave_continues: "continues s (leave k s)"
  by (auto simp: leave_def continues_def set_reply_def drop_pending_def nth_update follows_def)

lemma fail_continues: "continues s ((fail_pending s)\<lparr>as_failed := True\<rparr>)"
  by (simp add: fail_pending_def continues_def follows_def Let_def)

lemma step_continues: "continues s (acp_step now op s)"
proof (cases op)
  case (DoUpdate u replay)
  then show ?thesis by (simp add: continues_def)
next
  case (DoPermission req)
  then show ?thesis
    using park_continues by (simp add: on_permission_def) (simp add: continues_def nth_append)
next
  case DoAgentGone
  then show ?thesis by (simp add: continues_def)
qed (simp_all add: park_continues on_elicitation_def resolve_continues take_answer_continues leave_continues fail_continues)

lemma run_continues: "continues s (acp_run ops s)"
  by (induction ops arbitrary: s) (auto intro: continues_trans step_continues simp del: acp_step.simps)

section \<open>What is parked\<close>

definition parked :: "acp_session \<Rightarrow> nat \<Rightarrow> bool" where
  "parked s k \<longleftrightarrow> k < length (as_requests s) \<and> \<not> rq_unasked (as_requests s ! k)"

definition open_request :: "acp_session \<Rightarrow> nat \<Rightarrow> bool" where
  "open_request s k \<longleftrightarrow> parked s k \<and> rq_answer (as_requests s ! k) = None \<and> rq_reply (as_requests s ! k) = None"

text \<open>No later request is parked under the same key.\<close>

definition newest :: "acp_session \<Rightarrow> nat \<Rightarrow> bool" where
  "newest s k \<longleftrightarrow> (\<forall>j < length (as_requests s). k < j \<and> parked s j \<longrightarrow> rq_key (as_requests s ! j) \<noteq> rq_key (as_requests s ! k))"

text \<open>The table holds open requests, each the newest under its key; as long as the agent is there and the
  session is not closed, it holds all of those.\<close>

definition table_ok :: "acp_session \<Rightarrow> bool" where
  "table_ok s \<longleftrightarrow>
     (\<forall>i k. as_pending s i = Some k \<longrightarrow> open_request s k \<and> rq_key (as_requests s ! k) = i \<and> newest s k)
     \<and> (\<not> as_ended s \<and> \<not> as_failed s \<longrightarrow> (\<forall>k. open_request s k \<and> newest s k \<longrightarrow> as_pending s (rq_key (as_requests s ! k)) = Some k))"

lemma fresh_table: "fresh_session s \<Longrightarrow> table_ok s"
  by (simp add: fresh_session_def table_ok_def open_request_def parked_def)

lemma table_okI:
  assumes "\<And>i k. as_pending s i = Some k \<Longrightarrow> open_request s k \<and> rq_key (as_requests s ! k) = i \<and> newest s k"
    and "\<And>k. \<not> as_ended s \<Longrightarrow> \<not> as_failed s \<Longrightarrow> open_request s k \<Longrightarrow> newest s k \<Longrightarrow> as_pending s (rq_key (as_requests s ! k)) = Some k"
  shows "table_ok s"
  using assms by (auto simp: table_ok_def)

lemma table_okD:
  assumes "table_ok s"
  shows "as_pending s i = Some k \<Longrightarrow> open_request s k \<and> rq_key (as_requests s ! k) = i \<and> newest s k"
    and "\<not> as_ended s \<Longrightarrow> \<not> as_failed s \<Longrightarrow> open_request s k \<Longrightarrow> newest s k \<Longrightarrow> as_pending s (rq_key (as_requests s ! k)) = Some k"
  using assms by (auto simp: table_ok_def)

text \<open>A new entry, and a change of one entry that keeps its key.\<close>

lemma new_request:
  assumes "as_requests s' = as_requests s @ [r]"
  shows "k < length (as_requests s) \<Longrightarrow> open_request s' k = open_request s k"
    and "k < length (as_requests s) \<Longrightarrow> as_requests s' ! k = as_requests s ! k"
    and "open_request s' (length (as_requests s)) \<longleftrightarrow> \<not> rq_unasked r \<and> rq_answer r = None \<and> rq_reply r = None"
    and "as_requests s' ! length (as_requests s) = r" "newest s' (length (as_requests s))"
    and "k < length (as_requests s) \<Longrightarrow> newest s' k \<longleftrightarrow> newest s k \<and> (rq_unasked r \<or> rq_key r \<noteq> rq_key (as_requests s ! k))"
    and "open_request s' k \<Longrightarrow> k \<le> length (as_requests s)"
  by (auto simp: assms open_request_def parked_def newest_def nth_append less_Suc_eq)

lemma changed_request:
  assumes "as_requests s' = (as_requests s)[c := r]" "c < length (as_requests s)"
    and "rq_key r = rq_key (as_requests s ! c)" "rq_unasked r = rq_unasked (as_requests s ! c)"
  shows "newest s' k = newest s k" "k \<noteq> c \<Longrightarrow> open_request s' k = open_request s k"
    and "open_request s' c \<longleftrightarrow> \<not> rq_unasked r \<and> rq_answer r = None \<and> rq_reply r = None"
    and "rq_key (as_requests s' ! k) = rq_key (as_requests s ! k)"
proof -
  have key: "rq_key (as_requests s' ! j) = rq_key (as_requests s ! j)" for j
    using assms by (cases "j = c") simp_all
  have "rq_unasked (as_requests s' ! j) = rq_unasked (as_requests s ! j)" for j
    using assms by (cases "j = c") simp_all
  then have "parked s' = parked s" using assms(1) by (auto simp: parked_def fun_eq_iff)
  with key assms(1) show "newest s' k = newest s k" by (simp add: newest_def)
  show "k \<noteq> c \<Longrightarrow> open_request s' k = open_request s k"
    using assms(1) by (simp add: open_request_def parked_def)
  show "open_request s' c \<longleftrightarrow> \<not> rq_unasked r \<and> rq_answer r = None \<and> rq_reply r = None"
    using assms(1,2) by (auto simp: open_request_def parked_def)
  show "rq_key (as_requests s' ! k) = rq_key (as_requests s ! k)" by (rule key)
qed

lemma park_table:
  assumes "table_ok s"
  shows "table_ok (park now q p s)"
proof -
  let ?n = "length (as_requests s)"
  obtain r key where r: "as_requests (park now q p s) = as_requests s @ [r]" "rq_key r = key" "\<not> rq_unasked r"
    "rq_answer r = None" "rq_reply r = None" and p: "as_pending (park now q p s) = (as_pending s)(key \<mapsto> ?n)"
    and flags: "as_ended (park now q p s) = as_ended s" "as_failed (park now q p s) = as_failed s"
    by (simp add: park_def Let_def)
  note new = new_request [OF r(1)]
  show ?thesis
  proof (rule table_okI)
    fix i k assume i: "as_pending (park now q p s) i = Some k"
    show "open_request (park now q p s) k \<and> rq_key (as_requests (park now q p s) ! k) = i \<and> newest (park now q p s) k"
    proof (cases "i = key")
      case True
      then show ?thesis using i p new r by simp
    next
      case False
      with i p have "as_pending s i = Some k" by simp
      from table_okD(1) [OF assms this] False new(1,2,6) [of k] r show ?thesis
        by (auto simp: open_request_def parked_def)
    qed
  next
    fix k assume k: "\<not> as_ended (park now q p s)" "\<not> as_failed (park now q p s)" "open_request (park now q p s) k" "newest (park now q p s) k"
    show "as_pending (park now q p s) (rq_key (as_requests (park now q p s) ! k)) = Some k"
    proof (cases "k = ?n")
      case True
      then show ?thesis using p r new(4) by simp
    next
      case False
      with new(7) [OF k(3)] have "k < ?n" by simp
      with k new(1,2,6) [of k] table_okD(2) [OF assms, of k] flags r p show ?thesis by auto
    qed
  qed
qed

lemma unasked_table:
  assumes "table_ok s" "as_requests s' = as_requests s @ [r]" "rq_unasked r" "as_pending s' = as_pending s"
    and "as_ended s' = as_ended s" "as_failed s' = as_failed s"
  shows "table_ok s'"
proof (rule table_okI)
  note new = new_request [OF assms(2)]
  fix i k assume "as_pending s' i = Some k"
  with table_okD(1) [OF assms(1), of i k] assms(3,4) new(1,2,6) [of k]
  show "open_request s' k \<and> rq_key (as_requests s' ! k) = i \<and> newest s' k"
    by (auto simp: open_request_def parked_def)
next
  note new = new_request [OF assms(2)]
  fix k assume k: "\<not> as_ended s'" "\<not> as_failed s'" "open_request s' k" "newest s' k"
  have "k \<noteq> length (as_requests s)" using k(3) new(3) assms(3) by auto
  with new(7) [OF k(3)] have "k < length (as_requests s)" by simp
  with k new(1,2,6) [of k] table_okD(2) [OF assms(1), of k] assms(3-6)
  show "as_pending s' (rq_key (as_requests s' ! k)) = Some k" by simp
qed

lemma resolve_table:
  assumes "table_ok s"
  shows "table_ok (snd (resolve_request now i res s))"
proof (cases "as_pending s i")
  case None
  then show ?thesis using assms by (simp add: resolve_request_def)
next
  case (Some c)
  let ?s = "snd (resolve_request now i res s)"
  from table_okD(1) [OF assms Some] have c: "c < length (as_requests s)" "rq_answer (as_requests s ! c) = None"
    "rq_key (as_requests s ! c) = i"
    by (simp_all add: open_request_def parked_def)
  have s: "as_requests ?s = (as_requests s)[c := (as_requests s ! c)\<lparr>rq_answer := Some (Given res)\<rparr>]"
    "as_pending ?s = (as_pending s)(i := None)" "as_ended ?s = as_ended s" "as_failed ?s = as_failed s"
    using Some c(2) by (simp_all add: resolve_request_def settle_def)
  note ch = changed_request [OF s(1) c(1)]
  show ?thesis
  proof (rule table_okI)
    fix j k assume "as_pending ?s j = Some k"
    then have j: "j \<noteq> i" "as_pending s j = Some k" using s(2) by (auto split: if_splits)
    have "k \<noteq> c" using table_okD(1) [OF assms j(2)] j(1) c(3) by auto
    with table_okD(1) [OF assms j(2)] ch(1,2,4) [of k]
    show "open_request ?s k \<and> rq_key (as_requests ?s ! k) = j \<and> newest ?s k" by auto
  next
    fix k assume k: "\<not> as_ended ?s" "\<not> as_failed ?s" "open_request ?s k" "newest ?s k"
    have "k \<noteq> c" using k(3) ch(3) by auto
    with k ch(1,2) [of k] s(3,4) have "as_pending s (rq_key (as_requests s ! k)) = Some k"
      using table_okD(2) [OF assms, of k] by simp
    with Some \<open>k \<noteq> c\<close> ch(4) [of k] s(2) show "as_pending ?s (rq_key (as_requests ?s ! k)) = Some k" by auto
  qed
qed

lemma replied_table:
  assumes "table_ok s" "c < length (as_requests s)"
    and s': "as_requests s' = (as_requests s)[c := (as_requests s ! c)\<lparr>rq_reply := Some r\<rparr>]"
    and less: "\<And>i k. as_pending s' i = Some k \<Longrightarrow> as_pending s i = Some k \<and> k \<noteq> c"
    and more: "\<And>i k. \<not> as_ended s' \<Longrightarrow> \<not> as_failed s' \<Longrightarrow> \<not> as_ended s \<and> \<not> as_failed s \<and> as_pending s' = as_pending s"
  shows "table_ok s'"
proof (rule table_okI)
  note ch = changed_request [OF s' assms(2)]
  fix i k assume "as_pending s' i = Some k"
  from less [OF this] table_okD(1) [OF assms(1), of i k] ch(1,2,4) [of k]
  show "open_request s' k \<and> rq_key (as_requests s' ! k) = i \<and> newest s' k" by simp
next
  note ch = changed_request [OF s' assms(2)]
  fix k assume k: "\<not> as_ended s'" "\<not> as_failed s'" "open_request s' k" "newest s' k"
  have "k \<noteq> c" using k(3) ch(3) by auto
  with k ch(1,2,4) [of k] more [OF k(1,2)] table_okD(2) [OF assms(1), of k]
  show "as_pending s' (rq_key (as_requests s' ! k)) = Some k" by simp
qed

lemma take_table:
  assumes "table_ok s"
  shows "table_ok (take_answer k s)"
proof (cases "k < length (as_requests s) \<and> rq_reply (as_requests s ! k) = None \<and> rq_answer (as_requests s ! k) \<noteq> None")
  case False
  then show ?thesis using assms by (auto simp: take_answer_def split: option.split)
next
  case True
  then obtain a where a: "rq_answer (as_requests s ! k) = Some a" by auto
  have "as_pending s i = Some j \<Longrightarrow> j \<noteq> k" for i j
    using table_okD(1) [OF assms, of i j] a by (auto simp: open_request_def)
  with True a show ?thesis
    by (intro replied_table [OF assms, of k _ "finish (rq_asked (as_requests s ! k)) a"])
      (simp_all add: take_answer_def set_reply_def)
qed

lemma leave_table:
  assumes "table_ok s"
  shows "table_ok (leave k s)"
proof (cases "as_ended s \<and> k < length (as_requests s) \<and> rq_reply (as_requests s ! k) = None")
  case False
  then show ?thesis using assms by (auto simp: leave_def)
next
  case True
  have "as_pending s i = Some j \<Longrightarrow> i \<noteq> rq_key (as_requests s ! k) \<Longrightarrow> j \<noteq> k" for i j
    using table_okD(1) [OF assms, of i j] by auto
  with True show ?thesis
    by (intro replied_table [OF assms, of k _ "finish (rq_asked (as_requests s ! k)) Withdrawn"])
      (auto simp: leave_def set_reply_def drop_pending_def split: if_splits)
qed

lemma same_requests:
  assumes "as_requests s' = as_requests s"
  shows "open_request s' = open_request s" "newest s' = newest s"
  using assms by (simp_all add: open_request_def parked_def newest_def fun_eq_iff)

lemma same_table:
  assumes "table_ok s" "as_requests s' = as_requests s" "as_pending s' = as_pending s"
    and "as_ended s \<longrightarrow> as_ended s'" "as_failed s \<longrightarrow> as_failed s'"
  shows "table_ok s'"
proof (rule table_okI)
  fix i k assume "as_pending s' i = Some k"
  with table_okD(1) [OF assms(1), of i k] show "open_request s' k \<and> rq_key (as_requests s' ! k) = i \<and> newest s' k"
    by (simp add: assms(2,3) same_requests [OF assms(2)])
next
  fix k assume "\<not> as_ended s'" "\<not> as_failed s'" "open_request s' k" "newest s' k"
  then have "\<not> as_ended s" "\<not> as_failed s" "open_request s k" "newest s k"
    using assms(4,5) by (simp_all add: same_requests [OF assms(2)])
  then have "as_pending s (rq_key (as_requests s ! k)) = Some k" by (rule table_okD(2) [OF assms(1)])
  then show "as_pending s' (rq_key (as_requests s' ! k)) = Some k" by (simp add: assms(2,3))
qed

lemma step_table:
  assumes "table_ok s"
  shows "table_ok (acp_step now op s)"
proof (cases op)
  case (DoUpdate u replay)
  show ?thesis by (rule same_table [OF assms]) (simp_all add: DoUpdate)
next
  case (DoPermission req)
  show ?thesis
  proof (cases "unasked req s")
    case True
    show ?thesis by (rule unasked_table [OF assms]) (simp add: DoPermission on_permission_def True, simp_all add: DoPermission on_permission_def True)
  next
    case False
    then show ?thesis using park_table [OF assms] by (simp add: DoPermission on_permission_def)
  qed
next
  case DoFail
  then show ?thesis using assms by (simp add: table_ok_def fail_pending_def)
next
  case DoAgentGone
  show ?thesis by (rule same_table [OF assms]) (simp_all add: DoAgentGone)
qed (simp_all add: assms park_table on_elicitation_def resolve_table take_table leave_table)

lemma run_table: "table_ok s \<Longrightarrow> table_ok (acp_run ops s)"
  by (induction ops arbitrary: s) (simp_all add: step_table del: acp_step.simps)

section \<open>Where replies come from\<close>

definition justified :: "acp_session \<Rightarrow> (int \<times> acp_op) list \<Rightarrow> pending_request \<Rightarrow> bool" where
  "justified s0 ops r \<longleftrightarrow>
     (rq_unasked r \<longrightarrow>
        (\<exists>req pre now post. rq_asked r = AskPermission req \<and> ops = pre @ (now, DoPermission req) # post
           \<and> unasked req (acp_run pre s0)
           \<and> rq_reply r = Some (PermissionReply (response_for_resolution req ResolveAllow))))
     \<and> (\<not> rq_unasked r \<longrightarrow>
        (\<forall>res. rq_answer r = Some (Given res) \<longrightarrow> (\<exists>now. (now, DoResolve (rq_key r) res) \<in> set ops))
        \<and> (\<forall>rep. rq_reply r = Some rep \<longrightarrow>
             (\<exists>a. (a = Withdrawn \<or> rq_answer r = Some a) \<and> rep = finish (rq_asked r) a)))"

lemma justified_more: "justified s0 ops r \<Longrightarrow> justified s0 (ops @ [op]) r"
proof -
  have "ops = pre @ (now, DoPermission req) # post \<Longrightarrow> \<exists>post'. ops @ [op] = pre @ (now, DoPermission req) # post'" for pre now req post
    by simp
  then show "justified s0 ops r \<Longrightarrow> ?thesis" unfolding justified_def by (metis UnI1 set_append)
qed

text \<open>Each step keeps it: \<open>J\<close> says that every request is justified by what has happened so far.\<close>

definition all_justified :: "acp_session \<Rightarrow> (int \<times> acp_op) list \<Rightarrow> acp_session \<Rightarrow> bool" where
  "all_justified s0 ops s \<longleftrightarrow> list_all (justified s0 ops) (as_requests s)"

lemma all_justified_nth: "all_justified s0 ops s \<Longrightarrow> k < length (as_requests s) \<Longrightarrow> justified s0 ops (as_requests s ! k)"
  by (simp add: all_justified_def list_all_length)

lemma all_justified_update:
  "all_justified s0 ops s \<Longrightarrow> justified s0 ops r \<Longrightarrow> as_requests s' = (as_requests s)[k := r] \<Longrightarrow> all_justified s0 ops s'"
  by (simp add: all_justified_def list_all_length nth_update)

lemma permission_justified:
  assumes "all_justified s0 (ops @ [(now, DoPermission req)]) (acp_run ops s0)"
  shows "all_justified s0 (ops @ [(now, DoPermission req)]) (on_permission now req (acp_run ops s0))"
proof (cases "unasked req (acp_run ops s0)")
  case True
  have "justified s0 (ops @ [(now, DoPermission req)])
      \<lparr>rq_asked = AskPermission req, rq_key = [], rq_tool = [], rq_unasked = True, rq_answer = None,
       rq_reply = Some (PermissionReply (response_for_resolution req ResolveAllow))\<rparr>"
    using True by (auto simp: justified_def)
  then show ?thesis using True assms by (simp add: on_permission_def all_justified_def)
next
  case False
  then show ?thesis using assms by (simp add: on_permission_def park_def Let_def all_justified_def justified_def)
qed

lemma resolve_justified:
  assumes "all_justified s0 (ops @ [(now, DoResolve i res)]) s" "table_ok s"
  shows "all_justified s0 (ops @ [(now, DoResolve i res)]) (snd (resolve_request now i res s))"
proof (cases "as_pending s i")
  case None
  then show ?thesis using assms by (simp add: resolve_request_def)
next
  case (Some k)
  from table_okD(1) [OF assms(2) Some] have k: "k < length (as_requests s)" "rq_key (as_requests s ! k) = i"
    "rq_answer (as_requests s ! k) = None" "rq_reply (as_requests s ! k) = None" "\<not> rq_unasked (as_requests s ! k)"
    by (auto simp: open_request_def parked_def)
  then have "justified s0 (ops @ [(now, DoResolve i res)]) ((as_requests s ! k)\<lparr>rq_answer := Some (Given res)\<rparr>)"
    by (auto simp: justified_def)
  then show ?thesis
    by (rule all_justified_update [OF assms(1)]) (simp add: resolve_request_def Some settle_def k(3))
qed

lemma take_justified: "all_justified s0 ops s \<Longrightarrow> all_justified s0 ops (take_answer k s)"
proof (cases "k < length (as_requests s) \<and> rq_reply (as_requests s ! k) = None \<and> rq_answer (as_requests s ! k) \<noteq> None")
  case False
  then show "all_justified s0 ops s \<Longrightarrow> ?thesis" by (auto simp: take_answer_def split: option.split)
next
  case True
  assume J: "all_justified s0 ops s"
  from True obtain a where a: "rq_answer (as_requests s ! k) = Some a" by auto
  have "justified s0 ops ((as_requests s ! k)\<lparr>rq_reply := Some (finish (rq_asked (as_requests s ! k)) a)\<rparr>)"
    using all_justified_nth [OF J, of k] True a by (auto simp: justified_def)
  then show ?thesis
    by (rule all_justified_update [OF J]) (use True a in \<open>simp add: take_answer_def set_reply_def\<close>)
qed

lemma leave_justified: "all_justified s0 ops s \<Longrightarrow> all_justified s0 ops (leave k s)"
proof (cases "as_ended s \<and> k < length (as_requests s) \<and> rq_reply (as_requests s ! k) = None")
  case False
  then show "all_justified s0 ops s \<Longrightarrow> ?thesis" by (auto simp: leave_def)
next
  case True
  assume J: "all_justified s0 ops s"
  have "justified s0 ops ((as_requests s ! k)\<lparr>rq_reply := Some (finish (rq_asked (as_requests s ! k)) Withdrawn)\<rparr>)"
    using all_justified_nth [OF J, of k] True by (auto simp: justified_def)
  then show ?thesis
    by (rule all_justified_update [OF J]) (use True in \<open>simp add: leave_def set_reply_def drop_pending_def\<close>)
qed

lemma fail_justified: "all_justified s0 ops s \<Longrightarrow> all_justified s0 ops ((fail_pending s)\<lparr>as_failed := f\<rparr>)"
proof -
  assume J: "all_justified s0 ops s"
  have "justified s0 ops ((as_requests s ! k)\<lparr>rq_answer := Some Withdrawn\<rparr>)"
    if "k < length (as_requests s)" "rq_answer (as_requests s ! k) = None" for k
    using all_justified_nth [OF J that(1)] that(2) by (auto simp: justified_def)
  with all_justified_nth [OF J] show ?thesis
    by (auto simp: all_justified_def list_all_length fail_pending_def Let_def)
qed

lemma run_justified:
  assumes "fresh_session s0"
  shows "all_justified s0 ops (acp_run ops s0)"
proof (induction ops rule: rev_induct)
  case Nil
  then show ?case using assms by (simp add: fresh_session_def all_justified_def)
next
  case (snoc nop ops)
  obtain now op where nop: "nop = (now, op)" by (cases nop)
  let ?s = "acp_run ops s0"
  have tab: "table_ok ?s" by (rule run_table [OF fresh_table [OF assms]])
  have J: "all_justified s0 (ops @ [(now, op)]) ?s"
    using snoc justified_more by (auto simp: all_justified_def list_all_iff)
  have "all_justified s0 (ops @ [(now, op)]) (acp_step now op ?s)"
    using J tab by (cases op) (simp_all add: permission_justified resolve_justified take_justified leave_justified fail_justified,
        simp_all add: all_justified_def on_elicitation_def park_def Let_def justified_def)
  then show ?case by (simp add: nop)
qed

section \<open>Properties\<close>

text \<open>A session with two requests for permission, neither for a tool call.\<close>

definition acp_sample :: acp_session where
  "acp_sample =
     \<lparr>as_id = ''s'', as_run_id = ''r'', as_chat_id = ''c'', as_auto_allow = False, as_tools = None, as_emit_replay = False,
      as_window = 0, as_requests = [], as_pending = Map.empty, as_ended = False, as_failed = False, as_out = []\<rparr>"

definition sample_permission :: permission_request where
  "sample_permission =
     \<lparr>pq_session_id = ''s'', pq_tool_call = None, pq_options = [\<lparr>po_id = ''yes'', po_kind = ''allow_once'', po_name = ''Yes''\<rparr>],
      pq_during_load = False\<rparr>"

definition sample_resolution :: resolution where
  "sample_resolution = \<lparr>rs_decision = ResolveAllow, rs_scope = ''once'', rs_reason = [], rs_values = NilValues\<rparr>"

definition asked_once :: "(int \<times> acp_op) list" where
  "asked_once = [(0, DoPermission sample_permission)]"

definition asked_twice :: "(int \<times> acp_op) list" where
  "asked_twice = asked_once @ asked_once"

definition sample_request :: "agent_reply option \<Rightarrow> acp_answer option \<Rightarrow> pending_request" where
  "sample_request rep a =
     \<lparr>rq_asked = AskPermission sample_permission, rq_key = ''s'', rq_tool = [], rq_unasked = False, rq_answer = a, rq_reply = rep\<rparr>"

lemma sample_fresh: "fresh_session acp_sample"
  by (simp add: fresh_session_def acp_sample_def)

lemma sample_asked:
  "as_requests (acp_run asked_once acp_sample) = [sample_request None None]"
  "as_requests (acp_run asked_twice acp_sample) = [sample_request None None, sample_request None None]"
  "as_ended (acp_run asked_once acp_sample) = False" "as_failed (acp_run asked_once acp_sample) = False"
  "as_ended (acp_run asked_twice acp_sample) = False" "as_pending (acp_run asked_once acp_sample) = [''s'' \<mapsto> 0]"
  by (simp_all add: asked_twice_def asked_once_def on_permission_def unasked_def acp_sample_def park_def Let_def
      approval_for_permission_def sample_permission_def no_approval_required_def sample_request_def emit_event_def)

lemma sample_answered:
  "as_requests (acp_run (asked_once @ [(0, DoResolve ''s'' sample_resolution), (0, DoTake 0)]) acp_sample)
     = [sample_request (Some (PermissionReply (selected ''yes''))) (Some (Given sample_resolution))]"
  by (simp add: resolve_request_def sample_asked settle_def take_answer_def set_reply_def emit_event_def sample_request_def finish_def
      permission_answer_def sample_resolution_def response_for_resolution_def sample_permission_def pick_option_def option_kinds
      scope_once_def)

lemma permission_answer_fits:
  "permission_answer req a = selected i \<Longrightarrow> \<exists>res. a = Given res \<and> fits (pq_options req) (rs_decision res) i"
proof (cases a)
  case Withdrawn
  then show "permission_answer req a = selected i \<Longrightarrow> ?thesis"
    by (simp add: permission_answer_def selected_def cancelled_def)
next
  case (Given res)
  assume i: "permission_answer req a = selected i"
  show ?thesis
  proof (cases "rs_decision res = ResolveAllow \<and> rs_scope res \<noteq> scope_once \<and> pick_option (pq_options req) [allow_always, allow_once] \<noteq> None")
    case True
    with i Given pick_fits(2) [of "pq_options req" i] show ?thesis
      by (auto simp: permission_answer_def selected_def)
  next
    case False
    then have "permission_answer req a = response_for_resolution req (rs_decision res)"
      by (auto simp: permission_answer_def Given Let_def split: option.split)
    with i have "response_for_resolution req (rs_decision res) = selected i" by simp
    then show ?thesis using Given response_fits by blast
  qed
qed

text \<open>C2. Nothing is allowed that nobody allowed: in any run of a session, when the agent is told that one of
  its options is selected, the option is one it offered for this very request, and either a person
  resolved the request under its id and the option is of the kind of the decision, or the option is an
  allowing one and the session skips approvals or the request was for one of the caller's own tools when
  it came.\<close>

theorem permission_authorised:
  assumes "fresh_session s0" "r \<in> set (as_requests (acp_run ops s0))"
    and "rq_asked r = AskPermission req" "rq_reply r = Some (PermissionReply (selected i))"
  shows "(\<exists>now res. (now, DoResolve (rq_key r) res) \<in> set ops \<and> fits (pq_options req) (rs_decision res) i)
    \<or> fits (pq_options req) ResolveAllow i
      \<and> (\<exists>pre now post. ops = pre @ (now, DoPermission req) # post \<and> unasked req (acp_run pre s0))"
proof -
  have j: "justified s0 ops r" using run_justified [OF assms(1), of ops] assms(2) by (auto simp: all_justified_def list_all_iff)
  show ?thesis
  proof (cases "rq_unasked r")
    case True
    with j assms(3,4) have "response_for_resolution req ResolveAllow = selected i"
      "\<exists>pre now post. ops = pre @ (now, DoPermission req) # post \<and> unasked req (acp_run pre s0)"
      by (auto simp: justified_def)
    then show ?thesis using response_fits by blast
  next
    case False
    with j assms(4) have "\<exists>a. (a = Withdrawn \<or> rq_answer r = Some a) \<and> PermissionReply (selected i) = finish (rq_asked r) a"
      by (simp add: justified_def)
    then obtain a where "a = Withdrawn \<or> rq_answer r = Some a" "PermissionReply (selected i) = finish (rq_asked r) a"
      by (elim exE conjE)
    then have a: "a = Withdrawn \<or> rq_answer r = Some a" "permission_answer req a = selected i"
      by (simp_all add: finish_def assms(3))
    from permission_answer_fits [OF a(2)] obtain res where "a = Given res" "fits (pq_options req) (rs_decision res) i" by blast
    with a(1) j False show ?thesis by (auto simp: justified_def)
  qed
qed

theorem permission_authorised_witness:
  "let ops = asked_once @ [(0, DoResolve ''s'' sample_resolution), (0, DoTake 0)] in
   (\<exists>now res. (now, DoResolve ''s'' res) \<in> set ops \<and> fits (pq_options sample_permission) (rs_decision res) ''yes'')
   \<or> fits (pq_options sample_permission) ResolveAllow ''yes''
     \<and> (\<exists>pre now post. ops = pre @ (now, DoPermission sample_permission) # post \<and> unasked sample_permission (acp_run pre acp_sample))"
proof -
  let ?r = "sample_request (Some (PermissionReply (selected ''yes''))) (Some (Given sample_resolution))"
  have "?r \<in> set (as_requests (acp_run (asked_once @ [(0, DoResolve ''s'' sample_resolution), (0, DoTake 0)]) acp_sample))"
    unfolding sample_answered by simp
  from permission_authorised [OF sample_fresh this, of sample_permission "''yes''"] show ?thesis
    unfolding Let_def by (simp add: sample_request_def)
qed

lemma reply_stays:
  "continues s s' \<Longrightarrow> k < length (as_requests s) \<Longrightarrow> rq_reply (as_requests s ! k) \<noteq> None \<Longrightarrow>
   rq_reply (as_requests s' ! k) = rq_reply (as_requests s ! k)"
  by (auto simp: continues_def follows_def)

lemma leave_replies: "as_ended s \<Longrightarrow> k < length (as_requests s) \<Longrightarrow> rq_reply (as_requests (leave k s) ! k) \<noteq> None"
  by (cases "rq_reply (as_requests s ! k)") (simp_all add: leave_def set_reply_def drop_pending_def)

lemma leave_all:
  "as_ended s \<Longrightarrow> n \<le> length (as_requests s) \<Longrightarrow>
   \<forall>k < n. rq_reply (as_requests (acp_run (map (\<lambda>k. (now, DoLeave k)) [0..<n]) s) ! k) \<noteq> None"
proof (induction n)
  case (Suc n)
  let ?s = "acp_run (map (\<lambda>k. (now, DoLeave k)) [0..<n]) s"
  have s: "as_ended ?s" "n < length (as_requests ?s)"
    using run_continues [of s "map (\<lambda>k. (now, DoLeave k)) [0..<n]"] Suc.prems by (simp_all add: continues_def)
  have "rq_reply (as_requests (leave n ?s) ! k) \<noteq> None" if "k < n" for k
    using reply_stays [OF leave_continues, of k ?s n] s(2) that Suc by simp
  with leave_replies [OF s] show ?case by (simp add: less_Suc_eq del: not_None_eq)
qed simp

text \<open>C11. The agent is never left waiting, and never told twice: the reply to a request, once given, is not
  changed by anything that happens later; and when the agent's stream is over, however it got there, each
  request that is still waiting gets a reply as soon as its goroutine runs.\<close>

theorem every_request_replied_once:
  assumes "k < length (as_requests s)"
  shows "(rq_reply (as_requests s ! k) \<noteq> None \<longrightarrow> rq_reply (as_requests (acp_run ops s) ! k) = rq_reply (as_requests s ! k))
    \<and> (let s' = acp_run (ops @ [(now, DoAgentGone)]) s
        in rq_reply (as_requests (acp_run (map (\<lambda>k. (now, DoLeave k)) [0..<length (as_requests s')]) s') ! k) \<noteq> None)"
proof -
  let ?s = "acp_run (ops @ [(now, DoAgentGone)]) s"
  have "k < length (as_requests ?s)" using run_continues [of s "ops @ [(now, DoAgentGone)]"] assms by (simp add: continues_def)
  moreover have "as_ended ?s" by simp
  ultimately have "rq_reply (as_requests (acp_run (map (\<lambda>k. (now, DoLeave k)) [0..<length (as_requests ?s)]) ?s) ! k) \<noteq> None"
    using leave_all [of ?s "length (as_requests ?s)" now] by blast
  then show ?thesis using reply_stays [OF run_continues assms] by (simp only: Let_def) blast
qed

theorem every_request_replied_once_witness:
  "rq_reply (as_requests (acp_run (map (\<lambda>k. (0, DoLeave k)) [0..<1])
      (acp_run ([] @ [(0, DoAgentGone)]) (acp_run asked_once acp_sample))) ! 0) \<noteq> None"
proof -
  have "0 < length (as_requests (acp_run asked_once acp_sample))" by (simp add: sample_asked)
  from every_request_replied_once [OF this, of "[]" 0] show ?thesis
    by (simp add: Let_def sample_asked)
qed

text \<open>C12. A person can answer what waits: as long as the agent is there and the session is open, resolving
  the newest waiting request under an id is accepted and decides the reply of exactly that request.\<close>

theorem waiting_request_resolved:
  assumes "fresh_session s0" "s = acp_run ops s0" "\<not> as_ended s" "\<not> as_failed s" "open_request s k" "newest s k"
  shows "fst (resolve_request now (rq_key (as_requests s ! k)) res s)
    \<and> rq_reply (as_requests (take_answer k (snd (resolve_request now (rq_key (as_requests s ! k)) res s))) ! k)
        = Some (finish (rq_asked (as_requests s ! k)) (Given res))
    \<and> (\<forall>j < length (as_requests s). j \<noteq> k \<longrightarrow>
         as_requests (take_answer k (snd (resolve_request now (rq_key (as_requests s ! k)) res s))) ! j = as_requests s ! j)"
proof -
  have "table_ok s" unfolding assms(2) by (rule run_table [OF fresh_table [OF assms(1)]])
  from table_okD(2) [OF this assms(3-6)] have "as_pending s (rq_key (as_requests s ! k)) = Some k" .
  moreover have "k < length (as_requests s)" "rq_answer (as_requests s ! k) = None" "rq_reply (as_requests s ! k) = None"
    using assms(5) by (simp_all add: open_request_def parked_def)
  ultimately show ?thesis
    by (simp add: resolve_request_def settle_def take_answer_def set_reply_def)
qed

theorem waiting_request_resolved_witness:
  "fst (resolve_request 0 ''s'' sample_resolution (acp_run asked_once acp_sample))"
proof -
  have "open_request (acp_run asked_once acp_sample) 0" "newest (acp_run asked_once acp_sample) 0"
    by (simp_all add: open_request_def parked_def newest_def sample_asked sample_request_def)
  from waiting_request_resolved [OF sample_fresh refl _ _ this, of 0 sample_resolution] show ?thesis
    by (simp add: sample_asked sample_request_def)
qed

text \<open>A request that a newer one has replaced under its key.\<close>

definition shadowed :: "acp_session \<Rightarrow> nat \<Rightarrow> bool" where
  "shadowed s k \<longleftrightarrow> open_request s k \<and> \<not> newest s k"

lemma shadowed_stays:
  assumes "table_ok s" "shadowed s k" "\<not> as_ended s" "op \<noteq> DoAgentGone"
  shows "shadowed (acp_step now op s) k \<and> \<not> as_ended (acp_step now op s)"
proof -
  have c: "continues s (acp_step now op s)" by (rule step_continues)
  have k: "parked s k" "rq_answer (as_requests s ! k) = None" "rq_reply (as_requests s ! k) = None" "\<not> newest s k"
    using assms(2) by (simp_all add: shadowed_def open_request_def)
  from k(4) obtain j where j: "j < length (as_requests s)" "k < j" "parked s j" "rq_key (as_requests s ! j) = rq_key (as_requests s ! k)"
    by (auto simp: newest_def)
  with c k(1) have newer: "\<not> newest (acp_step now op s) k"
    by (auto simp: newest_def continues_def follows_def parked_def intro!: exI [of _ j])
  have not_in: "as_pending s i \<noteq> Some k" for i
    using table_okD(1) [OF assms(1), of i k] k(4) by auto
  have kl: "k < length (as_requests s)" using k(1) by (simp add: parked_def)
  have same: "rq_answer (as_requests (acp_step now op s) ! k) = None \<and> rq_reply (as_requests (acp_step now op s) ! k) = None"
  proof (cases op)
    case (DoResolve i res)
    then show ?thesis using k not_in [of i] kl
      by (auto simp: resolve_request_def settle_def nth_update split: option.split)
  next
    case (DoTake m)
    then show ?thesis using k kl by (auto simp: take_answer_def set_reply_def nth_update split: option.split)
  next
    case (DoPermission req)
    then show ?thesis using k kl by (simp add: on_permission_def park_def Let_def nth_append)
  next
    case DoFail
    have "k \<notin> ran (as_pending s)" using not_in by (auto simp: ran_def)
    then show ?thesis using k kl DoFail by (simp add: fail_pending_def Let_def)
  qed (use k kl assms(3,4) in \<open>simp_all add: on_elicitation_def park_def Let_def nth_append leave_def\<close>)
  moreover have "\<not> as_ended (acp_step now op s)"
    using assms(3,4)
    by (cases op) (auto simp: on_permission_def on_elicitation_def park_def Let_def resolve_request_def take_answer_def leave_def
        fail_pending_def split: option.split)
  moreover have "parked (acp_step now op s) k"
    using c k(1) by (auto simp: continues_def follows_def parked_def)
  ultimately show ?thesis using newer by (simp add: shadowed_def open_request_def)
qed

lemma shadowed_run:
  "table_ok s \<Longrightarrow> shadowed s k \<Longrightarrow> \<not> as_ended s \<Longrightarrow> list_all (\<lambda>op. snd op \<noteq> DoAgentGone) ops \<Longrightarrow> shadowed (acp_run ops s) k"
  by (induction ops arbitrary: s) (simp_all add: shadowed_stays step_table del: acp_step.simps)

text \<open>C35. A second question under the same id orphans the first: once a request is parked under the id of
  one still waiting (two without a tool call id, say, both go under the session's), no sequence of
  resolutions, and not even closing the session, gives the first one an answer; it waits until the
  agent's process is gone.\<close>

theorem parked_request_orphaned:
  assumes "fresh_session s0" "s = acp_run ops s0" "\<not> as_ended s" "open_request s k" "\<not> newest s k"
    and "list_all (\<lambda>op. snd op \<noteq> DoAgentGone) ops'"
  shows "rq_reply (as_requests (acp_run ops' s) ! k) = None"
proof -
  have "table_ok s" unfolding assms(2) by (rule run_table [OF fresh_table [OF assms(1)]])
  then have "shadowed (acp_run ops' s) k"
    using assms(3-6) by (intro shadowed_run) (simp_all add: shadowed_def)
  then show ?thesis by (simp add: shadowed_def open_request_def)
qed

theorem parked_request_orphaned_witness:
  "rq_reply (as_requests (acp_run [(0, DoResolve ''s'' sample_resolution), (0, DoTake 1), (0, DoTake 0), (0, DoFail), (0, DoTake 0)]
      (acp_run asked_twice acp_sample)) ! 0) = None"
proof (rule parked_request_orphaned [OF sample_fresh refl])
  show "open_request (acp_run asked_twice acp_sample) 0" "\<not> newest (acp_run asked_twice acp_sample) 0"
    by (auto simp: open_request_def parked_def newest_def sample_asked sample_request_def intro!: exI [of _ 1])
qed (simp_all add: sample_asked)

end
