(* ===== verification/Json_Raw.thy ===== *)
theory Json_Raw
  imports Rpc_Text
begin

text \<open>
  Reading a struct whose fields are raw values, optional values or structs themselves, as the rows of
  the agents' session files are: an object is its members with the text of each value.

  As \<open>encoding/json\<close> has it, a null empties an optional field, a struct given twice is read into the
  same struct, and a value of the wrong type makes the whole decode report an error. Reads of what
  was written are the facts below.
\<close>

type_synonym members = "(string \<times> string) list"

definition struct_members :: "string \<Rightarrow> members option" where
  "struct_members s =
     (case json_parse s of
        Some (JObj _) \<Rightarrow> Some (raw_object s)
      | Some JNull \<Rightarrow> Some []
      | _ \<Rightarrow> None)"

definition parsed :: "members \<Rightarrow> (string \<times> json) list" where
  "parsed ms = map (\<lambda>(k, t). (k, case json_parse t of Some j \<Rightarrow> j | None \<Rightarrow> JNull)) ms"

text \<open>A field of a pointer type.\<close>

fun dec_ptr :: "(json \<Rightarrow> 'a option) \<Rightarrow> string \<Rightarrow> (string \<times> json) list \<Rightarrow> 'a option \<Rightarrow> 'a option \<times> bool" where
  "dec_ptr conv k [] old = (old, True)"
| "dec_ptr conv k ((k', j) # kvs) old =
     (if equal_fold k' k then
        (if j = JNull then dec_ptr conv k kvs None
         else (case conv j of
                 Some x \<Rightarrow> dec_ptr conv k kvs (Some x)
               | None \<Rightarrow> (fst (dec_ptr conv k kvs old), False)))
      else dec_ptr conv k kvs old)"

text \<open>
  A field that points to a struct: the members it is read from, in order, and those it was read from
  before a null emptied it, which still count for errors.
\<close>

fun dec_struct :: "string \<Rightarrow> members \<Rightarrow> members option \<Rightarrow> members option \<times> members list \<times> bool" where
  "dec_struct k [] old = (old, [], True)"
| "dec_struct k ((k', t) # ms) old =
     (if equal_fold k' k then
        (case json_parse t of
           Some JNull \<Rightarrow>
             (case dec_struct k ms None of (m, gone, ok) \<Rightarrow> (m, (case old of None \<Rightarrow> gone | Some o' \<Rightarrow> o' # gone), ok))
         | Some (JObj _) \<Rightarrow> dec_struct k ms (Some ((case old of None \<Rightarrow> [] | Some m \<Rightarrow> m) @ raw_object t))
         | _ \<Rightarrow> (case dec_struct k ms old of (m, gone, ok) \<Rightarrow> (m, gone, False)))
      else dec_struct k ms old)"

definition read_opt :: "(members \<Rightarrow> 'a option) \<Rightarrow> string \<Rightarrow> members \<Rightarrow> 'a option option" where
  "read_opt f k ms =
     (case dec_struct k ms None of
        (m, gone, ok) \<Rightarrow>
          if \<not> ok \<or> list_ex (\<lambda>g. f g = None) gone then None
          else (case m of None \<Rightarrow> Some None | Some g \<Rightarrow> map_option Some (f g)))"

text \<open>The elements of an array with their texts.\<close>

fun raw_items :: "nat \<Rightarrow> string \<Rightarrow> string list option" where
  "raw_items 0 s = None"
| "raw_items (Suc n) s =
     (let v = skip_ws s in
      case read_value (2 * length v + 1) v of
        None \<Rightarrow> None
      | Some (_, r) \<Rightarrow>
          (case skip_ws r of
             [] \<Rightarrow> None
           | d # ds \<Rightarrow>
               if d = CHR '','' then map_option (\<lambda>ts. take (length v - length r) v # ts) (raw_items n ds)
               else if d = CHR '']'' then Some [take (length v - length r) v]
               else None))"

definition raw_array :: "string \<Rightarrow> string list" where
  "raw_array s =
     (case skip_ws s of
        [] \<Rightarrow> []
      | c # cs \<Rightarrow> (case raw_items (length s) cs of None \<Rightarrow> [] | Some ts \<Rightarrow> ts))"

text \<open>Fields of plain types by name, and whether those named all had their types.\<close>

definition str_of :: "string \<Rightarrow> members \<Rightarrow> string" where
  "str_of k ms = fst (dec_field conv_str k (parsed ms) [])"

definition bool_of :: "string \<Rightarrow> members \<Rightarrow> bool" where
  "bool_of k ms = fst (dec_field conv_bool k (parsed ms) False)"

definition int_of :: "string \<Rightarrow> members \<Rightarrow> int" where
  "int_of k ms = fst (dec_field conv_int k (parsed ms) 0)"

definition strs_ok :: "string list \<Rightarrow> members \<Rightarrow> bool" where
  "strs_ok ks ms \<longleftrightarrow> list_all (\<lambda>k. snd (dec_field conv_str k (parsed ms) [])) ks"

definition bools_ok :: "string list \<Rightarrow> members \<Rightarrow> bool" where
  "bools_ok ks ms \<longleftrightarrow> list_all (\<lambda>k. snd (dec_field conv_bool k (parsed ms) False)) ks"

definition ints_ok :: "string list \<Rightarrow> members \<Rightarrow> bool" where
  "ints_ok ks ms \<longleftrightarrow> list_all (\<lambda>k. snd (dec_field conv_int k (parsed ms) 0)) ks"

definition raw_of :: "string \<Rightarrow> members \<Rightarrow> string" where
  "raw_of k ms = last_raw k ms []"

section \<open>What was written\<close>

definition written_members :: "(string \<times> json) list \<Rightarrow> members" where
  "written_members kvs = map (\<lambda>(k, j). (k, json_print j)) kvs"

lemma struct_members_written: "json_ok (JObj kvs) \<Longrightarrow> struct_members (json_print (JObj kvs)) = Some (written_members kvs)"
  by (simp add: struct_members_def json_parse_print raw_object_print written_members_def del: json_print.simps json_ok.simps)

lemma parsed_written: "json_ok (JObj kvs) \<Longrightarrow> parsed (written_members kvs) = kvs"
  unfolding parsed_def written_members_def map_map
  by (rule map_idI) (auto simp: list_all_iff json_parse_print)

lemma written_omit: "written_members (omit k f @ r) = omit k (map_option json_print f) @ written_members r"
  "written_members (omit k f) = omit k (map_option json_print f)"
  "written_members ((k, j) # r) = (k, json_print j) # written_members r" "written_members [] = []"
  by (simp_all add: written_members_def omit_maps)

lemma dec_ptr_omit:
  "equal_fold k' k \<Longrightarrow> dec_ptr conv k (omit k' f @ r) old =
     (case f of None \<Rightarrow> dec_ptr conv k r old
      | Some j \<Rightarrow> if j = JNull then dec_ptr conv k r None
                  else (case conv j of Some x \<Rightarrow> dec_ptr conv k r (Some x) | None \<Rightarrow> (fst (dec_ptr conv k r old), False)))"
  "\<not> equal_fold k' k \<Longrightarrow> dec_ptr conv k (omit k' f @ r) old = dec_ptr conv k r old"
  by (auto simp: omit_def split: option.split)

lemma dec_struct_omit:
  "equal_fold k' k \<Longrightarrow> json_ok (JObj kvs) \<Longrightarrow>
     dec_struct k (omit k' (Some (json_print (JObj kvs))) @ r) None = dec_struct k r (Some (written_members kvs))"
  "equal_fold k' k \<Longrightarrow> dec_struct k (omit k' None @ r) old = dec_struct k r old"
  "\<not> equal_fold k' k \<Longrightarrow> dec_struct k (omit k' f @ r) old = dec_struct k r old"
  by (auto simp: omit_def json_parse_print raw_object_print written_members_def simp del: json_print.simps json_ok.simps split: option.split)

lemmas dec_ptr_omits = dec_ptr_omit dec_ptr_omit [where r = "[]", unfolded append_Nil2 dec_ptr.simps(1) fst_conv]
lemmas dec_struct_omits = dec_struct_omit dec_struct_omit [where r = "[]", unfolded append_Nil2 dec_struct.simps(1)]

lemma raw_items_print:
  "list_all json_ok js \<Longrightarrow> js \<noteq> [] \<Longrightarrow> length js \<le> n \<Longrightarrow>
   raw_items n (print_items js @ CHR '']'' # r) = Some (map json_print js)"
proof (induction js arbitrary: n)
  case (Cons j js)
  obtain m where n: "n = Suc m" using Cons.prems by (cases n) auto
  define rest where "rest = (if js = [] then CHR '']'' # r else CHR '','' # print_items js @ CHR '']'' # r)"
  have whole: "print_items (j # js) @ CHR '']'' # r = json_print j @ rest"
    by (cases js) (auto simp: rest_def)
  have ok: "json_ok j" using Cons.prems by simp
  have v: "skip_ws (json_print j @ rest) = json_print j @ rest"
    using json_print_first [OF ok] by (auto simp: skip_ws_Cons)
  have "ends_number rest" by (simp add: rest_def)
  then have val: "read_value (2 * length (json_print j @ rest) + 1) (json_print j @ rest) = Some (j, rest)"
    by (intro read_print(1) [OF ok]) simp_all
  show ?case
  proof (cases "js = []")
    case True
    then show ?thesis
      unfolding n whole using v val by (simp add: skip_ws_Cons rest_def Let_def del: read_value.simps)
  next
    case False
    have "raw_items m (print_items js @ CHR '']'' # r) = Some (map json_print js)"
      using Cons.IH [of m] Cons.prems n False by simp
    with False show ?thesis
      unfolding n whole using v val by (simp add: skip_ws_Cons rest_def Let_def del: read_value.simps)
  qed
qed simp

lemma print_items_length: "list_all json_ok js \<Longrightarrow> length js \<le> length (print_items js)"
proof (induction js rule: induct_list012)
  case (2 j)
  then show ?case using json_print_not_Nil [of j] by (cases "json_print j") auto
next
  case (3 x y zs)
  then show ?case by simp
qed simp

lemma raw_array_print: "list_all json_ok js \<Longrightarrow> raw_array (json_print (JArr js)) = map json_print js"
proof (cases "js = []")
  case True
  have "read_value (2 * length (skip_ws '']'') + 1) (skip_ws '']'') = None" by (simp add: reader_eval)
  with True show ?thesis by (simp add: raw_array_def skip_ws_Cons del: read_value.simps)
next
  case False
  then show "list_all json_ok js \<Longrightarrow> ?thesis"
    using raw_items_print [of js "length (json_print (JArr js))" "[]"] print_items_length [of js]
    by (simp add: raw_array_def skip_ws_Cons del: raw_items.simps)
qed

text \<open>Field names with capitals: compared by their folded forms, worked out once for the names of a struct.\<close>

lemmas fold_eval = equal_fold_def lower_def in_range_def byte_def char_of_eq_iff

definition fold_key :: "string \<Rightarrow> string" where
  "fold_key k = map lower k"

lemma equal_fold_key: "equal_fold a b \<longleftrightarrow> fold_key a = fold_key b"
  by (simp add: equal_fold_def fold_key_def)

end
