(* ===== verification/Go_Time.thy ===== *)
theory Go_Time
  imports Prelude "HOL-Library.Monad_Syntax"
begin

text \<open>
  The part of Go's package \<open>time\<close> the session codecs use: a time is the number of nanoseconds since
  the zero time, 0001-01-01T00:00:00Z. \<open>parse_rfc3339\<close> is \<open>time.Parse(time.RFC3339Nano, s)\<close>, with what
  it accepts beyond the standard (an hour of one digit, a comma before the fraction, offsets up to
  24:60), and \<open>format_millis\<close> is \<open>Format\<close> with the layout \<open>2006-01-02T15:04:05.000Z\<close>. What is
  written reads back as the time cut to the millisecond.
\<close>

section \<open>The calendar\<close>

definition is_leap :: "int \<Rightarrow> bool" where
  "is_leap y \<longleftrightarrow> y mod 4 = 0 \<and> (y mod 100 \<noteq> 0 \<or> y mod 400 = 0)"

text \<open>Days from the zero time to the first of a year.\<close>

definition year_start :: "int \<Rightarrow> int" where
  "year_start y = 365 * (y - 1) + (y - 1) div 4 - (y - 1) div 100 + (y - 1) div 400"

definition year_of :: "int \<Rightarrow> int" where
  "year_of d =
     (let n = d div 146097; r = d mod 146097;
          c = min 3 (r div 36524); r = r - 36524 * c;
          q = r div 1461; r = r - 1461 * q
      in 400 * n + 100 * c + 4 * q + min 3 (r div 365) + 1)"

definition month_days :: "bool \<Rightarrow> nat list" where
  "month_days leap = [31, if leap then 29 else 28, 31, 30, 31, 30, 31, 31, 30, 31, 30, 31]"

definition days_in :: "int \<Rightarrow> nat \<Rightarrow> nat" where
  "days_in y m = month_days (is_leap y) ! (m - 1)"

definition days_before :: "int \<Rightarrow> nat \<Rightarrow> nat" where
  "days_before y m = sum_list (take (m - 1) (month_days (is_leap y)))"

text \<open>The month and the day in it from the day of the year, which starts at 0.\<close>

fun month_from :: "nat \<Rightarrow> nat list \<Rightarrow> nat \<Rightarrow> nat \<times> nat" where
  "month_from m [] d = (m, d + 1)"
| "month_from m (k # ks) d = (if d < k then (m, d + 1) else month_from (m + 1) ks (d - k))"

definition nanos :: int where "nanos = 1000000000"
definition day_nanos :: int where "day_nanos = 86400 * nanos"

definition date_of :: "int \<Rightarrow> int \<times> nat \<times> nat" where
  "date_of t =
     (let d = t div day_nanos; y = year_of d in (y, month_from 1 (month_days (is_leap y)) (nat (d - year_start y))))"

definition time_of :: "int \<Rightarrow> nat \<Rightarrow> nat \<Rightarrow> nat \<Rightarrow> nat \<Rightarrow> nat \<Rightarrow> nat \<Rightarrow> int" where
  "time_of y mo d h mi s ns =
     (year_start y + int (days_before y mo) + int d - 1) * day_nanos
       + (int h * 3600 + int mi * 60 + int s) * nanos + int ns"

section \<open>Writing\<close>

definition pad :: "nat \<Rightarrow> nat \<Rightarrow> string" where
  "pad w n = (let s = show_nat n in replicate (w - length s) (CHR ''0'') @ s)"

definition format_millis :: "int \<Rightarrow> string" where
  "format_millis t =
     (case date_of t of (y, mo, d) \<Rightarrow>
        let r = nat (t mod day_nanos div nanos) in
        (if y < 0 then ''-'' else []) @ pad 4 (nat \<bar>y\<bar>) @ ''-'' @ pad 2 mo @ ''-'' @ pad 2 d @ ''T''
          @ pad 2 (r div 3600) @ '':'' @ pad 2 (r div 60 mod 60) @ '':'' @ pad 2 (r mod 60) @ ''.''
          @ pad 3 (nat (t mod nanos div 1000000)) @ ''Z'')"

section \<open>Reading\<close>

text \<open>\<open>getnum\<close>: two digits, or one when that is allowed.\<close>

definition take_num :: "bool \<Rightarrow> string \<Rightarrow> (nat \<times> string) option" where
  "take_num fixed s =
     (case s of
        [] \<Rightarrow> None
      | a # r \<Rightarrow>
          if \<not> is_digit a then None
          else (case r of
                  b # r' \<Rightarrow> if is_digit b then Some (10 * digit_val a + digit_val b, r')
                            else if fixed then None else Some (digit_val a, r)
                | [] \<Rightarrow> if fixed then None else Some (digit_val a, r)))"

definition take_year :: "string \<Rightarrow> (nat \<times> string) option" where
  "take_year s = (if 4 \<le> length s \<and> list_all is_digit (take 4 s) then Some (read_nat (take 4 s), drop 4 s) else None)"

definition take_char :: "char \<Rightarrow> string \<Rightarrow> string option" where
  "take_char c s = (case s of [] \<Rightarrow> None | d # r \<Rightarrow> if d = c then Some r else None)"

definition take_range :: "nat \<Rightarrow> nat \<Rightarrow> bool \<Rightarrow> string \<Rightarrow> (nat \<times> string) option" where
  "take_range lo hi fixed s = do { (n, r) \<leftarrow> take_num fixed s; if lo \<le> n \<and> n < hi then Some (n, r) else None }"

text \<open>A fraction, of which nine digits count.\<close>

definition take_fraction :: "string \<Rightarrow> nat \<times> string" where
  "take_fraction s =
     (case s of
        a # b # r \<Rightarrow>
          if (a = CHR ''.'' \<or> a = CHR '','') \<and> is_digit b then
            let ds = takeWhile is_digit (b # r); k = take 9 ds
            in (read_nat k * 10 ^ (9 - length k), drop (length ds) (b # r))
          else (0, s)
      | _ \<Rightarrow> (0, s))"

text \<open>The zone as seconds east of UTC.\<close>

definition take_zone :: "string \<Rightarrow> (int \<times> string) option" where
  "take_zone s =
     (case s of
        [] \<Rightarrow> None
      | c # r \<Rightarrow>
          if c = CHR ''Z'' then Some (0, r)
          else if length s < 6 \<or> s ! 3 \<noteq> CHR '':'' then None
          else do {
            (hh, e) \<leftarrow> take_range 0 25 True (take 2 r);
            (mm, e) \<leftarrow> take_range 0 61 True (take 2 (drop 3 r));
            let z = int ((hh * 60 + mm) * 60) in
            if c = CHR ''+'' then Some (z, drop 5 r) else if c = CHR ''-'' then Some (- z, drop 5 r) else None
          })"

definition parse_rfc3339 :: "string \<Rightarrow> int option" where
  "parse_rfc3339 s =
     do {
       (y, s) \<leftarrow> take_year s;
       s \<leftarrow> take_char (CHR ''-'') s;
       (mo, s) \<leftarrow> take_range 1 13 True s;
       s \<leftarrow> take_char (CHR ''-'') s;
       (d, s) \<leftarrow> take_num True s;
       s \<leftarrow> take_char (CHR ''T'') s;
       (h, s) \<leftarrow> take_range 0 24 False s;
       s \<leftarrow> take_char (CHR '':'') s;
       (mi, s) \<leftarrow> take_range 0 60 True s;
       s \<leftarrow> take_char (CHR '':'') s;
       (sec, s) \<leftarrow> take_range 0 60 True s;
       let (ns, s) = take_fraction s in
       do {
         (z, s) \<leftarrow> take_zone s;
         if s = [] \<and> 1 \<le> d \<and> d \<le> days_in (int y) mo then Some (time_of (int y) mo d h mi sec ns - z * nanos) else None
       }
     }"

section \<open>What is written reads back\<close>

lemma year_start_parts:
  assumes "0 \<le> a" "a \<le> 3" "0 \<le> q" "q \<le> 24" "0 \<le> c" "c \<le> 3"
  shows "year_start (400 * n + 100 * c + 4 * q + a + 1) = 146097 * n + 36524 * c + 1461 * q + 365 * a"
proof -
  have "(400 * n + 100 * c + 4 * q + a) div 4 = 100 * n + 25 * c + q"
    "(400 * n + 100 * c + 4 * q + a) div 100 = 4 * n + c" "(400 * n + 100 * c + 4 * q + a) div 400 = n"
    using assms by (intro int_div_pos_eq [where r = a] int_div_pos_eq [where r = "4 * q + a"]
      int_div_pos_eq [where r = "100 * c + 4 * q + a"]; simp)+
  then show ?thesis by (simp add: year_start_def)
qed

lemma div_bounds:
  assumes "0 < (b :: int)"
  shows "b * (x div b) \<le> x" "x < b * (x div b) + b" "0 \<le> x \<Longrightarrow> 0 \<le> x div b"
  using pos_mod_sign [OF assms, of x] pos_mod_bound [OF assms, of x] mult_div_mod_eq [of b x] assms
  by (linarith, linarith, simp add: pos_imp_zdiv_nonneg_iff)

lemma year_of_range: "year_start (year_of d) \<le> d \<and> d < year_start (year_of d) + (if is_leap (year_of d) then 366 else 365)"
proof -
  define n r1 c r2 q r3 a where parts: "n = d div 146097" "r1 = d mod 146097" "c = min 3 (r1 div 36524)" "r2 = r1 - 36524 * c"
    "q = r2 div 1461" "r3 = r2 - 1461 * q" "a = min 3 (r3 div 365)"
  have r1: "0 \<le> r1" "r1 < 146097" "d = 146097 * n + r1" using parts(1,2) by simp_all
  note b1 = div_bounds [of 36524 r1] and b2 = div_bounds [of 1461 r2] and b3 = div_bounds [of 365 r3]
  have c: "0 \<le> c" "c \<le> 3" "0 \<le> r2" "r2 \<le> 36524" "c < 3 \<longrightarrow> r2 < 36524" "r1 = 36524 * c + r2"
  proof -
    have "c = r1 div 36524 \<and> c \<le> 3 \<or> c = 3 \<and> 3 < r1 div 36524" unfolding parts(3) by linarith
    with b1 r1(1,2) parts(4) show "0 \<le> c" "c \<le> 3" "0 \<le> r2" "r2 \<le> 36524" "c < 3 \<longrightarrow> r2 < 36524" "r1 = 36524 * c + r2"
      by linarith+
  qed
  have q: "0 \<le> q" "q \<le> 24" "0 \<le> r3" "r3 \<le> 1460" "r2 = 1461 * q + r3"
    using b2 c(3,4) unfolding parts(5) [symmetric] parts(6) by linarith+
  have a: "0 \<le> a" "a \<le> 3" "365 * a \<le> r3" "a < 3 \<longrightarrow> r3 < 365 * a + 365"
  proof -
    have "a = r3 div 365 \<and> a \<le> 3 \<or> a = 3 \<and> 3 < r3 div 365" unfolding parts(7) by linarith
    with b3 q(3,4) show "0 \<le> a" "a \<le> 3" "365 * a \<le> r3" "a < 3 \<longrightarrow> r3 < 365 * a + 365" by linarith+
  qed
  have y: "year_of d = 400 * n + 100 * c + 4 * q + a + 1"
    by (simp add: year_of_def Let_def parts)
  have start: "year_start (year_of d) = 146097 * n + 36524 * c + 1461 * q + 365 * a"
    unfolding y by (rule year_start_parts) (use a q c in simp_all)
  have leap: "is_leap (year_of d)" if "r3 = 1460"
  proof -
    have a3: "a = 3" using that a(2,4) by linarith
    have "q < 24 \<or> q = 24 \<and> c = 3" using that c(2,5) q(2,5) by linarith
    then show ?thesis
    proof
      assume "q < 24"
      have "year_of d = 4 * (q + 1) + 100 * (4 * n + c)" unfolding y a3 by simp
      then have "year_of d mod 100 = 4 * (q + 1)" using \<open>q < 24\<close> q(1) by (simp only: mod_mult_self2) (rule mod_pos_pos_trivial, simp_all)
      moreover have "year_of d = 4 * (100 * n + 25 * c + q + 1)" unfolding y a3 by simp
      ultimately show ?thesis using q(1) by (simp add: is_leap_def)
    next
      assume "q = 24 \<and> c = 3"
      then have "year_of d = 400 * (n + 1)" unfolding y a3 by simp
      then have "year_of d mod 400 = 0" "year_of d mod 4 = 0" by simp_all
      then show ?thesis by (simp add: is_leap_def)
    qed
  qed
  have "r3 < 365 * a + (if is_leap (year_of d) then 366 else 365)"
  proof (cases "r3 = 1460")
    case True
    then show ?thesis using leap a(2,4) by simp
  next
    case False
    then have "r3 < 365 * a + 365" using a(2,4) q(4) by linarith
    then show ?thesis by simp
  qed
  then show ?thesis using start r1(3) c(6) q(5) a(3) by linarith
qed

lemma month_from_split:
  assumes "d < sum_list ks"
  shows "case month_from m ks d of (mo, day) \<Rightarrow>
    m \<le> mo \<and> mo < m + length ks \<and> 1 \<le> day \<and> day \<le> ks ! (mo - m) \<and> d + 1 = sum_list (take (mo - m) ks) + day"
  using assms
proof (induction ks arbitrary: m d)
  case (Cons k ks)
  show ?case
  proof (cases "d < k")
    case False
    then have "d - k < sum_list ks" using Cons.prems by simp
    from Cons.IH [OF this, of "m + 1"] False show ?thesis
      by (auto simp: nth_Cons take_Cons Suc_diff_le Suc_le_eq diff_Suc split: nat.splits prod.splits)
  qed simp
qed simp

lemma month_days_sum: "sum_list (month_days leap) = (if leap then 366 else 365)"
  by (simp add: month_days_def)

text \<open>The date of a time: its parts are in range and give the day back.\<close>

lemma date_of_parts:
  assumes "date_of t = (y, mo, d)"
  shows "1 \<le> mo" "mo < 13" "1 \<le> d" "d \<le> days_in y mo" "days_in y mo \<le> 31"
    and "year_start y + int (days_before y mo) + int d - 1 = t div day_nanos" "y = year_of (t div day_nanos)"
proof -
  let ?D = "t div day_nanos"
  have y: "y = year_of ?D" and m: "month_from 1 (month_days (is_leap y)) (nat (?D - year_start y)) = (mo, d)"
    using assms by (auto simp: date_of_def Let_def)
  have r: "0 \<le> ?D - year_start y" "nat (?D - year_start y) < sum_list (month_days (is_leap y))"
    using year_of_range [of ?D] unfolding y month_days_sum by (auto split: if_splits)
  have len: "length (month_days l) = 12" for l by (simp add: month_days_def)
  from month_from_split [OF r(2), of 1] m len
  have parts: "1 \<le> mo" "mo < 13" "1 \<le> d" "d \<le> month_days (is_leap y) ! (mo - 1)"
    "nat (?D - year_start y) + 1 = sum_list (take (mo - 1) (month_days (is_leap y))) + d" by auto
  then show "1 \<le> mo" "mo < 13" "1 \<le> d" "d \<le> days_in y mo" by (simp_all add: days_in_def)
  have "list_all (\<lambda>k. k \<le> 31) (month_days (is_leap y))" by (simp add: month_days_def)
  then show "days_in y mo \<le> 31" using parts(1,2) len by (simp add: days_in_def list_all_length)
  show "year_start y + int (days_before y mo) + int d - 1 = ?D" using parts(5) r(1) by (simp add: days_before_def)
  show "y = year_of ?D" by (rule y)
qed

section \<open>What is written reads back\<close>

lemma show_nat_length: "n < 10 ^ w \<Longrightarrow> 0 < w \<Longrightarrow> length (show_nat n) \<le> w"
proof (induction n arbitrary: w rule: show_nat.induct)
  case (1 n)
  show ?case
  proof (cases "n < 10")
    case False
    with "1.prems" have "w \<noteq> 1" by auto
    with "1.prems"(2) obtain v where w: "w = Suc v" "0 < v" by (cases w) auto
    then have "n div 10 < 10 ^ v" using "1.prems" by (simp add: div_less_iff_less_mult mult.commute)
    with "1.IH" [OF False this] w show ?thesis by (subst show_nat.simps) simp
  qed (use "1.prems" in \<open>subst show_nat.simps, simp\<close>)
qed

lemma read_nat_zeros: "read_nat (replicate k (CHR ''0'') @ s) = read_nat s"
  by (induction k) (simp_all add: read_nat_def digit_val_def)

lemma pad_digits:
  assumes "n < 10 ^ w" "0 < w"
  shows "length (pad w n) = w" "list_all is_digit (pad w n)" "read_nat (pad w n) = n"
proof -
  have "is_digit (CHR ''0'')" by (simp add: is_digit_def)
  then show "length (pad w n) = w" "list_all is_digit (pad w n)" "read_nat (pad w n) = n"
    using show_nat_length [OF assms] show_nat_digits [of n]
    by (auto simp: pad_def Let_def read_nat_zeros list_all_iff)
qed

lemma pad_split:
  assumes "n < 100"
  obtains a b where "pad 2 n = [a, b]" "is_digit a" "is_digit b" "10 * digit_val a + digit_val b = n"
proof -
  from pad_digits [of n 2] assms obtain a b where "pad 2 n = [a, b]" "is_digit a" "is_digit b" "read_nat [a, b] = n"
    by (auto simp: numeral_2_eq_2 length_Suc_conv)
  then show ?thesis by (intro that) (simp_all add: read_nat_def)
qed

lemma take_num_pad: "n < 100 \<Longrightarrow> take_num fixed (pad 2 n @ r) = Some (n, r)"
  by (erule pad_split) (simp add: take_num_def)

lemma take_range_pad: "n < 100 \<Longrightarrow> lo \<le> n \<Longrightarrow> n < hi \<Longrightarrow> take_range lo hi fixed (pad 2 n @ r) = Some (n, r)"
  by (simp add: take_range_def take_num_pad)

lemma take_year_pad: "n < 10000 \<Longrightarrow> take_year (pad 4 n @ r) = Some (n, r)"
  using pad_digits [of n 4] by (simp add: take_year_def)

lemma take_fraction_millis: "n < 1000 \<Longrightarrow> take_fraction (CHR ''.'' # pad 3 n @ ''Z'') = (n * 1000000, ''Z'')"
proof -
  assume n: "n < 1000"
  from pad_digits [of n 3] n obtain a b c where p: "pad 3 n = [a, b, c]" "is_digit a" "is_digit b" "is_digit c" "read_nat [a, b, c] = n"
    by (auto simp: numeral_3_eq_3 length_Suc_conv)
  moreover have "\<not> is_digit (CHR ''Z'')" by (simp add: is_digit_def)
  ultimately show ?thesis by (simp add: take_fraction_def)
qed

lemma take_char_hit [simp]: "take_char c (c # r) = Some r"
  by (simp add: take_char_def)

text \<open>The times of the years 0 to 9999, which four digits hold.\<close>

definition writable :: "int \<Rightarrow> bool" where
  "writable t \<longleftrightarrow> year_start 0 * day_nanos \<le> t \<and> t < year_start 10000 * day_nanos"

lemma pred_div: "0 < b \<Longrightarrow> (y - 1) div b = y div b - (if b dvd y then 1 else 0)" for b y :: int
proof -
  assume b: "0 < b"
  show ?thesis
  proof (cases "b dvd y")
    case True
    then have "y - 1 = b * (y div b - 1) + (b - 1)" by (simp add: algebra_simps)
    then have "(y - 1) div b = y div b - 1" by (rule int_div_pos_eq) (use b in simp_all)
    with True show ?thesis by simp
  next
    case False
    then have "0 < y mod b" "y mod b < b" using b by (simp_all add: dvd_eq_mod_eq_0 order_le_neq_trans)
    moreover have "y - 1 = b * (y div b) + (y mod b - 1)" by simp
    ultimately have "(y - 1) div b = y div b" by (intro int_div_pos_eq [where r = "y mod b - 1"]) simp_all
    with False show ?thesis by simp
  qed
qed

lemma year_start_Suc: "year_start (y + 1) = year_start y + (if is_leap y then 366 else 365)"
proof -
  have "100 dvd y \<Longrightarrow> 4 dvd y" "400 dvd y \<Longrightarrow> 100 dvd y"
    using dvd_trans [of 4 100 y] dvd_trans [of 100 400 y] by simp_all
  moreover have "is_leap y \<longleftrightarrow> 4 dvd y \<and> (\<not> 100 dvd y \<or> 400 dvd y)" by (simp add: is_leap_def dvd_eq_mod_eq_0)
  ultimately show ?thesis by (auto simp: year_start_def pred_div)
qed

lemma year_start_mono: "x \<le> y \<Longrightarrow> year_start x \<le> year_start y"
proof -
  have step: "year_start y \<le> year_start (y + 1)" for y
    by (simp add: year_start_Suc)
  show "x \<le> y \<Longrightarrow> year_start x \<le> year_start y"
    by (induction y rule: int_ge_induct) (simp, meson step order_trans)
qed

lemma writable_year:
  assumes "writable t"
  shows "0 \<le> year_of (t div day_nanos)" "year_of (t div day_nanos) < 10000"
proof -
  let ?d = "t div day_nanos"
  have pos: "0 < day_nanos" by (simp add: day_nanos_def nanos_def)
  have lo: "year_start 0 \<le> ?d" and hi: "?d < year_start 10000"
    using assms div_bounds [OF pos, of t] unfolding writable_def
    by (smt (verit) mult.commute mult_le_cancel_right_pos pos mult_strict_right_mono zdiv_mono1 nonzero_mult_div_cancel_right)+
  note r = year_of_range [of ?d]
  from r have "year_start (year_of ?d) \<le> ?d" "?d < year_start (year_of ?d + 1)" by (simp_all add: year_start_Suc)
  then show "0 \<le> year_of ?d" "year_of ?d < 10000"
    using lo hi year_start_mono [of "year_of ?d + 1" 0] year_start_mono [of 10000 "year_of ?d"] by linarith+
qed

lemma nanos_parts:
  assumes "t mod day_nanos div nanos = r"
  shows "0 \<le> r" "r < 86400" "t = t div day_nanos * day_nanos + r * nanos + t mod nanos"
proof -
  have p: "0 < nanos" "day_nanos = 86400 * nanos" by (simp_all add: day_nanos_def nanos_def)
  let ?u = "t mod day_nanos"
  have u: "0 \<le> ?u" "?u < 86400 * nanos" using p pos_mod_sign [of day_nanos t] pos_mod_bound [of day_nanos t] by simp_all
  then show "0 \<le> r" unfolding assms [symmetric] by (simp add: pos_imp_zdiv_nonneg_iff p(1))
  show "r < 86400" using div_bounds(1) [OF p(1), of ?u] u(2) unfolding assms [symmetric] nanos_def by linarith
  have "?u mod nanos = t mod nanos" unfolding p(2) by (rule mod_mod_cancel) simp
  then have "?u = r * nanos + t mod nanos" using assms div_mult_mod_eq [of ?u nanos] by simp
  moreover have "t = t div day_nanos * day_nanos + ?u" by simp
  ultimately show "t = t div day_nanos * day_nanos + r * nanos + t mod nanos" by linarith
qed

text \<open>A written time reads back as itself, cut to the millisecond.\<close>

lemma time_roundtrip:
  assumes "writable t"
  shows "parse_rfc3339 (format_millis t) = Some (t - t mod 1000000)"
proof -
  obtain y mo d where date: "date_of t = (y, mo, d)" by (metis prod_cases3)
  note parts = date_of_parts [OF date]
  define r where "r = nat (t mod day_nanos div nanos)"
  define ms where "ms = nat (t mod nanos div 1000000)"
  note np = nanos_parts [OF refl, of t]
  have r: "r < 86400" "int r = t mod day_nanos div nanos" using np(1,2) by (simp_all add: r_def)
  have u: "0 \<le> t mod nanos" "t mod nanos < 1000000000" by (simp_all add: nanos_def)
  have ms: "ms < 1000" "int ms = t mod nanos div 1000000"
    using u by (simp_all add: ms_def nat_less_iff div_less_iff_less_mult pos_imp_zdiv_nonneg_iff)
  have y: "0 \<le> y" "nat y < 10000" "int (nat y) = y" "\<not> y < 0"
    using writable_year [OF assms] by (simp_all add: parts(7))
  have written: "format_millis t = pad 4 (nat y) @ CHR ''-'' # pad 2 mo @ CHR ''-'' # pad 2 d @ CHR ''T'' # pad 2 (r div 3600)
      @ CHR '':'' # pad 2 (r div 60 mod 60) @ CHR '':'' # pad 2 (r mod 60) @ CHR ''.'' # pad 3 ms @ ''Z''"
    using y by (simp add: format_millis_def date Let_def r_def ms_def)
  have sec: "int (r div 3600) * 3600 + int (r div 60 mod 60) * 60 + int (r mod 60) = int r"
  proof -
    have "r div 60 div 60 = r div 3600" by (simp add: div_mult2_eq [symmetric])
    then have "r = (r div 3600 * 60 + r div 60 mod 60) * 60 + r mod 60"
      using div_mult_mod_eq [of r 60] div_mult_mod_eq [of "r div 60" 60] by simp
    then have "int r = int ((r div 3600 * 60 + r div 60 mod 60) * 60 + r mod 60)" by (rule arg_cong)
    then show ?thesis by simp
  qed
  have cut: "int (ms * 1000000) = t mod nanos - t mod 1000000"
  proof -
    have "t mod nanos mod 1000000 = t mod 1000000" by (simp add: nanos_def mod_mod_cancel)
    with div_mult_mod_eq [of "t mod nanos" 1000000] ms(2) show ?thesis by simp
  qed
  have result: "time_of y mo d (r div 3600) (r div 60 mod 60) (r mod 60) (ms * 1000000) = t - t mod 1000000"
    unfolding time_of_def sec parts(6) cut r(2) using np(3) by simp
  have "take_zone ''Z'' = Some (0, [])" by (simp add: take_zone_def)
  moreover have "r div 3600 < 24" "r div 60 mod 60 < 60" "r mod 60 < 60" using r(1) by (simp_all add: div_less_iff_less_mult)
  ultimately show ?thesis
    unfolding written parse_rfc3339_def
    using parts(1-5) y r ms(1) result
    by (simp add: take_year_pad take_range_pad take_num_pad take_fraction_millis)
qed

end
