(* ===== verification/Claude_Codec.thy ===== *)
theory Claude_Codec
  imports Json_Raw Go_Time Transcript_Jsonl
begin

text \<open>
  The rows of a Claude Code session (\<open>transcript/claude/claude.go\<close>, and \<open>hosted.go\<close> for a session written
  for a host): what a row is read as, and the row an entry of another agent is written as.

  A raw field is its text. A session's \<open>Vendor\<close> is the record \<open>claude_vendor\<close>. The registry of running
  sessions (\<open>holders\<close>, \<open>Serving\<close>), which only the liveness of a session reads, is outside.
\<close>

section \<open>Rows\<close>

record claude_vendor =
  cv_version :: string
  cv_branch :: string
  cv_model :: string
  cv_summary_of :: "string \<rightharpoonup> string"
  cv_hosted :: bool
  cv_attachments :: "string \<rightharpoonup> string"

definition no_vendor :: claude_vendor where
  "no_vendor =
     \<lparr>cv_version = [], cv_branch = [], cv_model = [], cv_summary_of = Map.empty, cv_hosted = False, cv_attachments = Map.empty\<rparr>"

record claude_source =
  so_type :: string
  so_media_type :: string
  so_data :: string
  so_url :: string

record claude_block =
  cb_type :: string
  cb_text :: string
  cb_thinking :: string
  cb_signature :: string
  cb_id :: string
  cb_name :: string
  cb_input :: string
  cb_tool_use_id :: string
  cb_content :: string
  cb_is_error :: bool
  cb_source :: "claude_source option"
  cb_title :: string

record claude_message =
  cm_role :: string
  cm_content :: string
  cm_id :: string
  cm_type :: string
  cm_model :: string
  cm_stop_reason :: "string option"
  cm_stop_sequence :: "string option"
  cm_usage :: "(int \<times> int) option"          \<comment> \<open>input and output tokens\<close>

record claude_row =
  cr_parent :: "string option"
  cr_sidechain :: bool
  cr_user_type :: string
  cr_cwd :: string
  cr_session :: string
  cr_version :: string
  cr_branch :: string
  cr_type :: string
  cr_message :: "claude_message option"
  cr_uuid :: string
  cr_timestamp :: string
  cr_transcript_only :: bool
  cr_summary :: bool
  cr_meta :: bool
  cr_api_error :: bool

definition claude_version :: string where "claude_version = ''2.1.278''"
definition synthetic_model :: string where "synthetic_model = ''<synthetic>''"

definition empty_claude_block :: "string \<Rightarrow> claude_block" where
  "empty_claude_block t =
     \<lparr>cb_type = t, cb_text = [], cb_thinking = [], cb_signature = [], cb_id = [], cb_name = [], cb_input = [],
      cb_tool_use_id = [], cb_content = [], cb_is_error = False, cb_source = None, cb_title = []\<rparr>"

section \<open>Reading a row\<close>

definition read_source :: "members \<Rightarrow> claude_source option" where
  "read_source ms =
     (if strs_ok [''type'', ''media_type'', ''data'', ''url''] ms
      then Some \<lparr>so_type = str_of ''type'' ms, so_media_type = str_of ''media_type'' ms, so_data = str_of ''data'' ms,
                 so_url = str_of ''url'' ms\<rparr>
      else None)"

definition read_block :: "string \<Rightarrow> claude_block option" where
  "read_block s =
     (case struct_members s of
        None \<Rightarrow> None
      | Some ms \<Rightarrow>
          (case read_opt read_source ''source'' ms of
             None \<Rightarrow> None
           | Some src \<Rightarrow>
               if strs_ok [''type'', ''text'', ''thinking'', ''signature'', ''id'', ''name'', ''tool_use_id'', ''title''] ms
                  \<and> bools_ok [''is_error''] ms
               then Some \<lparr>cb_type = str_of ''type'' ms, cb_text = str_of ''text'' ms, cb_thinking = str_of ''thinking'' ms,
                          cb_signature = str_of ''signature'' ms, cb_id = str_of ''id'' ms, cb_name = str_of ''name'' ms,
                          cb_input = raw_of ''input'' ms, cb_tool_use_id = str_of ''tool_use_id'' ms,
                          cb_content = raw_of ''content'' ms, cb_is_error = bool_of ''is_error'' ms, cb_source = src,
                          cb_title = str_of ''title'' ms\<rparr>
               else None))"

fun read_all :: "(string \<Rightarrow> 'a option) \<Rightarrow> string list \<Rightarrow> 'a list option" where
  "read_all f [] = Some []"
| "read_all f (t # ts) = (case (f t, read_all f ts) of (Some x, Some xs) \<Rightarrow> Some (x # xs) | _ \<Rightarrow> None)"

definition read_blocks :: "string \<Rightarrow> claude_block list option" where
  "read_blocks s =
     (case json_parse s of
        Some (JArr _) \<Rightarrow> read_all read_block (raw_array s)
      | Some JNull \<Rightarrow> Some []
      | _ \<Rightarrow> None)"

definition read_usage :: "members \<Rightarrow> (int \<times> int) option" where
  "read_usage ms =
     (if ints_ok [''input_tokens'', ''output_tokens''] ms
      then Some (int_of ''input_tokens'' ms, int_of ''output_tokens'' ms) else None)"

definition read_message :: "members \<Rightarrow> claude_message option" where
  "read_message ms =
     (case read_opt read_usage ''usage'' ms of
        None \<Rightarrow> None
      | Some u \<Rightarrow>
          let reason = dec_ptr conv_str ''stop_reason'' (parsed ms) None;
              sequence = dec_ptr conv_str ''stop_sequence'' (parsed ms) None in
          if strs_ok [''role'', ''id'', ''type'', ''model''] ms \<and> snd reason \<and> snd sequence
          then Some \<lparr>cm_role = str_of ''role'' ms, cm_content = raw_of ''content'' ms, cm_id = str_of ''id'' ms,
                     cm_type = str_of ''type'' ms, cm_model = str_of ''model'' ms, cm_stop_reason = fst reason,
                     cm_stop_sequence = fst sequence, cm_usage = u\<rparr>
          else None)"

definition read_row :: "string \<Rightarrow> claude_row option" where
  "read_row s =
     (case struct_members s of
        None \<Rightarrow> None
      | Some ms \<Rightarrow>
          (case read_opt read_message ''message'' ms of
             None \<Rightarrow> None
           | Some m \<Rightarrow>
               let parent = dec_ptr conv_str ''parentUuid'' (parsed ms) None in
               if snd parent
                  \<and> strs_ok [''userType'', ''cwd'', ''sessionId'', ''version'', ''gitBranch'', ''type'', ''uuid'', ''timestamp''] ms
                  \<and> bools_ok [''isSidechain'', ''isVisibleInTranscriptOnly'', ''isCompactSummary'', ''isMeta'', ''isApiErrorMessage''] ms
               then Some \<lparr>cr_parent = fst parent, cr_sidechain = bool_of ''isSidechain'' ms, cr_user_type = str_of ''userType'' ms,
                          cr_cwd = str_of ''cwd'' ms, cr_session = str_of ''sessionId'' ms, cr_version = str_of ''version'' ms,
                          cr_branch = str_of ''gitBranch'' ms, cr_type = str_of ''type'' ms, cr_message = m,
                          cr_uuid = str_of ''uuid'' ms, cr_timestamp = str_of ''timestamp'' ms,
                          cr_transcript_only = bool_of ''isVisibleInTranscriptOnly'' ms,
                          cr_summary = bool_of ''isCompactSummary'' ms, cr_meta = bool_of ''isMeta'' ms,
                          cr_api_error = bool_of ''isApiErrorMessage'' ms\<rparr>
               else None))"

section \<open>Content\<close>

definition media :: "claude_block \<Rightarrow> string \<Rightarrow> block option" where
  "media b tool_id =
     (let doc = (cb_type b = ''document'');
          out = (empty_block (if doc then BlockFile else BlockImage))\<lparr>b_tool_id := tool_id, b_name := (if doc then cb_title b else [])\<rparr>
      in case cb_source b of
           None \<Rightarrow> None
         | Some src \<Rightarrow>
             let out = out\<lparr>b_media_type := so_media_type src\<rparr> in
             if so_type src = ''base64'' then
               (case media_block (b_kind out) (so_media_type src) (so_data src) tool_id of
                  None \<Rightarrow> None | Some m \<Rightarrow> Some (out\<lparr>b_data := b_data m\<rparr>))
             else if so_type src = ''text'' then Some (out\<lparr>b_data := so_data src\<rparr>)
             else if so_type src = ''url'' then Some (out\<lparr>b_uri := so_url src\<rparr>)
             else None)"

text \<open>A value as a string: what \<open>json.Unmarshal\<close> into a \<open>string\<close> accepts.\<close>

definition content_string :: "string \<Rightarrow> string option" where
  "content_string raw = (case json_parse raw of Some (JStr t) \<Rightarrow> Some t | Some JNull \<Rightarrow> Some [] | _ \<Rightarrow> None)"

definition is_media_type :: "claude_block \<Rightarrow> bool" where
  "is_media_type b \<longleftrightarrow> cb_type b = ''image'' \<or> cb_type b = ''document''"

definition tool_result :: "string \<Rightarrow> string \<Rightarrow> (string \<times> block list) option" where
  "tool_result raw tool_id =
     (if raw = [] then Some ([], [])
      else (case content_string raw of
         Some t \<Rightarrow> Some (t, [])
       | None \<Rightarrow>
           (case read_blocks raw of
              None \<Rightarrow> None
            | Some bs \<Rightarrow>
                Some (concat (map cb_text (filter (\<lambda>b. \<not> is_media_type b) bs)),
                      List.map_filter (\<lambda>b. media b tool_id) (filter is_media_type bs)))))"

definition block_of :: "claude_block \<Rightarrow> block list option" where
  "block_of b =
     (if cb_type b = ''text'' then Some [(empty_block BlockText)\<lparr>b_text := cb_text b\<rparr>]
      else if cb_type b = ''thinking'' then
        Some [(empty_block BlockReasoning)\<lparr>b_text := cb_thinking b, b_signature := cb_signature b\<rparr>]
      else if cb_type b = ''tool_use'' then
        Some [(empty_block BlockToolUse)\<lparr>b_tool_id := cb_id b, b_name := cb_name b, b_input := cb_input b\<rparr>]
      else if is_media_type b then Some (case media b [] of None \<Rightarrow> [] | Some m \<Rightarrow> [m])
      else if cb_type b = ''tool_result'' then
        (case tool_result (cb_content b) (cb_tool_use_id b) of
           None \<Rightarrow> None
         | Some (t, returned) \<Rightarrow>
             Some ((empty_block BlockToolResult)\<lparr>b_tool_id := cb_tool_use_id b, b_text := t,
                      b_status := (if cb_is_error b then StatusError else StatusOK)\<rparr> # returned))
      else Some [])"

fun blocks_of :: "claude_block list \<Rightarrow> block list option" where
  "blocks_of [] = Some []"
| "blocks_of (b # bs) = (case (block_of b, blocks_of bs) of (Some x, Some xs) \<Rightarrow> Some (x @ xs) | _ \<Rightarrow> None)"

definition content_blocks :: "string \<Rightarrow> block list option" where
  "content_blocks raw =
     (if raw = [] then Some []
      else (case content_string raw of
         Some t \<Rightarrow> Some [(empty_block BlockText)\<lparr>b_text := t\<rparr>]
       | None \<Rightarrow> Option.bind (read_blocks raw) blocks_of))"

definition only_tool_results :: "block list \<Rightarrow> bool" where
  "only_tool_results content \<longleftrightarrow>
     content \<noteq> [] \<and> list_all (\<lambda>b. b_kind b = BlockToolResult \<or> b_tool_id b \<noteq> []) content"

definition audience_of :: "claude_row \<Rightarrow> claude_message \<Rightarrow> audience" where
  "audience_of r m =
     (if cr_type r = ''user'' \<and> (cr_meta r \<or> cr_transcript_only r) then AudienceModel
      else if cr_type r = ''assistant'' \<and> cr_api_error r \<and> cm_model m = synthetic_model then AudienceUser
      else AudienceAll)"

definition role_of :: "string \<Rightarrow> role" where
  "role_of t =
     (if t = [] then RoleOpaque else if t = ''user'' then RoleUser else if t = ''assistant'' then RoleAssistant
      else if t = ''system'' then RoleSystem else if t = ''tool'' then RoleTool else OtherRole t)"

text \<open>\<open>decode\<close>: an entry, or nothing for a row without a uuid, and what the row says of the session.\<close>

definition learn :: "claude_row \<Rightarrow> claude_message \<Rightarrow> claude_vendor session \<Rightarrow> claude_vendor session" where
  "learn r m s =
     (let s = (if s_cwd s = [] then s\<lparr>s_cwd := cr_cwd r\<rparr> else s);
          s = (if s_id s = [] then s\<lparr>s_id := cr_session r\<rparr> else s);
          v = (case s_vendor s of None \<Rightarrow> no_vendor | Some v \<Rightarrow> v);
          v = (if cr_version r \<noteq> [] then v\<lparr>cv_version := cr_version r\<rparr> else v);
          v = (if cr_branch r \<noteq> [] then v\<lparr>cv_branch := cr_branch r\<rparr> else v)
      in if cm_model m \<noteq> [] then s\<lparr>s_vendor := Some (v\<lparr>cv_model := cm_model m\<rparr>), s_model := cm_model m\<rparr>
         else s\<lparr>s_vendor := Some v\<rparr>)"

definition claude_decode :: "string \<Rightarrow> claude_vendor session \<Rightarrow> (entry option \<times> claude_vendor session) result" where
  "claude_decode raw s =
     (case read_row raw of
        None \<Rightarrow> Inl ''cannot unmarshal row''
      | Some r \<Rightarrow>
          if cr_uuid r = [] then Inr (None, s)
          else
            let parent = (case cr_parent r of None \<Rightarrow> [] | Some p \<Rightarrow> p);
                t = (if cr_timestamp r = [] then Some 0 else parse_rfc3339 (cr_timestamp r));
                time = (case t of None \<Rightarrow> 0 | Some t \<Rightarrow> t);
                e = (\<lambda>role content aud. Entry (cr_uuid r) parent role time content None aud None None)
            in
              (case cr_message r of
                 None \<Rightarrow> Inr (Some (e RoleOpaque [] AudienceAll), s)
               | Some m \<Rightarrow>
                   if (cr_type r \<noteq> ''user'' \<and> cr_type r \<noteq> ''assistant'') \<or> cr_sidechain r then Inr (Some (e RoleOpaque [] AudienceAll), s)
                   else if t = None then Inl (''row '' @ cr_uuid r @ '': timestamp'')
                   else
                     (case content_blocks (cm_content m) of
                        None \<Rightarrow> Inl (''row '' @ cr_uuid r @ '': content'')
                      | Some content \<Rightarrow>
                          let role = role_of (cm_role m);
                              role = (if role = RoleUser \<and> only_tool_results content then RoleTool else role)
                          in Inr (Some (e role content (audience_of r m)), learn r m s))))"

section \<open>Writing a row\<close>

text \<open>A raw field as \<open>json.Marshal\<close> writes it; \<open>None\<close> is its error on text that is not JSON.\<close>

definition raw_text :: "string \<Rightarrow> string option" where
  "raw_text raw = (if raw = [] then Some ''null'' else if json_valid raw then Some (compact False raw) else None)"

definition array_text :: "string list \<Rightarrow> string" where
  "array_text ts = ''['' @ join ts '','' @ '']''"

definition flag :: "string \<Rightarrow> bool \<Rightarrow> (string \<times> string) list" where
  "flag k b = (if b then [(k, ''true'')] else [])"

definition text_member :: "string \<Rightarrow> string \<Rightarrow> (string \<times> string) list" where
  "text_member k s = omit k (map_option print_string (given s))"

definition source_text :: "claude_source \<Rightarrow> string" where
  "source_text so =
     object_text ([(''type'', print_string (so_type so))] @ text_member ''media_type'' (so_media_type so)
       @ text_member ''data'' (so_data so) @ text_member ''url'' (so_url so))"

definition claude_block_text :: "claude_block \<Rightarrow> string option" where
  "claude_block_text b =
     (case (raw_text (cb_input b), raw_text (cb_content b)) of
        (Some inp, Some content) \<Rightarrow>
          Some (object_text
            ([(''type'', print_string (cb_type b))] @ text_member ''text'' (cb_text b) @ text_member ''thinking'' (cb_thinking b)
             @ text_member ''signature'' (cb_signature b) @ text_member ''id'' (cb_id b) @ text_member ''name'' (cb_name b)
             @ omit ''input'' (map_option (\<lambda>_. inp) (given (cb_input b))) @ text_member ''tool_use_id'' (cb_tool_use_id b)
             @ omit ''content'' (map_option (\<lambda>_. content) (given (cb_content b))) @ flag ''is_error'' (cb_is_error b)
             @ omit ''source'' (map_option source_text (cb_source b)) @ text_member ''title'' (cb_title b)))
      | _ \<Rightarrow> None)"

fun all_texts :: "('a \<Rightarrow> string option) \<Rightarrow> 'a list \<Rightarrow> string list option" where
  "all_texts f [] = Some []"
| "all_texts f (x # xs) = (case (f x, all_texts f xs) of (Some t, Some ts) \<Rightarrow> Some (t # ts) | _ \<Rightarrow> None)"

definition blocks_array :: "claude_block list \<Rightarrow> string option" where
  "blocks_array bs = map_option array_text (all_texts claude_block_text bs)"

definition claude_message_text :: "claude_message \<Rightarrow> string option" where
  "claude_message_text m =
     (case raw_text (cm_content m) of
        None \<Rightarrow> None
      | Some content \<Rightarrow>
          Some (object_text
            ([(''role'', print_string (cm_role m)), (''content'', content)] @ text_member ''id'' (cm_id m)
             @ text_member ''type'' (cm_type m) @ text_member ''model'' (cm_model m)
             @ omit ''stop_reason'' (map_option print_string (cm_stop_reason m))
             @ omit ''stop_sequence'' (map_option print_string (cm_stop_sequence m))
             @ omit ''usage'' (map_option (\<lambda>(i, o').
                 object_text [(''input_tokens'', show_int i), (''output_tokens'', show_int o')]) (cm_usage m)))))"

text \<open>The members of a row; rows of other kinds embed it and add their own.\<close>

definition row_members :: "claude_row \<Rightarrow> (string \<times> string) list option" where
  "row_members r =
     (case (case cr_message r of None \<Rightarrow> Some None | Some m \<Rightarrow> map_option Some (claude_message_text m)) of
        None \<Rightarrow> None
      | Some mt \<Rightarrow>
          Some ([(''parentUuid'', case cr_parent r of None \<Rightarrow> ''null'' | Some p \<Rightarrow> print_string p),
                 (''isSidechain'', if cr_sidechain r then ''true'' else ''false'')]
            @ text_member ''userType'' (cr_user_type r) @ text_member ''cwd'' (cr_cwd r)
            @ text_member ''sessionId'' (cr_session r) @ text_member ''version'' (cr_version r)
            @ text_member ''gitBranch'' (cr_branch r) @ [(''type'', print_string (cr_type r))]
            @ omit ''message'' mt @ text_member ''uuid'' (cr_uuid r) @ text_member ''timestamp'' (cr_timestamp r)
            @ flag ''isVisibleInTranscriptOnly'' (cr_transcript_only r) @ flag ''isCompactSummary'' (cr_summary r)
            @ flag ''isMeta'' (cr_meta r) @ flag ''isApiErrorMessage'' (cr_api_error r)))"

definition row_result :: "(string \<times> string) list option \<Rightarrow> (string \<times> string) list \<Rightarrow> string result" where
  "row_result ms extra = (case ms of None \<Rightarrow> Inl ''json: error calling MarshalJSON'' | Some ms \<Rightarrow> Inr (object_text (ms @ extra)))"

definition vendor_of :: "claude_vendor session \<Rightarrow> claude_vendor" where
  "vendor_of s = (case s_vendor s of None \<Rightarrow> no_vendor | Some v \<Rightarrow> v)"

definition stamped :: "entry \<Rightarrow> claude_vendor session \<Rightarrow> claude_vendor \<Rightarrow> string \<Rightarrow> claude_row" where
  "stamped e s v typ =
     \<lparr>cr_parent = given (e_parent e), cr_sidechain = False, cr_user_type = ''external'', cr_cwd = s_cwd s, cr_session = s_id s,
      cr_version = (if cv_version v = [] then claude_version else cv_version v), cr_branch = cv_branch v, cr_type = typ,
      cr_message = None, cr_uuid = e_id e,
      cr_timestamp = format_millis (if e_time e = 0 then s_updated s else e_time e),
      cr_transcript_only = False, cr_summary = False, cr_meta = False, cr_api_error = False\<rparr>"

definition image_types :: "string list" where
  "image_types = [''image/jpeg'', ''image/png'', ''image/gif'', ''image/webp'']"

definition is_web :: "string \<Rightarrow> bool" where
  "is_web u \<longleftrightarrow> has_prefix u ''https://'' \<or> has_prefix u ''http://''"

definition base64_source :: "block \<Rightarrow> claude_source" where
  "base64_source b = \<lparr>so_type = ''base64'', so_media_type = b_media_type b, so_data = b64_encode (b_data b), so_url = []\<rparr>"

definition url_source :: "block \<Rightarrow> claude_source" where
  "url_source b = \<lparr>so_type = ''url'', so_media_type = [], so_data = [], so_url = b_uri b\<rparr>"

definition media_source :: "block \<Rightarrow> claude_source option" where
  "media_source b =
     (if b_kind b = BlockImage \<and> b_media_type b \<in> set image_types \<and> b_data b \<noteq> [] then Some (base64_source b)
      else if b_kind b = BlockImage \<and> b_data b = [] \<and> is_web (b_uri b) then Some (url_source b)
      else if b_kind b = BlockFile \<and> b_media_type b = ''application/pdf'' \<and> b_data b \<noteq> [] then Some (base64_source b)
      else if b_kind b = BlockFile \<and> b_media_type b = ''application/pdf'' \<and> b_data b = [] \<and> is_web (b_uri b) then Some (url_source b)
      else if b_kind b = BlockFile \<and> has_prefix (b_media_type b) ''text/'' \<and> b_data b \<noteq> [] \<and> valid_utf8 (b_data b)
        then Some \<lparr>so_type = ''text'', so_media_type = ''text/plain'', so_data = b_data b, so_url = []\<rparr>
      else None)"

definition encode_media :: "block \<Rightarrow> claude_block option" where
  "encode_media b =
     (case media_source b of
        None \<Rightarrow> None
      | Some so \<Rightarrow>
          Some (if b_kind b = BlockFile then (empty_claude_block ''document'')\<lparr>cb_source := Some so, cb_title := b_name b\<rparr>
                else (empty_claude_block ''image'')\<lparr>cb_source := Some so\<rparr>))"

text \<open>What a tool returned, which goes inside its result.\<close>

definition returned_by :: "block list \<Rightarrow> string \<Rightarrow> claude_block list" where
  "returned_by content i =
     List.map_filter encode_media (filter (\<lambda>b. is_media b \<and> b_tool_id b \<noteq> [] \<and> b_tool_id b = i) content)"

definition text_part :: "string \<Rightarrow> claude_block" where
  "text_part t = (empty_claude_block ''text'')\<lparr>cb_text := t\<rparr>"

definition returned_content :: "bool \<Rightarrow> claude_block list \<Rightarrow> string \<Rightarrow> string option" where
  "returned_content hosted returned t =
     (if returned \<noteq> [] then blocks_array ((if t \<noteq> [] then [text_part t] else []) @ returned)
      else if hosted then Some (array_text [object_text [(''type'', print_string ''text''), (''text'', print_string t)]])
      else Some (print_string t))"

definition encode_block :: "bool \<Rightarrow> block list \<Rightarrow> block \<Rightarrow> claude_block list option" where
  "encode_block hosted content b =
     (case b_kind b of
        BlockText \<Rightarrow> Some [text_part (b_text b)]
      | BlockReasoning \<Rightarrow>
          Some (if b_signature b \<noteq> [] then [(empty_claude_block ''thinking'')\<lparr>cb_thinking := b_text b, cb_signature := b_signature b\<rparr>]
                else [])
      | BlockToolUse \<Rightarrow>
          Some [(empty_claude_block ''tool_use'')\<lparr>cb_id := b_tool_id b, cb_name := b_name b,
                  cb_input := (if b_input b = [] then ''{}'' else b_input b)\<rparr>]
      | BlockToolResult \<Rightarrow>
          map_option (\<lambda>t. [(empty_claude_block ''tool_result'')\<lparr>cb_tool_use_id := b_tool_id b, cb_content := t,
                              cb_is_error := (b_status b = StatusError)\<rparr>])
            (returned_content hosted (returned_by content (b_tool_id b)) (b_text b))
      | BlockImage \<Rightarrow> Some (if b_tool_id b \<noteq> [] then [] else case encode_media b of None \<Rightarrow> [] | Some m \<Rightarrow> [m])
      | BlockFile \<Rightarrow> Some (if b_tool_id b \<noteq> [] then [] else case encode_media b of None \<Rightarrow> [] | Some m \<Rightarrow> [m])
      | OtherKind _ \<Rightarrow> Some [])"

fun encode_blocks :: "bool \<Rightarrow> block list \<Rightarrow> block list \<Rightarrow> claude_block list option" where
  "encode_blocks hosted content [] = Some []"
| "encode_blocks hosted content (b # bs) =
     (case (encode_block hosted content b, encode_blocks hosted content bs) of
        (Some x, Some xs) \<Rightarrow> Some (x @ xs) | _ \<Rightarrow> None)"

definition encode_boundary :: "entry \<Rightarrow> compaction \<Rightarrow> claude_vendor session \<Rightarrow> claude_vendor \<Rightarrow> string result" where
  "encode_boundary e c s v =
     row_result (row_members ((stamped e s v ''system'')\<lparr>cr_parent := None\<rparr>))
       (text_member ''logicalParentUuid'' (e_parent e)
        @ [(''subtype'', print_string ''compact_boundary''), (''content'', print_string ''Conversation compacted''),
           (''level'', print_string ''info''),
           (''compactMetadata'', object_text
             ([(''trigger'', print_string ''manual''), (''preTokens'', ''0'')]
              @ (if c_keep c \<noteq> [] \<and> e_parent e \<noteq> []
                 then [(''preservedSegment'', object_text
                        [(''headUuid'', print_string (c_keep c)),
                         (''anchorUuid'', print_string (case cv_summary_of v (e_id e) of None \<Rightarrow> e_id e | Some i \<Rightarrow> i)),
                         (''tailUuid'', print_string (e_parent e))])]
                 else [])))])"

definition encode_summary :: "entry \<Rightarrow> claude_vendor session \<Rightarrow> claude_vendor \<Rightarrow> string result" where
  "encode_summary e s v =
     row_result (row_members ((stamped e s v ''user'')
       \<lparr>cr_message := Some \<lparr>cm_role = ''user'', cm_content = print_string (entry_text e), cm_id = [], cm_type = [], cm_model = [],
                              cm_stop_reason = None, cm_stop_sequence = None, cm_usage = None\<rparr>,
        cr_transcript_only := True, cr_summary := True\<rparr>)) []"

definition encode_attachment :: "entry \<Rightarrow> claude_vendor session \<Rightarrow> claude_vendor \<Rightarrow> string \<Rightarrow> string result" where
  "encode_attachment e s v a =
     (case raw_text a of
        None \<Rightarrow> Inl ''json: error calling MarshalJSON''
      | Some t \<Rightarrow> row_result (row_members (stamped e s v ''attachment'')) [(''attachment'', t)])"

definition encode_message :: "entry \<Rightarrow> claude_vendor session \<Rightarrow> claude_vendor \<Rightarrow> string \<Rightarrow> string result" where
  "encode_message e s v role =
     (case encode_blocks (cv_hosted v) (e_content e) (e_content e) of
        None \<Rightarrow> Inl ''json: error calling MarshalJSON''
      | Some [] \<Rightarrow> Inr []
      | Some bs \<Rightarrow>
          (case blocks_array bs of
             None \<Rightarrow> Inl ''json: error calling MarshalJSON''
           | Some content \<Rightarrow>
               let said = (role = ''assistant'') in
               row_result (row_members ((stamped e s v role)
                 \<lparr>cr_message := Some \<lparr>cm_role = role, cm_content = content, cm_id = (if said then ''msg_'' @ e_id e else []),
                    cm_type = (if said then ''message'' else []),
                    cm_model = (if said then if cv_model v = [] then s_model s else cv_model v else []),
                    cm_stop_reason = None, cm_stop_sequence = None, cm_usage = (if said then Some (0, 0) else None)\<rparr>\<rparr>)) []))"

text \<open>\<open>encode\<close>; no bytes is the entry being left out.\<close>

definition claude_encode :: "entry \<Rightarrow> claude_vendor session \<Rightarrow> string result" where
  "claude_encode e s =
     (let v = vendor_of s in
      case (if e_role e = RoleOpaque then e_compaction e else None) of
        Some c \<Rightarrow> encode_boundary e c s v
      | None \<Rightarrow>
          if cv_summary_of v (e_parent e) = Some (e_id e) then encode_summary e s v
          else (case cv_attachments v (e_id e) of
             Some a \<Rightarrow> encode_attachment e s v a
           | None \<Rightarrow>
               if e_role e = RoleUser \<or> e_role e = RoleTool then encode_message e s v ''user''
               else if e_role e = RoleAssistant then encode_message e s v ''assistant''
               else Inr []))"

end
