(* ===== verification/Claude_Write.thy ===== *)
theory Claude_Write
  imports Claude_Codec
begin

text \<open>
  Readying a session for Claude Code's store: the form its compactions take (\<open>compactions\<close> and
  \<open>written\<close>, \<open>transcript/claude/claude.go\<close>), the times of new rows (\<open>stamp\<close>, \<open>resume.go\<close>), and a session
  written for a host with the context attachments it records (\<open>hosted.go\<close>).

  Random ids are a supply and the number of the next one; the clock is a time for each reading of it.
\<close>

section \<open>Compactions\<close>

definition written_row :: "claude_vendor session \<Rightarrow> entry \<Rightarrow> bool" where
  "written_row s e \<longleftrightarrow>
     e_compaction e = None \<and> e_role e \<noteq> RoleOpaque
     \<and> (case claude_encode e s of Inl _ \<Rightarrow> False | Inr row \<Rightarrow> row \<noteq> [])"

definition summary_intro :: string where
  "summary_intro =
     ''This session is being continued from a previous conversation that ran out of context. ''
     @ ''The summary below covers the earlier portion of the conversation.'' @ [CHR 0x0A, CHR 0x0A]"

definition kept_note :: string where
  "kept_note = [CHR 0x0A, CHR 0x0A] @ ''Recent messages are preserved verbatim.''"

text \<open>The loop's variables: the next id, the vendor fields, the entries so far, where each id is, the markers.\<close>

record layout =
  ly_next :: nat
  ly_vendor :: "claude_vendor option"
  ly_out :: "entry list"
  ly_index :: "string \<rightharpoonup> nat"
  ly_markers :: "(nat \<times> nat option) list"

definition kept_from :: "claude_vendor session \<Rightarrow> layout \<Rightarrow> string \<Rightarrow> nat option" where
  "kept_from s ly keep =
     (if keep = [] then None
      else (case ly_index ly keep of
         None \<Rightarrow> None
       | Some at \<Rightarrow> find (\<lambda>k. written_row (s\<lparr>s_vendor := ly_vendor ly\<rparr>) (ly_out ly ! k)) [at..<length (ly_out ly)]))"

definition add_marker :: "(nat \<Rightarrow> string) \<Rightarrow> claude_vendor session \<Rightarrow> entry \<Rightarrow> compaction \<Rightarrow> layout \<Rightarrow> layout" where
  "add_marker new s e c ly =
     (let keep = kept_from s ly (c_keep c);
          n = ly_next ly;
          fresh = (\<not> is_uuid (e_id e));
          e = (if fresh then set_id (new n) e else e);
          n = (if fresh then Suc n else n);
          ly = ly\<lparr>ly_next := n, ly_markers := ly_markers ly @ [(length (ly_out ly), keep)], ly_out := ly_out ly @ [e]\<rparr>;
          summary = compaction_text None c
      in if summary = [] then ly
         else
           let body = summary_intro @ summary @ (if keep \<noteq> None then kept_note else []);
               v = (case ly_vendor ly of None \<Rightarrow> no_vendor | Some v \<Rightarrow> v);
               sum = Entry (new n) (e_id e) RoleUser (e_time e) [(empty_block BlockText)\<lparr>b_text := body\<rparr>] None AudienceAll None None
           in ly\<lparr>ly_next := Suc n, ly_vendor := Some (v\<lparr>cv_summary_of := (cv_summary_of v)(e_id e \<mapsto> new n)\<rparr>),
                 ly_out := ly_out ly @ [sum]\<rparr>)"

fun lay_out :: "(nat \<Rightarrow> string) \<Rightarrow> claude_vendor session \<Rightarrow> layout \<Rightarrow> entry list \<Rightarrow> layout" where
  "lay_out new s ly [] = ly"
| "lay_out new s ly (e # es) =
     lay_out new s
       (case (if e_raw e = None then e_compaction e else None) of
          None \<Rightarrow> ly\<lparr>ly_index := (if e_id e \<noteq> [] then (ly_index ly)(e_id e \<mapsto> length (ly_out ly)) else ly_index ly),
                     ly_out := ly_out ly @ [e]\<rparr>
        | Some c \<Rightarrow> add_marker new s e c ly) es"

definition name_marker :: "entry list \<Rightarrow> nat \<times> nat option \<Rightarrow> entry list" where
  "name_marker es m =
     (let e = es ! fst m;
          e = (if 0 < fst m then set_parent (e_id (es ! (fst m - 1))) e else e);
          summary = (case e_compaction e of None \<Rightarrow> [] | Some c \<Rightarrow> c_summary c)
      in es[fst m := set_compaction (Some (Compaction summary (case snd m of None \<Rightarrow> [] | Some k \<Rightarrow> e_id (es ! k)))) e])"

definition compactions :: "(nat \<Rightarrow> string) \<Rightarrow> claude_vendor session \<Rightarrow> claude_vendor session" where
  "compactions new s =
     (let ly = lay_out new s
            \<lparr>ly_next = 0, ly_vendor = s_vendor s, ly_out = [], ly_index = Map.empty, ly_markers = []\<rparr> (s_entries s)
      in if ly_markers ly = [] then s
         else
           let s = snd (assign_ids \<lparr>sch_new = new, sch_valid = Some is_uuid\<rparr> True (ly_next ly)
                     (s\<lparr>s_entries := ly_out ly, s_vendor := ly_vendor ly\<rparr>))
           in s\<lparr>s_entries := foldl name_marker (s_entries s) (ly_markers ly)\<rparr>)"

section \<open>Times\<close>

fun set_time :: "int \<Rightarrow> entry \<Rightarrow> entry" where
  "set_time t (Entry i p r _ c mc a k w) = Entry i p r t c mc a k w"

definition millis :: int where "millis = 1000000"

text \<open>The time of a row this write creates, after \<open>prev\<close>.\<close>

definition next_time :: "int \<Rightarrow> int \<Rightarrow> int \<Rightarrow> int \<Rightarrow> int" where
  "next_time clock updated prev t =
     (let t = (if t = 0 then updated else t);
          t = (if t = 0 then clock else t);
          t = t - t mod millis
      in if t \<le> prev then prev + millis else t)"

fun stamp_rows :: "(nat \<Rightarrow> int) \<Rightarrow> int \<Rightarrow> nat \<Rightarrow> int \<Rightarrow> entry list \<Rightarrow> entry list" where
  "stamp_rows clock updated i prev [] = []"
| "stamp_rows clock updated i prev (e # es) =
     (if \<not> created e then e # stamp_rows clock updated (Suc i) (max (e_time e) prev) es
      else let t = next_time (clock i) updated prev (e_time e)
           in set_time t e # stamp_rows clock updated (Suc i) t es)"

definition claude_prepare :: "(nat \<Rightarrow> int) \<Rightarrow> (nat \<Rightarrow> string) \<Rightarrow> claude_vendor session \<Rightarrow> claude_vendor session result" where
  "claude_prepare clock new s =
     (let s = compactions new s in Inr (s\<lparr>s_entries := stamp_rows clock (s_updated s) 0 0 (s_entries s)\<rparr>))"

section \<open>Hosted sessions\<close>

definition context_types :: "string list" where
  "context_types = [''environment'', ''model'', ''session_context'', ''date'']"

definition claude_caps :: writer_caps where
  "claude_caps = \<lparr>wc_compaction = True, wc_user_only = False, wc_files = True\<rparr>"

text \<open>The session \<open>WriteHosted\<close> hands to \<open>Write\<close>.\<close>

definition hosted_session :: "host \<Rightarrow> (nat \<Rightarrow> string) \<Rightarrow> claude_vendor session \<Rightarrow> string list \<Rightarrow> claude_vendor session" where
  "hosted_session h new s attachments =
     (let out = lower_session claude_caps (portable h s);
          out = out\<lparr>s_agent := ''claude''\<rparr>;
          v = no_vendor\<lparr>cv_hosted := True\<rparr>
      in case (if attachments = [] then None else index_of (\<lambda>e. e_role e = RoleUser) (s_entries out)) of
           None \<Rightarrow> out\<lparr>s_vendor := Some v\<rparr>
         | Some at \<Rightarrow>
             let rows = map (\<lambda>i. Entry (new i) [] RoleUser (e_time (s_entries out ! at)) [] None AudienceAll None None)
                          [0..<length attachments]
             in out\<lparr>s_vendor := Some (v\<lparr>cv_attachments := map_of (rev (zip (map new [0..<length attachments]) attachments))\<rparr>),
                    s_entries := take (Suc at) (s_entries out) @ rows @ drop (Suc at) (s_entries out)\<rparr>)"

text \<open>\<open>ContextAttachments\<close> over the lines of the file; whether a line is too long is not its concern here.\<close>

definition line_fields :: "string \<Rightarrow> (string \<times> string) option" where
  "line_fields l =
     (case struct_members l of
        None \<Rightarrow> None
      | Some ms \<Rightarrow> if strs_ok [''type''] ms then Some (str_of ''type'' ms, raw_of ''attachment'' ms) else None)"

definition attachment_type :: "string \<Rightarrow> string option" where
  "attachment_type a =
     (case struct_members a of None \<Rightarrow> None | Some ms \<Rightarrow> if strs_ok [''type''] ms then Some (str_of ''type'' ms) else None)"

fun context_attachments :: "bool \<Rightarrow> string list \<Rightarrow> string list" where
  "context_attachments prompted [] = []"
| "context_attachments prompted (l # ls) =
     (case line_fields l of
        None \<Rightarrow> context_attachments prompted ls
      | Some (t, a) \<Rightarrow>
          if t = ''user'' then (if prompted then [] else context_attachments True ls)
          else if t = ''assistant'' \<and> prompted then []
          else if t = ''attachment'' \<and> prompted \<and> (case attachment_type a of None \<Rightarrow> False | Some k \<Rightarrow> k \<in> set context_types)
            then a # context_attachments prompted ls
          else context_attachments prompted ls)"

end
