(* ===== verification/Claude_Resume.thy ===== *)
theory Claude_Resume
  imports Claude_Write
begin

text \<open>
  What Claude Code resumes with (\<open>transcript/claude/resume.go\<close>): from the rows of a session file the
  loader picks a leaf, walks to the root, brings back what a walk along single parents misses, and
  \<open>finish\<close> links the session's entries along the result.

  A row is its index in the file, and -1 is \<open>None\<close>. Go's maps from ids to rows are partial functions;
  those ranged over are ranged over by index, which changes nothing since no round of those loops
  depends on another. Walks carry the rows they passed.
\<close>

section \<open>What the loader reads of a row\<close>

record kept_segment =
  ks_head :: string
  ks_anchor :: string
  ks_tail :: string

record kept_messages =
  km_anchor :: string
  km_uuids :: "string list"

record compact_metadata =
  cp_segment :: "kept_segment option"
  cp_messages :: "kept_messages option"

record claude_meta =
  mt_type :: string
  mt_subtype :: string
  mt_uuid :: string
  mt_sidechain :: bool
  mt_timestamp :: string
  mt_is_meta :: bool
  mt_message :: "string option"               \<comment> \<open>the message's id\<close>
  mt_attachment :: "string option"            \<comment> \<open>the attachment's type\<close>
  mt_compact :: "compact_metadata option"
  mt_logical_parent :: string
  mt_summary :: bool
  mt_leaf :: string
  mt_explicit :: bool

definition no_meta :: claude_meta where
  "no_meta =
     \<lparr>mt_type = [], mt_subtype = [], mt_uuid = [], mt_sidechain = False, mt_timestamp = [], mt_is_meta = False,
      mt_message = None, mt_attachment = None, mt_compact = None, mt_logical_parent = [], mt_summary = False,
      mt_leaf = [], mt_explicit = False\<rparr>"

definition read_field :: "string \<Rightarrow> members \<Rightarrow> string option" where
  "read_field k ms = (if strs_ok [k] ms then Some (str_of k ms) else None)"

definition read_segment :: "members \<Rightarrow> kept_segment option" where
  "read_segment ms =
     (if strs_ok [''headUuid'', ''anchorUuid'', ''tailUuid''] ms
      then Some \<lparr>ks_head = str_of ''headUuid'' ms, ks_anchor = str_of ''anchorUuid'' ms, ks_tail = str_of ''tailUuid'' ms\<rparr>
      else None)"

definition conv_strs :: "json \<Rightarrow> string list option" where
  "conv_strs j =
     (case j of
        JArr js \<Rightarrow>
          if list_all (\<lambda>j. j = JNull \<or> conv_str j \<noteq> None) js
          then Some (map (\<lambda>j. case conv_str j of None \<Rightarrow> [] | Some t \<Rightarrow> t) js) else None
      | _ \<Rightarrow> None)"

definition read_kept :: "members \<Rightarrow> kept_messages option" where
  "read_kept ms =
     (let u = dec_field conv_strs ''uuids'' (parsed ms) [] in
      if strs_ok [''anchorUuid''] ms \<and> snd u then Some \<lparr>km_anchor = str_of ''anchorUuid'' ms, km_uuids = fst u\<rparr> else None)"

definition read_compact :: "members \<Rightarrow> compact_metadata option" where
  "read_compact ms =
     (case (read_opt read_segment ''preservedSegment'' ms, read_opt read_kept ''preservedMessages'' ms) of
        (Some seg, Some kept) \<Rightarrow> Some \<lparr>cp_segment = seg, cp_messages = kept\<rparr>
      | _ \<Rightarrow> None)"

definition read_meta :: "string \<Rightarrow> claude_meta option" where
  "read_meta s =
     (case struct_members s of
        None \<Rightarrow> None
      | Some ms \<Rightarrow>
          (case (read_opt (read_field ''id'') ''message'' ms, read_opt (read_field ''type'') ''attachment'' ms,
                 read_opt read_compact ''compactMetadata'' ms) of
             (Some m, Some a, Some c) \<Rightarrow>
               if strs_ok [''type'', ''subtype'', ''uuid'', ''timestamp'', ''logicalParentUuid''] ms
                  \<and> bools_ok [''isSidechain'', ''isMeta'', ''isCompactSummary'', ''explicit''] ms
               then Some \<lparr>mt_type = str_of ''type'' ms, mt_subtype = str_of ''subtype'' ms, mt_uuid = str_of ''uuid'' ms,
                          mt_sidechain = bool_of ''isSidechain'' ms, mt_timestamp = str_of ''timestamp'' ms,
                          mt_is_meta = bool_of ''isMeta'' ms, mt_message = m, mt_attachment = a, mt_compact = c,
                          mt_logical_parent = str_of ''logicalParentUuid'' ms, mt_summary = bool_of ''isCompactSummary'' ms,
                          mt_leaf = raw_of ''leafUuid'' ms, mt_explicit = bool_of ''explicit'' ms\<rparr>
               else None
           | _ \<Rightarrow> None))"

definition meta_of :: "entry \<Rightarrow> claude_meta" where
  "meta_of e = (case e_raw e of None \<Rightarrow> no_meta | Some raw \<Rightarrow> (case read_meta raw of None \<Rightarrow> no_meta | Some m \<Rightarrow> m))"

definition is_message :: "claude_meta \<Rightarrow> bool" where
  "is_message m \<longleftrightarrow> mt_type m \<in> {''user'', ''assistant'', ''attachment'', ''system''} \<and> mt_uuid m \<noteq> []"

definition conversational :: "claude_meta \<Rightarrow> bool" where
  "conversational m \<longleftrightarrow> mt_type m = ''user'' \<or> mt_type m = ''assistant''"

definition is_boundary :: "claude_meta \<Rightarrow> bool" where
  "is_boundary m \<longleftrightarrow> mt_type m = ''system'' \<and> mt_subtype m = ''compact_boundary''"

definition has_block :: "block_kind \<Rightarrow> entry \<Rightarrow> bool" where
  "has_block k e \<longleftrightarrow> list_ex (\<lambda>b. b_kind b = k) (e_content e)"

definition bookkeeping :: "claude_meta \<Rightarrow> entry \<Rightarrow> bool" where
  "bookkeeping m e \<longleftrightarrow>
     mt_type m = ''attachment'' \<or> (mt_type m = ''system'' \<and> mt_subtype m \<noteq> ''compact_boundary'')
     \<or> (mt_type m = ''user'' \<and> mt_is_meta m \<and> \<not> has_block BlockToolResult e)"

definition msg_id :: "claude_meta \<Rightarrow> string" where
  "msg_id m = (case mt_message m of None \<Rightarrow> [] | Some i \<Rightarrow> i)"

section \<open>The loader\<close>

record loader =
  ld_rows :: "claude_meta list"
  ld_entries :: "entry list"
  ld_ids :: "string \<rightharpoonup> nat"

abbreviation row_at :: "loader \<Rightarrow> nat \<Rightarrow> claude_meta" where
  "row_at l i \<equiv> ld_rows l ! i"

abbreviation parent_id :: "loader \<Rightarrow> nat \<Rightarrow> string" where
  "parent_id l i \<equiv> e_parent (ld_entries l ! i)"

text \<open>Reading a Go map at a key it does not hold gives the zero value, here row 0.\<close>

definition live_row :: "loader \<Rightarrow> nat \<Rightarrow> bool" where
  "live_row l i \<longleftrightarrow> is_message (row_at l i) \<and> (case ld_ids l (mt_uuid (row_at l i)) of None \<Rightarrow> 0 | Some j \<Rightarrow> j) = i"

text \<open>The rows the map holds.\<close>

definition held :: "loader \<Rightarrow> nat \<Rightarrow> bool" where
  "held l i \<longleftrightarrow> is_message (row_at l i) \<and> ld_ids l (mt_uuid (row_at l i)) = Some i"

definition held_rows :: "loader \<Rightarrow> nat list" where
  "held_rows l = filter (held l) [0..<length (ld_rows l)]"

definition live_rows :: "loader \<Rightarrow> nat list" where
  "live_rows l = filter (live_row l) [0..<length (ld_rows l)]"

definition parent_of :: "loader \<Rightarrow> nat \<Rightarrow> nat option" where
  "parent_of l i = (if parent_id l i = [] then None else ld_ids l (parent_id l i))"

text \<open>A row whose parent is a progress row follows that row's parent.\<close>

fun bridge_progress :: "(string \<rightharpoonup> string) \<Rightarrow> (claude_meta \<times> entry) list \<Rightarrow> entry list" where
  "bridge_progress bridge [] = []"
| "bridge_progress bridge ((m, e) # rest) =
     (if mt_type m = ''progress'' \<and> mt_uuid m \<noteq> [] then
        e # bridge_progress (bridge(mt_uuid m \<mapsto> (case bridge (e_parent e) of None \<Rightarrow> e_parent e | Some to \<Rightarrow> to))) rest
      else (if is_message m then (case bridge (e_parent e) of None \<Rightarrow> e | Some to \<Rightarrow> set_parent to e) else e)
             # bridge_progress bridge rest)"

fun index_rows :: "nat \<Rightarrow> claude_meta list \<Rightarrow> (string \<rightharpoonup> nat) \<Rightarrow> (string \<rightharpoonup> nat)" where
  "index_rows i [] ids = ids"
| "index_rows i (m # ms) ids = index_rows (Suc i) ms (if is_message m then ids(mt_uuid m \<mapsto> i) else ids)"

definition new_loader :: "entry list \<Rightarrow> loader" where
  "new_loader es =
     (let rows = map meta_of es
      in \<lparr>ld_rows = rows, ld_entries = bridge_progress Map.empty (zip rows es), ld_ids = index_rows 0 rows Map.empty\<rparr>)"

section \<open>Which leaf the file pins\<close>

record pinned =
  pn_last :: "nat option"
  pn_latest :: "nat option"
  pn_leaf :: string
  pn_explicit :: bool
  pn_cleared :: bool
  pn_any :: bool

definition fork_briefing :: "claude_meta \<Rightarrow> bool" where
  "fork_briefing m \<longleftrightarrow> mt_type m = ''attachment'' \<and> mt_attachment m = Some ''fork_briefing''"

text \<open>A pointer to a string: \<open>None\<close> when it stays nil.\<close>

definition leaf_name :: "string \<Rightarrow> string option" where
  "leaf_name raw =
     (case json_parse raw of None \<Rightarrow> None | Some JNull \<Rightarrow> None | Some (JStr t) \<Rightarrow> Some t | Some _ \<Rightarrow> Some [])"

definition scan_message :: "nat \<Rightarrow> claude_meta \<Rightarrow> pinned \<times> string \<Rightarrow> pinned \<times> string" where
  "scan_message i m pl =
     (let (p, latest) = pl;
          (p, latest) =
            (if \<not> mt_sidechain m \<and> \<not> fork_briefing m then
               (p\<lparr>pn_last := Some i, pn_latest := (if latest < mt_timestamp m then Some i else pn_latest p),
                  pn_explicit := False, pn_cleared := False\<rparr>,
                if latest < mt_timestamp m then mt_timestamp m else latest)
             else (p, latest))
      in (if is_boundary m then p\<lparr>pn_leaf := [], pn_explicit := False\<rparr> else p, latest))"

definition scan_prompt :: "claude_meta \<Rightarrow> pinned \<Rightarrow> pinned" where
  "scan_prompt m p =
     (let p = (if mt_leaf m \<noteq> [] then p\<lparr>pn_any := True\<rparr> else p) in
      case leaf_name (mt_leaf m) of
        Some i \<Rightarrow>
          if i \<noteq> [] then
            p\<lparr>pn_explicit := (mt_explicit m \<or> (pn_explicit p \<and> i = pn_leaf p)), pn_leaf := i, pn_cleared := False\<rparr>
          else p
      | None \<Rightarrow>
          if mt_leaf m = ''null'' \<and> mt_explicit m then p\<lparr>pn_cleared := True, pn_leaf := [], pn_explicit := False\<rparr> else p)"

fun scan_rows :: "nat \<Rightarrow> claude_meta list \<Rightarrow> pinned \<times> string \<Rightarrow> pinned" where
  "scan_rows i [] pl = fst pl"
| "scan_rows i (m # ms) pl =
     scan_rows (Suc i) ms
       (if is_message m then scan_message i m pl
        else if mt_type m = ''last-prompt'' then (scan_prompt m (fst pl), snd pl) else pl)"

definition scan_pins :: "claude_meta list \<Rightarrow> pinned" where
  "scan_pins rows =
     scan_rows 0 rows
       (\<lparr>pn_last = None, pn_latest = None, pn_leaf = [], pn_explicit = False, pn_cleared = False, pn_any = False\<rparr>, [])"

section \<open>Walks\<close>

text \<open>The rows of the file not yet passed, which every walk has fewer of at each step.\<close>

definition unseen :: "loader \<Rightarrow> nat list \<Rightarrow> nat" where
  "unseen l seen = length (filter (\<lambda>i. i \<notin> set seen) [0..<length (ld_rows l)])"

lemma unseen_less:
  assumes "i < length (ld_rows l)" "i \<notin> set seen"
  shows "unseen l (i # seen) < unseen l seen"
proof -
  let ?new = "filter (\<lambda>j. j \<notin> set seen) [0..<length (ld_rows l)]"
  have "filter (\<lambda>j. j \<notin> set (i # seen)) [0..<length (ld_rows l)] = removeAll i ?new"
    unfolding removeAll_filter_not_eq filter_filter by (rule filter_cong) auto
  moreover have "i \<in> set ?new" using assms by simp
  ultimately show ?thesis unfolding unseen_def by (metis length_removeAll_less)
qed

text \<open>\<open>up\<close>: the nearest user or assistant row, and \<open>descends\<close>.\<close>

function up_from :: "loader \<Rightarrow> nat list \<Rightarrow> nat \<Rightarrow> nat option" where
  "up_from l seen i =
     (if i < length (ld_rows l) \<and> i \<notin> set seen then
        if conversational (row_at l i) then Some i
        else (case parent_of l i of None \<Rightarrow> None | Some j \<Rightarrow> up_from l (i # seen) j)
      else None)"
  by pat_completeness auto
termination by (relation "measure (\<lambda>(l, seen, i). unseen l seen)") (simp_all add: unseen_less)

function descends_from :: "loader \<Rightarrow> nat \<Rightarrow> nat list \<Rightarrow> nat \<Rightarrow> bool" where
  "descends_from l a seen i =
     (if i < length (ld_rows l) \<and> i \<notin> set seen then
        i = a \<or> (case parent_of l i of None \<Rightarrow> False | Some j \<Rightarrow> descends_from l a (i # seen) j)
      else False)"
  by pat_completeness auto
termination by (relation "measure (\<lambda>(l, a, seen, i). unseen l seen)") (simp_all add: unseen_less)

declare up_from.simps [simp del] descends_from.simps [simp del]

definition descends :: "loader \<Rightarrow> nat \<Rightarrow> nat \<Rightarrow> bool" where
  "descends l i a = descends_from l a [] i"

definition gap_window :: int where "gap_window = 5 * nanos"

text \<open>Of the rows written at most five seconds before, the closest, and of those the first.\<close>

definition closest_before :: "loader \<Rightarrow> nat \<Rightarrow> nat list \<Rightarrow> nat option" where
  "closest_before l i seen =
     (let at = e_time (ld_entries l ! i);
          gap = (\<lambda>j. at - e_time (ld_entries l ! j));
          fits = filter (\<lambda>j. j \<notin> set seen \<and> e_time (ld_entries l ! j) \<noteq> 0
                   \<and> mt_sidechain (row_at l j) = mt_sidechain (row_at l i) \<and> 0 \<le> gap j \<and> gap j \<le> gap_window) (held_rows l)
      in if at = 0 then None
         else find (\<lambda>j. list_all (\<lambda>k. gap j \<le> gap k) fits) fits)"

text \<open>\<open>chain\<close>, leaf first.\<close>

definition parent_or_gap :: "loader \<Rightarrow> nat list \<Rightarrow> nat \<Rightarrow> nat option" where
  "parent_or_gap l seen i =
     (if parent_id l i = [] then None
      else case ld_ids l (parent_id l i) of
             None \<Rightarrow> closest_before l i seen
           | Some j \<Rightarrow> if j \<in> set seen then closest_before l i seen else Some j)"

function walk :: "loader \<Rightarrow> nat list \<Rightarrow> nat \<Rightarrow> nat list" where
  "walk l seen i =
     (if i < length (ld_rows l) \<and> i \<notin> set seen
      then i # (case parent_or_gap l (i # seen) i of None \<Rightarrow> [] | Some j \<Rightarrow> walk l (i # seen) j)
      else [])"
  by pat_completeness auto
termination by (relation "measure (\<lambda>(l, seen, i). unseen l seen)") (simp_all add: unseen_less)

declare walk.simps [simp del]

definition chain_to :: "loader \<Rightarrow> nat \<Rightarrow> nat list" where
  "chain_to l i = rev (walk l [] i)"

section \<open>What a compaction kept and retired\<close>

definition holds_id :: "loader \<Rightarrow> string \<Rightarrow> bool" where
  "holds_id l i \<longleftrightarrow> i \<noteq> [] \<and> ld_ids l i \<noteq> None"

definition set_parents :: "(nat \<Rightarrow> string option) \<Rightarrow> loader \<Rightarrow> loader" where
  "set_parents f l =
     l\<lparr>ld_entries := map (\<lambda>i. case f i of None \<Rightarrow> ld_entries l ! i | Some p \<Rightarrow> set_parent p (ld_entries l ! i))
        [0..<length (ld_entries l)]\<rparr>"

text \<open>The segment from tail up to head, head first; \<open>None\<close> when the walk does not reach the head.\<close>

function segment_from :: "loader \<Rightarrow> string \<Rightarrow> nat list \<Rightarrow> nat \<Rightarrow> string list option" where
  "segment_from l head seen i =
     (if i < length (ld_rows l) \<and> i \<notin> set seen then
        let u = mt_uuid (row_at l i) in
        if u = head then Some [u]
        else (case parent_of l i of
                None \<Rightarrow> None
              | Some j \<Rightarrow> map_option (\<lambda>us. us @ [u]) (segment_from l head (i # seen) j))
      else None)"
  by pat_completeness auto
termination by (relation "measure (\<lambda>(l, head, seen, i). unseen l seen)") (simp_all add: unseen_less)

declare segment_from.simps [simp del]

definition last_boundary :: "loader \<Rightarrow> nat option" where
  "last_boundary l =
     (case filter (\<lambda>i. is_boundary (row_at l i)) (live_rows l) of [] \<Rightarrow> None | bs \<Rightarrow> Some (last bs))"

text \<open>The last live boundary that kept something, with what it says it kept.\<close>

definition keeping_boundary :: "loader \<Rightarrow> (nat \<times> compact_metadata) option" where
  "keeping_boundary l =
     (case List.map_filter
             (\<lambda>i. case mt_compact (row_at l i) of
                    None \<Rightarrow> None
                  | Some m \<Rightarrow> if cp_messages m \<noteq> None \<or> cp_segment m \<noteq> None then Some (i, m) else None)
             (filter (\<lambda>i. is_boundary (row_at l i)) (live_rows l)) of
        [] \<Rightarrow> None | bs \<Rightarrow> Some (last bs))"

text \<open>The anchor and the ids kept; \<open>None\<close> when the file is left as it is.\<close>

definition kept_rows :: "loader \<Rightarrow> compact_metadata \<Rightarrow> (string \<times> string list) option" where
  "kept_rows l m =
     (case (case (cp_messages m, cp_segment m) of
              (Some km, _) \<Rightarrow> Some (km_anchor km, km_uuids km)
            | (None, Some ks) \<Rightarrow>
                (case ld_ids l (ks_tail ks) of
                   None \<Rightarrow> None
                 | Some i \<Rightarrow> map_option (\<lambda>us. (ks_anchor ks, us)) (segment_from l (ks_head ks) [] i))
            | (None, None) \<Rightarrow> None) of
        None \<Rightarrow> None
      | Some (anchor, us) \<Rightarrow> if list_all (holds_id l) us then Some (anchor, us) else None)"

fun chain_kept :: "string \<Rightarrow> string list \<Rightarrow> loader \<Rightarrow> loader" where
  "chain_kept prev [] l = l"
| "chain_kept prev (u # us) l =
     chain_kept u us (set_parents (\<lambda>i. if ld_ids l u = Some i then Some prev else None) l)"

definition splice_kept :: "string \<Rightarrow> string list \<Rightarrow> loader \<Rightarrow> loader" where
  "splice_kept anchor us l =
     (if us = [] then l
      else let l = chain_kept anchor us l in
        set_parents (\<lambda>i. if held l i \<and> parent_id l i = anchor \<and> mt_uuid (row_at l i) \<noteq> hd us then Some (last us) else None) l)"

definition prune :: "nat \<Rightarrow> string list \<Rightarrow> loader \<Rightarrow> loader \<times> string list" where
  "prune bound us l =
     (let gone = filter (\<lambda>i. i < bound \<and> mt_uuid (row_at l i) \<notin> set us) (held_rows l);
          ids = map (\<lambda>i. mt_uuid (row_at l i)) gone
      in (l\<lparr>ld_ids := (\<lambda>u. if u \<in> set ids then None else ld_ids l u)\<rparr>, ids))"

text \<open>\<open>relinkPreserved\<close>, with the id of the last kept row, empty when nothing was kept.\<close>

definition relink_preserved :: "loader \<Rightarrow> string \<times> loader" where
  "relink_preserved l =
     (case (keeping_boundary l, last_boundary l) of
        (Some (at, m), Some final) \<Rightarrow>
          (case (if at = final then kept_rows l m else Some ([], [])) of
             None \<Rightarrow> ([], l)
           | Some (anchor, us) \<Rightarrow>
               let (l, gone) = prune final us (splice_kept anchor us l) in
               if us = [] then ([], l)
               else (last us,
                     set_parents (\<lambda>i. if held l i \<and> conversational (row_at l i) \<and> parent_id l i \<in> set gone
                                       then Some (last us) else None) l))
      | _ \<Rightarrow> ([], l))"

section \<open>The leaf\<close>

definition latest_descendant :: "loader \<Rightarrow> nat \<Rightarrow> nat" where
  "latest_descendant l i =
     fst (foldl (\<lambda>(best, ts) j.
           if j = i \<or> mt_sidechain (row_at l j) \<or> mt_timestamp (row_at l j) < ts \<or> \<not> descends l j i then (best, ts)
           else (j, mt_timestamp (row_at l j))) (i, []) (live_rows l))"

text \<open>The dead ends of the tree.\<close>

definition dead_ends :: "loader \<Rightarrow> nat list" where
  "dead_ends l =
     (let parents = map (parent_id l) (live_rows l);
          turns = map (parent_id l) (filter (\<lambda>i. conversational (row_at l i)) (live_rows l));
          ends = List.map_filter (up_from l []) (filter (\<lambda>i. mt_uuid (row_at l i) \<notin> set parents) (live_rows l))
      in rev (remdups (rev (filter (\<lambda>j. mt_uuid (row_at l j) \<notin> set turns) ends))))"

definition pinned_leaf :: "loader \<Rightarrow> pinned \<Rightarrow> nat option" where
  "pinned_leaf l p = (if holds_id l (pn_leaf p) then ld_ids l (pn_leaf p) else None)"

text \<open>The row the first choice starts from.\<close>

definition first_choice :: "loader \<Rightarrow> pinned \<Rightarrow> bool \<Rightarrow> nat option" where
  "first_choice l p kept =
     (let pin = pinned_leaf l p;
          start = (case (pn_last p, pn_latest p) of
                     (Some i, Some j) \<Rightarrow> if \<not> pn_any p \<and> j \<noteq> i then Some (latest_descendant l i) else Some i
                   | (i, _) \<Rightarrow> i);
          from = (case (pin, pn_last p) of
                    (Some i, Some j) \<Rightarrow> if \<not> pn_explicit p \<and> j \<noteq> i \<and> descends l j i then Some j else Some i
                  | (i, _) \<Rightarrow> i)
      in if \<not> kept \<and> from = None then start else from)"

definition first_leaf :: "loader \<Rightarrow> pinned \<Rightarrow> string \<Rightarrow> nat option" where
  "first_leaf l p kept =
     (let pin_ok = (pn_explicit p \<and> (case pinned_leaf l p of None \<Rightarrow> False | Some i \<Rightarrow> \<not> mt_sidechain (row_at l i)))
      in if kept = [] \<or> pin_ok then Option.bind (first_choice l p (kept \<noteq> [])) (up_from l []) else None)"

definition pinned_or_last :: "loader \<Rightarrow> pinned \<Rightarrow> nat list \<Rightarrow> nat option" where
  "pinned_or_last l p leaves =
     (case pinned_leaf l p of None \<Rightarrow> pn_last p | Some i \<Rightarrow> if i \<in> set leaves then Some i else pn_last p)"

definition latest_of :: "loader \<Rightarrow> nat list \<Rightarrow> nat" where
  "latest_of l leaves =
     foldl (\<lambda>best i. if mt_timestamp (row_at l best) < mt_timestamp (row_at l i) then i else best) (hd leaves) (tl leaves)"

definition leaf_row :: "loader \<Rightarrow> pinned \<Rightarrow> string \<Rightarrow> nat option" where
  "leaf_row l p kept =
     (case first_leaf l p kept of
        Some i \<Rightarrow> Some i
      | None \<Rightarrow>
          (case dead_ends l of
             [] \<Rightarrow> None
           | [i] \<Rightarrow> Some i
           | leaves \<Rightarrow>
               (case Option.bind (pinned_or_last l p leaves) (up_from l []) of
                  Some i \<Rightarrow> Some i
                | None \<Rightarrow> Some (latest_of l leaves))))"

section \<open>Parallel tool calls\<close>

definition children :: "loader \<Rightarrow> string \<Rightarrow> nat list" where
  "children l u = (if u = [] then [] else filter (\<lambda>i. parent_id l i = u) (live_rows l))"

definition members_of :: "loader \<Rightarrow> string \<Rightarrow> nat list" where
  "members_of l i = filter (\<lambda>k. mt_type (row_at l k) = ''assistant'' \<and> msg_id (row_at l k) = i) (live_rows l)"

definition results_of :: "loader \<Rightarrow> string \<Rightarrow> nat list" where
  "results_of l u =
     filter (\<lambda>k. mt_type (row_at l k) = ''user'' \<and> has_block BlockToolResult (ld_entries l ! k)) (children l u)"

text \<open>
  The run of bookkeeping rows hanging from one: empty when it branches or holds anything else. A row
  has one parent, so no row comes twice.
\<close>

function run_from :: "loader \<Rightarrow> bool \<Rightarrow> nat list \<Rightarrow> nat list \<Rightarrow> nat \<Rightarrow> nat list" where
  "run_from l side seen run c =
     (if c < length (ld_rows l) \<and> c \<notin> set run then
        if c \<in> set seen \<or> mt_sidechain (row_at l c) \<noteq> side \<or> \<not> bookkeeping (row_at l c) (ld_entries l ! c) then []
        else (case filter (\<lambda>k. k \<notin> set seen) (children l (mt_uuid (row_at l c))) of
                [] \<Rightarrow> rev (c # run)
              | [k] \<Rightarrow> run_from l side seen (c # run) k
              | _ \<Rightarrow> [])
      else [])"
  by pat_completeness auto
termination by (relation "measure (\<lambda>(l, side, seen, run, c). unseen l run)") (simp_all add: unseen_less)

declare run_from.simps [simp del]

fun tails_from :: "loader \<Rightarrow> bool \<Rightarrow> nat list \<Rightarrow> nat list \<Rightarrow> nat list" where
  "tails_from l side seen [] = []"
| "tails_from l side seen (c # cs) =
     (let run = run_from l side seen [] c in run @ tails_from l side (run @ seen) cs)"

definition tails :: "loader \<Rightarrow> nat list \<Rightarrow> nat \<Rightarrow> nat list" where
  "tails l seen i = tails_from l (mt_sidechain (row_at l i)) seen (children l (mt_uuid (row_at l i)))"

fun tails_all :: "loader \<Rightarrow> nat list \<Rightarrow> nat list \<Rightarrow> nat list" where
  "tails_all l seen [] = []"
| "tails_all l seen (i # is) = (let t = tails l seen i in t @ tails_all l (t @ seen) is)"

text \<open>The bookkeeping rows of the chain inside a window, each with what dangles off it.\<close>

fun dangling :: "loader \<Rightarrow> nat list \<Rightarrow> nat list \<Rightarrow> (nat \<times> nat list) list" where
  "dangling l seen [] = []"
| "dangling l seen (w # ws) =
     (let t = (if bookkeeping (row_at l w) (ld_entries l ! w) then tails l seen w else [])
      in (if t = [] then [] else [(w, t)]) @ dangling l (t @ seen) ws)"

record window =
  wn_start :: nat
  wn_end :: nat
  wn_recovered :: "nat list"
  wn_after :: "(nat \<times> nat list) list"

definition continues_turn :: "loader \<Rightarrow> string \<Rightarrow> nat \<Rightarrow> bool" where
  "continues_turn l i k \<longleftrightarrow>
     (let m = row_at l k in
      if mt_type m = ''assistant'' then msg_id m = i
      else if mt_type m = ''user'' then mt_is_meta m \<or> has_block BlockToolResult (ld_entries l ! k)
      else mt_type m = ''attachment'' \<or> (mt_type m = ''system'' \<and> \<not> is_boundary m))"

definition fresh :: "nat list \<Rightarrow> nat list \<Rightarrow> nat list" where
  "fresh seen xs = filter (\<lambda>x. x \<notin> set seen) xs"

text \<open>The window of the message at position \<open>k\<close> of the chain, and the rows passed with it.\<close>

definition window_at :: "loader \<Rightarrow> nat list \<Rightarrow> nat list \<Rightarrow> nat \<Rightarrow> window \<times> nat list" where
  "window_at l chain seen k =
     (let i = msg_id (row_at l (chain ! k));
          ms = members_of l i;
          results = concat (map (\<lambda>m. results_of l (mt_uuid (row_at l m))) ms);
          found = fresh seen ms @ fresh seen results;
          seen = found @ seen;
          places = List.map_filter (\<lambda>m. index_of (\<lambda>c. c = m) chain) ms;
          reach = Max (set (Suc k # map Suc places));
          end' = reach + length (takeWhile (continues_turn l i) (drop reach chain));
          calls = list_ex (\<lambda>m. has_block BlockToolUse (ld_entries l ! m)) ms;
          dangle = (if calls then tails_all l seen (ms @ filter (\<lambda>t. t \<in> set seen) results) else []);
          seen = dangle @ seen;
          after = (if calls then dangling l seen (drop (Suc k) (take end' chain)) else [])
      in (\<lparr>wn_start = k, wn_end = end', wn_recovered = sort (found @ dangle), wn_after = after\<rparr>,
          concat (map snd after) @ seen))"

fun windows :: "loader \<Rightarrow> nat list \<Rightarrow> nat list \<Rightarrow> string list \<Rightarrow> nat list \<Rightarrow> window list" where
  "windows l chain seen don [] = []"
| "windows l chain seen don (k # ks) =
     (let m = row_at l (chain ! k) in
      if mt_type m \<noteq> ''assistant'' \<or> msg_id m = [] \<or> msg_id m \<in> set don then windows l chain seen don ks
      else let (w, seen) = window_at l chain seen k
           in (if wn_recovered w = [] \<and> wn_after w = [] then [] else [w]) @ windows l chain seen (msg_id m # don) ks)"

text \<open>Overlapping windows become one.\<close>

fun merge_windows :: "window \<Rightarrow> window list \<Rightarrow> window list" where
  "merge_windows p [] = [p]"
| "merge_windows p (w # ws) =
     (if wn_start w < wn_end p then
        merge_windows (p\<lparr>wn_end := max (wn_end p) (wn_end w), wn_recovered := sort (wn_recovered p @ wn_recovered w),
                         wn_after := wn_after p @ wn_after w\<rparr>) ws
      else p # merge_windows w ws)"

definition hung :: "(nat \<times> nat list) list \<Rightarrow> nat \<Rightarrow> nat list" where
  "hung after c = concat (map snd (filter (\<lambda>a. fst a = c) after))"

fun weave :: "(nat \<times> nat list) list \<Rightarrow> nat list \<Rightarrow> nat list \<Rightarrow> nat list" where
  "weave after rec [] = rec"
| "weave after rec (c # cs) =
     takeWhile (\<lambda>r. r < c) rec @ c # hung after c @ weave after (dropWhile (\<lambda>r. r < c) rec) cs"

fun fill_windows :: "nat list \<Rightarrow> nat \<Rightarrow> window list \<Rightarrow> nat list" where
  "fill_windows chain nxt [] = drop nxt chain"
| "fill_windows chain nxt (w # ws) =
     drop nxt (take (Suc (wn_start w)) chain)
     @ weave (wn_after w) (wn_recovered w) (drop (Suc (wn_start w)) (take (wn_end w) chain))
     @ fill_windows chain (wn_end w) ws"

definition recover_parallel :: "loader \<Rightarrow> nat list \<Rightarrow> nat list" where
  "recover_parallel l chain =
     (case windows l chain chain [] [0..<length chain] of
        [] \<Rightarrow> chain
      | w # ws \<Rightarrow> fill_windows chain 0 (merge_windows w ws))"

section \<open>History a compaction retired\<close>

definition retired_end :: "loader \<Rightarrow> nat \<Rightarrow> nat option" where
  "retired_end l b =
     (let m = row_at l b in
      case (if mt_logical_parent m = [] then None else ld_ids l (mt_logical_parent m)) of
        Some i \<Rightarrow> Some i
      | None \<Rightarrow> (case mt_compact m of
                  None \<Rightarrow> None
                | Some c \<Rightarrow> (case cp_segment c of None \<Rightarrow> None | Some ks \<Rightarrow> ld_ids l (ks_tail ks))))"

function retired_from :: "loader \<Rightarrow> nat list \<Rightarrow> nat \<Rightarrow> nat list" where
  "retired_from l seen at =
     (if at < length (ld_rows l) \<and> at \<notin> set seen then
        (case retired_end l at of
           None \<Rightarrow> []
         | Some from \<Rightarrow>
             let walk = recover_parallel l (chain_to l from) in
             (if walk \<noteq> [] \<and> is_boundary (row_at l (hd walk)) then retired_from l (at # seen) (hd walk) else []) @ walk)
      else [])"
  by pat_completeness auto
termination by (relation "measure (\<lambda>(l, seen, at). unseen l seen)") (simp_all add: unseen_less)

declare retired_from.simps [simp del]

definition retired_rows :: "loader \<Rightarrow> nat list" where
  "retired_rows l = (case last_boundary l of None \<Rightarrow> [] | Some b \<Rightarrow> retired_from l [] b)"

definition behind :: "nat list \<Rightarrow> nat list \<Rightarrow> nat list" where
  "behind old chain = rev (remdups (rev (filter (\<lambda>i. i \<notin> set chain) old))) @ chain"

section \<open>What trails the leaf\<close>

text \<open>Breadth first through rows other than messages.\<close>

definition side_rows :: "loader \<Rightarrow> string \<Rightarrow> nat list" where
  "side_rows l u = filter (\<lambda>i. \<not> conversational (row_at l i)) (children l u)"

fun take_new :: "nat list \<Rightarrow> nat list \<Rightarrow> nat list" where
  "take_new seen [] = []"
| "take_new seen (c # cs) = (if c \<in> set seen then take_new seen cs else c # take_new (c # seen) cs)"

lemma take_new_set: "set (take_new seen cs) = set cs - set seen" "distinct (take_new seen cs)"
  by (induction cs arbitrary: seen) auto

lemma unseen_mono:
  assumes "set seen \<subseteq> set seen'"
  shows "unseen l seen' \<le> unseen l seen"
proof -
  have "filter (\<lambda>i. i \<notin> set seen') [0..<length (ld_rows l)]
      = filter (\<lambda>i. i \<notin> set seen') (filter (\<lambda>i. i \<notin> set seen) [0..<length (ld_rows l)])"
    unfolding filter_filter using assms by (intro filter_cong) auto
  then show ?thesis unfolding unseen_def by (metis length_filter_le)
qed

lemma children_bound: "i \<in> set (children l u) \<Longrightarrow> i < length (ld_rows l)"
  by (auto simp: children_def live_rows_def split: if_splits)

lemma unseen_take_new:
  assumes "take_new seen (side_rows l u) \<noteq> []"
  shows "unseen l (take_new seen (side_rows l u) @ seen) < unseen l seen"
proof -
  obtain c cs where c: "take_new seen (side_rows l u) = c # cs" using assms by (cases "take_new seen (side_rows l u)") auto
  then have "c \<in> set (side_rows l u) - set seen" using take_new_set(1) [of seen "side_rows l u"] by auto
  then have "c < length (ld_rows l)" "c \<notin> set seen" using children_bound [of c l u] by (auto simp: side_rows_def)
  then have "unseen l (c # seen) < unseen l seen" by (rule unseen_less)
  moreover have "unseen l ((c # cs) @ seen) \<le> unseen l (c # seen)" by (rule unseen_mono) auto
  ultimately show ?thesis unfolding c by simp
qed

function trail :: "loader \<Rightarrow> nat list \<Rightarrow> string list \<Rightarrow> nat list" where
  "trail l seen [] = []"
| "trail l seen (u # us) =
     (let found = take_new seen (side_rows l u)
      in found @ trail l (found @ seen) (us @ map (\<lambda>c. mt_uuid (row_at l c)) found))"
  by pat_completeness auto
termination
proof (relation "measures [\<lambda>(l, seen, us). unseen l seen, \<lambda>(l, seen, us). length us]")
  fix l seen u us found
  assume "found = take_new seen (side_rows l u)"
  then show "((l, found @ seen, us @ map (\<lambda>c. mt_uuid (row_at l c)) found), l, seen, u # us)
      \<in> measures [\<lambda>(l, seen, us). unseen l seen, \<lambda>(l, seen, us). length us]"
    using unseen_take_new [of seen l u] by (cases "found = []") simp_all
qed simp

definition trailing :: "loader \<Rightarrow> nat \<Rightarrow> nat list \<Rightarrow> nat list" where
  "trailing l leaf chain =
     chain @ sort_key (\<lambda>i. mt_timestamp (row_at l i)) (trail l chain [mt_uuid (row_at l leaf)])"

section \<open>Finishing a session\<close>

definition link_chain :: "nat list \<Rightarrow> entry list \<Rightarrow> entry list" where
  "link_chain chain es =
     foldl (\<lambda>es k. es[chain ! k := set_parent (if k = 0 then [] else e_id (es ! (chain ! (k - 1)))) (es ! (chain ! k))])
       es [0..<length chain]"

text \<open>The messages of the API call so far, the latest first: an assistant's row and message id, or the person's turn.\<close>

record api_message =
  am_row :: "nat option"
  am_id :: string
  am_result :: bool

fun merge_target :: "string \<Rightarrow> api_message list \<Rightarrow> nat option" where
  "merge_target i [] = None"
| "merge_target i (m # ms) =
     (if i = [] then None
      else case am_row m of
             None \<Rightarrow> if am_result m then merge_target i ms else None
           | Some at \<Rightarrow> if am_id m = i then Some at else merge_target i ms)"

fun merge_split :: "claude_meta list \<Rightarrow> api_message list \<Rightarrow> nat list \<Rightarrow> entry list \<Rightarrow> entry list" where
  "merge_split rows out [] es = es"
| "merge_split rows out (i # is) es =
     (let e = es ! i in
      if e_role e = RoleOpaque \<or> \<not> for_model (e_audience e) then merge_split rows out is es
      else if e_role e \<noteq> RoleAssistant then
        let res = has_block BlockToolResult e in
        merge_split rows
          (case out of
             m # ms \<Rightarrow> if am_row m = None then m\<lparr>am_result := am_result m \<or> res\<rparr> # ms
                       else \<lparr>am_row = None, am_id = [], am_result = res\<rparr> # m # ms
           | [] \<Rightarrow> [\<lparr>am_row = None, am_id = [], am_result = res\<rparr>]) is es
      else
        (case merge_target (msg_id (rows ! i)) out of
           Some at \<Rightarrow>
             merge_split rows out is
               ((es[at := set_content (e_content (es ! at) @ e_content e) (es ! at)])[i := set_role RoleOpaque (set_content [] e)])
         | None \<Rightarrow>
             merge_split rows (\<lparr>am_row = Some i, am_id = msg_id (rows ! i), am_result = False\<rparr> # out) is es))"

definition summary_entry :: "entry \<Rightarrow> entry" where
  "summary_entry e =
     (let sum = set_audience AudienceAll (set_raw None e) in
      case cut_prefix (entry_text sum) summary_intro of
        None \<Rightarrow> sum
      | Some t \<Rightarrow>
          set_content [(empty_block BlockText)\<lparr>b_text := trim_suffix t kept_note\<rparr>] (set_model_content (Some (e_content sum)) sum))"

fun mark_summaries :: "claude_meta list \<Rightarrow> nat list \<Rightarrow> entry list \<Rightarrow> entry list" where
  "mark_summaries rows [] es = es"
| "mark_summaries rows (i # is) es =
     (if \<not> is_boundary (rows ! i) then mark_summaries rows is es
      else
        (case find (\<lambda>j. conversational (rows ! j)) is of
           None \<Rightarrow> mark_summaries rows is (es[i := set_compaction (Some (Compaction [] [])) (es ! i)])
         | Some j \<Rightarrow>
             if mt_summary (rows ! j) then
               mark_summaries rows is
                 ((es[i := set_compaction (Some (Compaction [summary_entry (es ! j)] [])) (es ! i)])
                    [j := set_audience AudienceNone (es ! j)])
             else mark_summaries rows is (es[i := set_compaction (Some (Compaction [] [])) (es ! i)])))"

text \<open>The chain \<open>finish\<close> links, \<open>None\<close> when there is no leaf.\<close>

definition resumed_chain :: "loader \<Rightarrow> pinned \<Rightarrow> loader \<times> nat list option" where
  "resumed_chain l p =
     (let old = retired_rows l; boundary = last_boundary l; (kept, l) = relink_preserved l in
      (l, case leaf_row l p kept of
            None \<Rightarrow> None
          | Some leaf \<Rightarrow>
              let chain = trailing l leaf (recover_parallel l (chain_to l leaf))
              in Some (if Some (hd chain) = boundary then behind old chain else chain)))"

definition claude_finish :: "claude_vendor session \<Rightarrow> claude_vendor session result" where
  "claude_finish s =
     (let l = new_loader (s_entries s); p = scan_pins (ld_rows l) in
      if pn_cleared p then Inr (s\<lparr>s_entries := ld_entries l, s_restart := True\<rparr>)
      else
        (case resumed_chain l p of
           (l, None) \<Rightarrow> Inr (s\<lparr>s_entries := ld_entries l\<rparr>)
         | (l, Some chain) \<Rightarrow>
             let es = link_chain chain (ld_entries l)
             in Inr (s\<lparr>s_leaf := e_id (es ! last chain),
                       s_entries := mark_summaries (ld_rows l) chain (merge_split (ld_rows l) [] chain es)\<rparr>)))"

end
