(* ===== verification/Claude_Chain.thy ===== *)
theory Claude_Chain
  imports Claude_Resume "HOL-Library.Multiset"
begin

text \<open>
  What \<open>finish\<close> computes is a branch: no row comes twice on the chain it links, whatever the file holds,
  so the session's own reading of its links (\<open>Branch\<close>) is that chain.

  The chain is counted as a multiset: the rows the windows bring back are new to it, each once.
\<close>

section \<open>Rows\<close>

definition loader_ok :: "loader \<Rightarrow> bool" where
  "loader_ok l \<longleftrightarrow>
     (\<forall>u i. ld_ids l u = Some i \<longrightarrow> i < length (ld_rows l) \<and> is_message (row_at l i) \<and> mt_uuid (row_at l i) = u)"

definition message_row :: "loader \<Rightarrow> nat \<Rightarrow> bool" where
  "message_row l i \<longleftrightarrow> i < length (ld_rows l) \<and> is_message (row_at l i)"

lemma loader_okD: "loader_ok l \<Longrightarrow> ld_ids l u = Some i \<Longrightarrow> message_row l i \<and> mt_uuid (row_at l i) = u"
  by (simp add: loader_ok_def message_row_def)

lemma live_rows_iff [simp]: "i \<in> set (live_rows l) \<longleftrightarrow> i < length (ld_rows l) \<and> live_row l i"
  by (simp add: live_rows_def)

lemma held_rows_iff [simp]: "i \<in> set (held_rows l) \<longleftrightarrow> i < length (ld_rows l) \<and> held l i"
  by (simp add: held_rows_def)

lemma held_live: "held l i \<Longrightarrow> live_row l i"
  by (simp add: held_def live_row_def)

lemma live_rows_distinct [simp]: "distinct (live_rows l)"
  by (simp add: live_rows_def)

lemma live_message: "live_row l i \<Longrightarrow> i < length (ld_rows l) \<Longrightarrow> message_row l i"
  by (simp add: live_row_def message_row_def)

lemma live_uuid: "live_row l i \<Longrightarrow> live_row l j \<Longrightarrow> mt_uuid (row_at l i) = mt_uuid (row_at l j) \<Longrightarrow> i = j"
  by (simp add: live_row_def)

lemma children_live: "i \<in> set (children l u) \<Longrightarrow> i < length (ld_rows l) \<and> live_row l i \<and> parent_id l i = u"
  by (auto simp: children_def split: if_splits)

lemma children_parent: "i \<in> set (children l u) \<Longrightarrow> i \<in> set (children l u') \<Longrightarrow> u = u'"
  by (auto dest!: children_live)

lemma children_distinct [simp]: "distinct (children l u)"
  by (simp add: children_def)

lemma parent_of_message: "loader_ok l \<Longrightarrow> parent_of l i = Some j \<Longrightarrow> message_row l j"
  by (auto simp: parent_of_def loader_okD split: if_splits)

section \<open>Walks\<close>

lemma closest_live: "closest_before l i seen = Some j \<Longrightarrow> j \<notin> set seen \<and> j < length (ld_rows l) \<and> live_row l j"
  by (auto simp: closest_before_def Let_def split: if_splits dest!: find_SomeD intro: held_live)

lemma parent_or_gap_message: "loader_ok l \<Longrightarrow> parent_or_gap l seen i = Some j \<Longrightarrow> message_row l j"
  by (auto simp: parent_or_gap_def loader_okD live_message dest: closest_live split: if_splits option.splits)

lemma walk_facts:
  "loader_ok l \<Longrightarrow> message_row l i \<Longrightarrow> distinct (walk l seen i) \<and> set (walk l seen i) \<inter> set seen = {} \<and> list_all (message_row l) (walk l seen i)"
proof (induction l seen i rule: walk.induct)
  case (1 l seen i)
  note unfold = walk.simps [of l seen i]
  show ?case
  proof (cases "i < length (ld_rows l) \<and> i \<notin> set seen")
    case False
    then show ?thesis unfolding unfold by auto
  next
    case here: True
    show ?thesis
    proof (cases "parent_or_gap l (i # seen) i")
      case None
      then show ?thesis unfolding unfold using here "1.prems" by simp
    next
      case (Some j)
      from "1.IH" [OF here Some "1.prems"(1) parent_or_gap_message [OF "1.prems"(1) Some]] "1.prems"
      show ?thesis unfolding unfold using here Some by auto
    qed
  qed
qed

lemma chain_to_facts:
  assumes "loader_ok l" "message_row l i"
  shows "distinct (chain_to l i)" "list_all (message_row l) (chain_to l i)" "chain_to l i \<noteq> []"
proof -
  have "walk l [] i \<noteq> []" using assms(2) by (simp add: walk.simps [of l "[]" i] message_row_def)
  with walk_facts [OF assms(1,2), of "[]"]
  show "distinct (chain_to l i)" "list_all (message_row l) (chain_to l i)" "chain_to l i \<noteq> []"
    by (simp_all add: chain_to_def list_all_iff)
qed

lemma up_from_message: "loader_ok l \<Longrightarrow> message_row l i \<Longrightarrow> up_from l seen i = Some j \<Longrightarrow> message_row l j"
proof (induction l seen i rule: up_from.induct)
  case (1 l seen i)
  then show ?case
    using parent_of_message [OF "1.prems"(1), of i]
    by (auto simp: up_from.simps [of l seen i] split: if_splits option.splits)
qed

section \<open>Rows off the chain\<close>

text \<open>New to what was seen, each once, and live.\<close>

definition new_rows :: "loader \<Rightarrow> nat list \<Rightarrow> nat list \<Rightarrow> bool" where
  "new_rows l seen xs \<longleftrightarrow> distinct xs \<and> set xs \<inter> set seen = {} \<and> list_all (message_row l) xs"

lemma new_rows_Nil [simp]: "new_rows l seen []"
  by (simp add: new_rows_def)

lemma new_rows_append: "new_rows l seen xs \<Longrightarrow> new_rows l (xs @ seen) ys \<Longrightarrow> new_rows l seen (xs @ ys)"
  by (auto simp: new_rows_def)

lemma new_rows_cong: "set seen = set seen' \<Longrightarrow> new_rows l seen xs = new_rows l seen' xs"
  by (simp add: new_rows_def)

lemma run_from_facts:
  "live_row l c \<Longrightarrow> list_all (message_row l) run \<Longrightarrow> distinct run \<Longrightarrow> set run \<inter> set seen = {} \<Longrightarrow>
   new_rows l seen (run_from l side seen run c)"
proof (induction l side seen run c rule: run_from.induct)
  case (1 l side seen run c)
  note unfold = run_from.simps [of l side seen run c]
  let ?next = "filter (\<lambda>k. k \<notin> set seen) (children l (mt_uuid (row_at l c)))"
  show ?case
  proof (cases "c < length (ld_rows l) \<and> c \<notin> set run \<and> c \<notin> set seen \<and> mt_sidechain (row_at l c) = side
      \<and> bookkeeping (row_at l c) (ld_entries l ! c)")
    case False
    then show ?thesis unfolding unfold by auto
  next
    case here: True
    have run: "list_all (message_row l) (c # run)" "distinct (c # run)" "set (c # run) \<inter> set seen = {}"
      using here "1.prems" live_message by auto
    show ?thesis
    proof (cases ?next)
      case Nil
      then show ?thesis unfolding unfold using here run by (auto simp: new_rows_def list_all_iff)
    next
      case (Cons k ks)
      then have "k \<in> set ?next" by simp
      then have k: "live_row l k" using children_live by auto
      show ?thesis
      proof (cases ks)
        case Nil
        have "new_rows l seen (run_from l side seen (c # run) k)"
          by (rule "1.IH") (use here Cons Nil k run in simp_all)
        then show ?thesis unfolding unfold using here Cons Nil by simp
      next
        case (Cons k' ks')
        then show ?thesis unfolding unfold using here \<open>?next = k # ks\<close> by simp
      qed
    qed
  qed
qed

lemma tails_from_facts: "list_all (live_row l) cs \<Longrightarrow> new_rows l seen (tails_from l side seen cs)"
proof (induction cs arbitrary: seen)
  case (Cons c cs)
  then show ?case
    by (simp add: Let_def new_rows_append run_from_facts)
qed simp

lemma tails_facts: "new_rows l seen (tails l seen i)"
  unfolding tails_def by (rule tails_from_facts) (simp add: list_all_iff children_live)

lemma tails_all_facts: "new_rows l seen (tails_all l seen is)"
  by (induction "is" arbitrary: seen) (simp_all add: Let_def new_rows_append tails_facts)

lemma dangling_facts: "new_rows l seen (concat (map snd (dangling l seen ws))) \<and> set (map fst (dangling l seen ws)) \<subseteq> set ws"
proof (induction ws arbitrary: seen)
  case (Cons w ws)
  define t where "t = (if bookkeeping (row_at l w) (ld_entries l ! w) then tails l seen w else [])"
  have step: "dangling l seen (w # ws) = (if t = [] then [] else [(w, t)]) @ dangling l (t @ seen) ws"
    by (simp add: t_def Let_def)
  have "new_rows l seen t" by (simp add: t_def tails_facts)
  from new_rows_append [OF this] Cons.IH [of "t @ seen"] show ?case
    unfolding step by (cases "t = []") auto
qed simp

lemma results_disjoint:
  assumes "distinct ms" "list_all (live_row l) ms"
  shows "distinct (concat (map (\<lambda>m. results_of l (mt_uuid (row_at l m))) ms))"
  using assms
proof (induction ms)
  case (Cons m ms)
  have "set (results_of l (mt_uuid (row_at l m))) \<inter> set (results_of l (mt_uuid (row_at l m'))) = {}" if "m' \<in> set ms" for m'
  proof -
    have "mt_uuid (row_at l m) \<noteq> mt_uuid (row_at l m')"
      using Cons.prems that live_uuid [of l m m'] by (auto simp: list_all_iff)
    then show ?thesis using children_parent [of _ l] by (auto simp: results_of_def)
  qed
  with Cons show ?case by (auto simp: results_of_def)
qed simp

lemma found_facts:
  assumes "ms = members_of l i" "results = concat (map (\<lambda>m. results_of l (mt_uuid (row_at l m))) ms)"
  shows "new_rows l seen (fresh seen ms @ fresh seen results)"
proof -
  have ms: "distinct ms" "list_all (live_row l) ms" "\<forall>m \<in> set ms. m < length (ld_rows l) \<and> mt_type (row_at l m) = ''assistant''"
    by (simp_all add: assms(1) members_of_def list_all_iff)
  have "distinct results" unfolding assms(2) by (rule results_disjoint [OF ms(1,2)])
  moreover have rs: "\<forall>t \<in> set results. t < length (ld_rows l) \<and> live_row l t \<and> mt_type (row_at l t) = ''user''"
    by (auto simp: assms(2) results_of_def dest: children_live)
  ultimately show ?thesis
    using ms by (auto simp: new_rows_def fresh_def list_all_iff live_message)
qed

section \<open>Windows\<close>

text \<open>The rows a window brings in.\<close>

definition brought :: "window \<Rightarrow> nat list" where
  "brought w = wn_recovered w @ concat (map snd (wn_after w))"

definition window_ok :: "nat list \<Rightarrow> window \<Rightarrow> bool" where
  "window_ok chain w \<longleftrightarrow>
     wn_start w < wn_end w \<and> wn_end w \<le> length chain
     \<and> set (map fst (wn_after w)) \<subseteq> set (drop (Suc (wn_start w)) (take (wn_end w) chain))"

lemma new_rows_perm: "mset xs = mset ys \<Longrightarrow> new_rows l seen xs = new_rows l seen ys"
  using mset_eq_imp_distinct_iff [of xs ys] set_mset_mset [of xs] set_mset_mset [of ys]
  by (simp add: new_rows_def list_all_iff)

lemma window_at_facts:
  assumes "k < length chain" "window_at l chain seen k = (w, seen')"
  shows "new_rows l seen (brought w)" "set seen' = set (brought w) \<union> set seen" "window_ok chain w" "wn_start w = k"
proof -
  define i where "i = msg_id (row_at l (chain ! k))"
  define ms where "ms = members_of l i"
  define results where "results = concat (map (\<lambda>m. results_of l (mt_uuid (row_at l m))) ms)"
  define found where "found = fresh seen ms @ fresh seen results"
  define places where "places = List.map_filter (\<lambda>m. index_of (\<lambda>c. c = m) chain) ms"
  define reach where "reach = Max (set (Suc k # map Suc places))"
  define stop where "stop = reach + length (takeWhile (continues_turn l i) (drop reach chain))"
  define calls where "calls = list_ex (\<lambda>m. has_block BlockToolUse (ld_entries l ! m)) ms"
  define dangle where "dangle = (if calls then tails_all l (found @ seen) (ms @ filter (\<lambda>t. t \<in> set (found @ seen)) results) else [])"
  define after where "after = (if calls then dangling l (dangle @ found @ seen) (drop (Suc k) (take stop chain)) else [])"
  have w: "w = \<lparr>wn_start = k, wn_end = stop, wn_recovered = sort (found @ dangle), wn_after = after\<rparr>"
    and seen': "seen' = concat (map snd after) @ dangle @ found @ seen"
    using assms(2) unfolding window_at_def Let_def i_def [symmetric] ms_def [symmetric] results_def [symmetric]
      found_def [symmetric] places_def [symmetric] reach_def [symmetric] stop_def [symmetric] calls_def [symmetric]
      dangle_def [symmetric] after_def [symmetric] by auto
  have "new_rows l seen found" unfolding found_def by (rule found_facts [OF ms_def results_def])
  moreover have "new_rows l (found @ seen) dangle" by (simp add: dangle_def tails_all_facts)
  ultimately have fd: "new_rows l seen (found @ dangle)" by (rule new_rows_append)
  have an: "new_rows l (dangle @ found @ seen) (concat (map snd after))"
    and keys: "set (map fst after) \<subseteq> set (drop (Suc k) (take stop chain))"
    using dangling_facts [of l "dangle @ found @ seen" "drop (Suc k) (take stop chain)"]
    by (cases calls; simp add: after_def)+
  have "new_rows l ((found @ dangle) @ seen) (concat (map snd after))"
    using an by (subst new_rows_cong [of _ "dangle @ found @ seen"]) auto
  with fd have "new_rows l seen ((found @ dangle) @ concat (map snd after))" by (rule new_rows_append)
  then show "new_rows l seen (brought w)"
    by (rule new_rows_perm [THEN iffD1, rotated]) (simp add: brought_def w)
  show "set seen' = set (brought w) \<union> set seen" by (auto simp: seen' brought_def w)
  have "p < length chain" if "p \<in> set places" for p
    using that by (auto simp: places_def List.map_filter_def index_of_Some dest!: find_SomeD)
  then have "reach \<le> length chain" using assms(1) by (auto simp: reach_def Suc_le_eq)
  moreover have "k < reach" unfolding reach_def by (rule Suc_le_lessD, rule Max_ge) simp_all
  ultimately have "k < stop" "stop \<le> length chain"
    using length_takeWhile_le [of "continues_turn l i" "drop reach chain"] by (auto simp: stop_def)
  with keys show "window_ok chain w" by (simp add: window_ok_def w)
  show "wn_start w = k" by (simp add: w)
qed

lemma windows_facts:
  "list_all (\<lambda>k. k < length chain) ks \<Longrightarrow> sorted_wrt (<) ks \<Longrightarrow>
   new_rows l seen (concat (map brought (windows l chain seen don ks))) \<and> list_all (window_ok chain) (windows l chain seen don ks)
   \<and> sorted_wrt (<) (map wn_start (windows l chain seen don ks)) \<and> set (map wn_start (windows l chain seen don ks)) \<subseteq> set ks"
proof (induction ks arbitrary: seen don)
  case (Cons k ks)
  show ?case
  proof (cases "mt_type (row_at l (chain ! k)) \<noteq> ''assistant'' \<or> msg_id (row_at l (chain ! k)) = [] \<or> msg_id (row_at l (chain ! k)) \<in> set don")
    case True
    with Cons show ?thesis by (auto simp: Let_def)
  next
    case False
    obtain w seen' where w: "window_at l chain seen k = (w, seen')" by fastforce
    have k: "k < length chain" using Cons.prems by simp
    note f = window_at_facts [OF k w]
    let ?rest = "windows l chain seen' (msg_id (row_at l (chain ! k)) # don) ks"
    from Cons.IH [of seen' "msg_id (row_at l (chain ! k)) # don"] Cons.prems have rest:
      "new_rows l seen' (concat (map brought ?rest))" "list_all (window_ok chain) ?rest"
      "sorted_wrt (<) (map wn_start ?rest)" "set (map wn_start ?rest) \<subseteq> set ks" by simp_all
    have "new_rows l (brought w @ seen) (concat (map brought ?rest))"
      using rest(1) new_rows_cong [of seen' "brought w @ seen"] f(2) by simp
    then have new: "new_rows l seen (brought w @ concat (map brought ?rest))" by (rule new_rows_append [OF f(1)])
    have step: "windows l chain seen don (k # ks) = (if wn_recovered w = [] \<and> wn_after w = [] then [] else [w]) @ ?rest"
      using False w by (simp add: Let_def)
    have empty: "wn_recovered w = [] \<and> wn_after w = [] \<Longrightarrow> brought w = []" by (simp add: brought_def)
    have "k < j" if "j \<in> set ks" for j using Cons.prems(2) that by simp
    then show ?thesis
      using new rest f(3,4) empty unfolding step by (cases "wn_recovered w = [] \<and> wn_after w = []") auto
  qed
qed simp

text \<open>Windows in order, not overlapping, from a position on.\<close>

fun windows_ordered :: "nat list \<Rightarrow> nat \<Rightarrow> window list \<Rightarrow> bool" where
  "windows_ordered chain nxt [] = True"
| "windows_ordered chain nxt (w # ws) \<longleftrightarrow> nxt \<le> wn_start w \<and> window_ok chain w \<and> windows_ordered chain (wn_end w) ws"

lemma windows_ordered_from: "windows_ordered chain nxt ws \<Longrightarrow> nxt' \<le> nxt \<Longrightarrow> windows_ordered chain nxt' ws"
  by (cases ws) auto

lemma merge_windows_facts:
  "window_ok chain p \<Longrightarrow> list_all (window_ok chain) ws \<Longrightarrow> sorted_wrt (<) (wn_start p # map wn_start ws) \<Longrightarrow>
   windows_ordered chain (wn_start p) (merge_windows p ws)
   \<and> mset (concat (map brought (merge_windows p ws))) = mset (brought p @ concat (map brought ws))"
proof (induction p ws rule: merge_windows.induct)
  case (2 p w ws)
  show ?case
  proof (cases "wn_start w < wn_end p")
    case True
    define q where "q = p\<lparr>wn_end := max (wn_end p) (wn_end w), wn_recovered := sort (wn_recovered p @ wn_recovered w),
                         wn_after := wn_after p @ wn_after w\<rparr>"
    let ?seg = "\<lambda>w. set (drop (Suc (wn_start w)) (take (wn_end w) chain))"
    have sub: "set (drop (Suc a) (take b chain)) \<subseteq> set (drop (Suc a') (take b' chain))" if "a' \<le> a" "b \<le> b'" for a b a' b'
    proof -
      have "take b chain = take b (take b' chain)" using that(2) by (simp add: min_def)
      then have "drop (Suc a) (take b chain) = drop (a - a') (drop (Suc a') (take b (take b' chain)))" using that(1) by simp
      then show ?thesis by (metis drop_take in_set_dropD in_set_takeD subsetI)
    qed
    have "window_ok chain q"
      using "2.prems" True sub [of "wn_start p" "wn_start p" "wn_end p" "max (wn_end p) (wn_end w)"]
        sub [of "wn_start p" "wn_start w" "wn_end w" "max (wn_end p) (wn_end w)"]
      by (auto simp: window_ok_def q_def)
    moreover have "wn_start q = wn_start p" "mset (brought q) = mset (brought p @ brought w)"
      by (simp_all add: q_def brought_def)
    ultimately show ?thesis
      using "2.IH"(1) [OF True] "2.prems" True by (simp add: q_def [symmetric])
  next
    case False
    with "2.IH"(2) [OF False] "2.prems" show ?thesis
      using windows_ordered_from [of chain "wn_start w" "merge_windows w ws" "wn_end p"] by simp
  qed
qed simp

section \<open>Weaving the windows in\<close>

lemma hung_all:
  "distinct seg \<Longrightarrow> set (map fst after) \<subseteq> set seg \<Longrightarrow>
   mset (concat (map (hung after) seg)) = mset (concat (map snd after))"
proof (induction after)
  case Nil
  then show ?case by (induction seg) (simp_all add: hung_def)
next
  case (Cons a after)
  have "mset (concat (map (hung (a # after)) seg)) = (if fst a \<in> set seg then mset (snd a) else {#}) + mset (concat (map (hung after) seg))"
    using Cons.prems(1)
    by (induction seg) (auto simp: hung_def)
  with Cons show ?case by simp
qed

lemma weave_mset: "mset (weave after rec seg) = mset rec + mset seg + mset (concat (map (hung after) seg))"
proof (induction after rec seg rule: weave.induct)
  case (2 after rec c cs)
  have "mset rec = mset (takeWhile (\<lambda>r. r < c) rec) + mset (dropWhile (\<lambda>r. r < c) rec)"
    by (metis mset_append takeWhile_dropWhile_id)
  with 2 show ?case by simp
qed simp

lemma fill_windows_mset:
  "distinct chain \<Longrightarrow> windows_ordered chain nxt ws \<Longrightarrow>
   mset (fill_windows chain nxt ws) = mset (drop nxt chain) + mset (concat (map brought ws))"
proof (induction chain nxt ws rule: fill_windows.induct)
  case (2 chain nxt w ws)
  let ?a = "Suc (wn_start w)" and ?b = "wn_end w"
  let ?seg = "drop ?a (take ?b chain)"
  have w: "nxt \<le> wn_start w" "window_ok chain w" "windows_ordered chain ?b ws" using "2.prems" by simp_all
  have "drop nxt chain = drop nxt (take ?a chain) @ ?seg @ drop ?b chain"
  proof -
    have "drop nxt (take ?b chain) = drop nxt (take ?a (take ?b chain)) @ drop ?a (take ?b chain)"
      using w(1) by (metis append_take_drop_id drop_append drop_drop drop_take le_SucI le_add_diff_inverse2 take_drop)
    moreover have "take ?a (take ?b chain) = take ?a chain" using w(2) by (simp add: window_ok_def min_def)
    moreover have "drop nxt chain = drop nxt (take ?b chain) @ drop ?b chain"
      using w(1,2) by (metis append_take_drop_id drop_append diff_is_0_eq' drop_0 length_take less_imp_le_nat min_def nat_le_linear order_trans window_ok_def)
    ultimately show ?thesis by simp
  qed
  moreover have "mset (concat (map (hung (wn_after w)) ?seg)) = mset (concat (map snd (wn_after w)))"
    using "2.prems"(1) w(2) by (intro hung_all) (simp_all add: window_ok_def)
  ultimately show ?case
    using "2.IH" [OF "2.prems"(1) w(3)] by (simp add: weave_mset brought_def)
qed simp

lemma recover_parallel_mset:
  assumes "distinct chain"
  shows "mset (recover_parallel l chain) = mset (chain @ concat (map brought (windows l chain chain [] [0..<length chain])))"
proof -
  let ?ws = "windows l chain chain [] [0..<length chain]"
  have ws: "list_all (window_ok chain) ?ws" "sorted_wrt (<) (map wn_start ?ws)"
    using windows_facts [of chain "[0..<length chain]" l chain "[]"] by (simp_all add: list_all_iff)
  show ?thesis
  proof (cases ?ws)
    case Nil
    then show ?thesis by (simp add: recover_parallel_def)
  next
    case (Cons w ws')
    from merge_windows_facts [of chain w ws'] ws Cons
    have m: "windows_ordered chain 0 (merge_windows w ws')" "mset (concat (map brought (merge_windows w ws'))) = mset (concat (map brought ?ws))"
      using windows_ordered_from [of chain "wn_start w" "merge_windows w ws'" 0] by simp_all
    show ?thesis using fill_windows_mset [OF assms m(1)] m(2) by (simp add: recover_parallel_def Cons)
  qed
qed

lemma recover_parallel_facts:
  assumes "distinct chain"
  shows "\<exists>xs. mset (recover_parallel l chain) = mset (chain @ xs) \<and> new_rows l chain xs"
  using recover_parallel_mset [OF assms, of l] windows_facts [of chain "[0..<length chain]" l chain "[]"]
  by (auto simp: list_all_iff)

lemma recover_parallel_rows:
  assumes "distinct chain" "list_all (message_row l) chain"
  shows "distinct (recover_parallel l chain)" "list_all (message_row l) (recover_parallel l chain)"
    "set chain \<subseteq> set (recover_parallel l chain)"
proof -
  obtain xs where xs: "mset (recover_parallel l chain) = mset (chain @ xs)" "new_rows l chain xs"
    using recover_parallel_facts [OF assms(1)] by blast
  then have "distinct (chain @ xs)" using assms(1) by (auto simp: new_rows_def)
  then show "distinct (recover_parallel l chain)" using mset_eq_imp_distinct_iff [OF xs(1)] by simp
  have "set (recover_parallel l chain) = set (chain @ xs)" using xs(1) by (metis set_mset_mset)
  then show "list_all (message_row l) (recover_parallel l chain)" "set chain \<subseteq> set (recover_parallel l chain)"
    using assms(2) xs(2) by (auto simp: new_rows_def list_all_iff)
qed

section \<open>The chain\<close>

lemma trail_facts: "new_rows l seen (trail l seen us)"
proof (induction l seen us rule: trail.induct)
  case (2 l seen u us)
  let ?found = "take_new seen (side_rows l u)"
  have "list_all (message_row l) ?found"
    using take_new_set(1) [of seen "side_rows l u"] children_live [of _ l u] live_message [of l]
    by (auto simp: list_all_iff side_rows_def)
  then have "new_rows l seen ?found" using take_new_set [of seen "side_rows l u"] by (auto simp: new_rows_def)
  from new_rows_append [OF this "2.IH" [OF refl]] show ?case by (simp add: Let_def)
qed simp

lemma trailing_rows:
  assumes "distinct chain" "list_all (message_row l) chain"
  shows "distinct (trailing l leaf chain)" "list_all (message_row l) (trailing l leaf chain)" "set chain \<subseteq> set (trailing l leaf chain)"
  using trail_facts [of l chain "[mt_uuid (row_at l leaf)]"] assms
  by (auto simp: trailing_def new_rows_def list_all_iff)

lemma retired_from_rows: "loader_ok l \<Longrightarrow> list_all (message_row l) (retired_from l seen at)"
proof (induction l seen at rule: retired_from.induct)
  case (1 l seen at)
  note unfold = retired_from.simps [of l seen at]
  show ?case
  proof (cases "at < length (ld_rows l) \<and> at \<notin> set seen")
    case here: True
    show ?thesis
    proof (cases "retired_end l at")
      case (Some start)
      have "message_row l start"
        using Some "1.prems" loader_okD [of l] by (auto simp: retired_end_def Let_def split: if_splits option.splits)
      from chain_to_facts [OF "1.prems" this]
      have walk: "list_all (message_row l) (recover_parallel l (chain_to l start))"
        by (intro recover_parallel_rows(2))
      show ?thesis
        unfolding unfold using "1.IH" [OF here Some refl] walk here Some "1.prems" by (simp add: Let_def)
    qed (unfold unfold, use here in simp)
  qed (unfold unfold, auto)
qed

lemma behind_rows:
  assumes "distinct chain" "list_all (message_row l) chain" "list_all (message_row l) old"
  shows "distinct (behind old chain)" "list_all (message_row l) (behind old chain)" "set chain \<subseteq> set (behind old chain)"
  using assms by (auto simp: behind_def list_all_iff)

lemma set_parents_sel [simp]:
  "ld_rows (set_parents f l) = ld_rows l" "ld_ids (set_parents f l) = ld_ids l"
  "length (ld_entries (set_parents f l)) = length (ld_entries l)"
  by (simp_all add: set_parents_def)

lemma set_parents_ids: "map e_id (ld_entries (set_parents f l)) = map e_id (ld_entries l)"
  "map e_raw (ld_entries (set_parents f l)) = map e_raw (ld_entries l)"
  by (auto simp: set_parents_def intro!: nth_equalityI split: option.split)

text \<open>What relinking keeps of the loader.\<close>

definition same_rows :: "loader \<Rightarrow> loader \<Rightarrow> bool" where
  "same_rows l l' \<longleftrightarrow>
     ld_rows l' = ld_rows l \<and> map e_id (ld_entries l') = map e_id (ld_entries l) \<and> map e_raw (ld_entries l') = map e_raw (ld_entries l)
     \<and> (\<forall>u i. ld_ids l' u = Some i \<longrightarrow> ld_ids l u = Some i)"

lemma same_rows_trans: "same_rows l l' \<Longrightarrow> same_rows l' l'' \<Longrightarrow> same_rows l l''"
  by (simp add: same_rows_def)

lemma same_rows_refl [simp]: "same_rows l l"
  by (simp add: same_rows_def)

lemma set_parents_same: "same_rows l (set_parents f l)"
  by (simp add: same_rows_def set_parents_ids)

lemma chain_kept_same: "same_rows l (chain_kept prev us l)"
proof (induction us arbitrary: prev l)
  case (Cons u us)
  show ?case using same_rows_trans [OF set_parents_same Cons.IH] by simp
qed simp

lemma splice_kept_same: "same_rows l (splice_kept anchor us l)"
  by (auto simp: splice_kept_def Let_def intro: same_rows_trans [OF chain_kept_same set_parents_same])

lemma prune_same: "same_rows l (fst (prune bound us l))"
  by (simp add: prune_def Let_def same_rows_def)

lemma relink_same: "same_rows l (snd (relink_preserved l))"
proof (cases "keeping_boundary l")
  case (Some am)
  obtain at m where am: "am = (at, m)" by (cases am)
  show ?thesis
  proof (cases "last_boundary l")
    case (Some final)
    show ?thesis
    proof (cases "if at = final then kept_rows l m else Some ([], [])")
      case None
      then show ?thesis using Some am \<open>keeping_boundary l = Some am\<close> by (simp add: relink_preserved_def)
    next
      case kept: (Some ku)
      obtain anchor us where ku: "ku = (anchor, us)" by (cases ku)
      obtain l' gone where p: "prune final us (splice_kept anchor us l) = (l', gone)" by fastforce
      have "same_rows l l'" using same_rows_trans [OF splice_kept_same prune_same] p by (metis fst_conv)
      then have "same_rows l (set_parents f l')" for f by (rule same_rows_trans [OF _ set_parents_same])
      then show ?thesis
        using \<open>same_rows l l'\<close> kept ku p Some am \<open>keeping_boundary l = Some am\<close>
        by (simp add: relink_preserved_def Let_def)
    qed
  qed (simp add: relink_preserved_def Some am)
qed (simp add: relink_preserved_def)

lemma same_rows_ok: "loader_ok l \<Longrightarrow> same_rows l l' \<Longrightarrow> loader_ok l'"
  unfolding loader_ok_def same_rows_def by metis

lemma same_rows_message: "same_rows l l' \<Longrightarrow> message_row l' = message_row l"
  by (simp add: same_rows_def message_row_def fun_eq_iff)

section \<open>The leaf\<close>

lemma index_rows_Some:
  "index_rows i ms ids u = Some j \<Longrightarrow>
   ids u = Some j \<or> (i \<le> j \<and> j < i + length ms \<and> is_message (ms ! (j - i)) \<and> mt_uuid (ms ! (j - i)) = u)"
proof (induction i ms ids rule: index_rows.induct)
  case (2 i m ms ids)
  let ?ids = "if is_message m then ids(mt_uuid m \<mapsto> i) else ids"
  from "2.IH" "2.prems" consider "?ids u = Some j"
    | "Suc i \<le> j \<and> j < Suc i + length ms \<and> is_message (ms ! (j - Suc i)) \<and> mt_uuid (ms ! (j - Suc i)) = u"
    by fastforce
  then show ?case
  proof cases
    case 1
    then show ?thesis by (auto split: if_splits)
  next
    case 2
    then have "j - i = Suc (j - Suc i)" by arith
    with 2 show ?thesis by auto
  qed
qed simp

lemma bridge_length: "length (bridge_progress b mes) = length mes"
proof (induction mes arbitrary: b)
  case (Cons me mes)
  then show ?case by (cases me) simp
qed simp

lemma bridge_keeps:
  "map e_id (bridge_progress b mes) = map (\<lambda>me. e_id (snd me)) mes
   \<and> map e_raw (bridge_progress b mes) = map (\<lambda>me. e_raw (snd me)) mes"
proof (induction mes arbitrary: b)
  case (Cons me mes)
  then show ?case by (cases me) (auto split: option.split)
qed simp

lemma new_loader_facts:
  "loader_ok (new_loader es)" "ld_rows (new_loader es) = map meta_of es"
  "map e_id (ld_entries (new_loader es)) = map e_id es" "map e_raw (ld_entries (new_loader es)) = map e_raw es"
proof -
  show "loader_ok (new_loader es)"
    by (auto simp: loader_ok_def new_loader_def Let_def dest!: index_rows_Some)
  show "ld_rows (new_loader es) = map meta_of es" by (simp add: new_loader_def Let_def)
  have "map (\<lambda>me. f (snd me)) (zip (map meta_of es) es) = map f es" for f :: "entry \<Rightarrow> 'c"
    by (induction es) simp_all
  then show "map e_id (ld_entries (new_loader es)) = map e_id es" "map e_raw (ld_entries (new_loader es)) = map e_raw es"
    by (simp_all add: new_loader_def Let_def bridge_keeps)
qed

lemma scan_last:
  "(case pn_last (fst pl) of None \<Rightarrow> True | Some j \<Rightarrow> j < length rows \<and> is_message (rows ! j)) \<Longrightarrow> ms = drop i rows \<Longrightarrow>
   case pn_last (scan_rows i ms pl) of None \<Rightarrow> True | Some j \<Rightarrow> j < length rows \<and> is_message (rows ! j)"
proof (induction i ms pl rule: scan_rows.induct)
  case (2 i m ms pl)
  have m: "i < length rows" "rows ! i = m" "ms = drop (Suc i) rows"
    using "2.prems"(2) by (metis drop_eq_Nil list.distinct(1) not_le_imp_less, metis nth_via_drop, metis drop_Suc list.sel(3) tl_drop)
  let ?next = "if is_message m then scan_message i m pl else if mt_type m = ''last-prompt'' then (scan_prompt m (fst pl), snd pl) else pl"
  have "pn_last (fst ?next) = pn_last (fst pl) \<or> (is_message m \<and> pn_last (fst ?next) = Some i)"
    by (cases pl) (auto simp: scan_message_def scan_prompt_def Let_def split: option.split)
  then have "case pn_last (fst ?next) of None \<Rightarrow> True | Some j \<Rightarrow> j < length rows \<and> is_message (rows ! j)"
    using "2.prems"(1) m(1,2) by auto
  from "2.IH" [OF this m(3)] show ?case by simp
qed simp

lemma scan_pins_last: "pn_last (scan_pins (ld_rows l)) = Some j \<Longrightarrow> message_row l j"
proof -
  have "case pn_last (scan_pins (ld_rows l)) of None \<Rightarrow> True | Some j \<Rightarrow> j < length (ld_rows l) \<and> is_message (ld_rows l ! j)"
    unfolding scan_pins_def by (rule scan_last) simp_all
  then show "pn_last (scan_pins (ld_rows l)) = Some j \<Longrightarrow> ?thesis" by (simp add: message_row_def)
qed

lemma latest_descendant_message: "message_row l i \<Longrightarrow> message_row l (latest_descendant l i)"
proof -
  assume i: "message_row l i"
  have "message_row l (fst (foldl (\<lambda>(best, ts) j. if P j ts then (best, ts) else (j, f j)) (b, t) js))"
    if "message_row l b" "list_all (message_row l) js" for P :: "nat \<Rightarrow> string \<Rightarrow> bool" and f b t js
    using that by (induction js arbitrary: b t) auto
  from this [of i "live_rows l" "\<lambda>j ts. j = i \<or> mt_sidechain (row_at l j) \<or> mt_timestamp (row_at l j) < ts \<or> \<not> descends l j i"] i
  show ?thesis unfolding latest_descendant_def by (simp add: list_all_iff live_message)
qed

lemma first_choice_message:
  assumes "loader_ok l" "\<And>j. pn_last p = Some j \<Longrightarrow> message_row l j" "first_choice l p kept = Some i"
  shows "message_row l i"
  using assms latest_descendant_message [of l] loader_okD [of l]
  by (auto simp: first_choice_def pinned_leaf_def Let_def split: if_splits option.splits)

lemma dead_ends_message: "loader_ok l \<Longrightarrow> list_all (message_row l) (dead_ends l)"
proof -
  assume "loader_ok l"
  from up_from_message [OF this live_message] show ?thesis
    by (auto simp: dead_ends_def Let_def list_all_iff List.map_filter_def)
qed

lemma foldl_pick: "list_all P (b # xs) \<Longrightarrow> P (foldl (\<lambda>best i. if Q best i then i else best) b xs)"
  by (induction xs arbitrary: b) auto

lemma leaf_row_message:
  assumes "loader_ok l" "\<And>j. pn_last p = Some j \<Longrightarrow> message_row l j" "leaf_row l p kept = Some i"
  shows "message_row l i"
proof -
  have f: "first_leaf l p kept = Some j \<Longrightarrow> message_row l j" for j
    using up_from_message [OF assms(1) first_choice_message [OF assms(1,2)]]
    by (auto simp: first_leaf_def bind_eq_Some_conv Let_def split: if_splits)
  have leaves: "list_all (message_row l) (dead_ends l)" by (rule dead_ends_message [OF assms(1)])
  have "pinned_leaf l p = Some j \<Longrightarrow> message_row l j" for j
    using loader_okD [OF assms(1)] by (auto simp: pinned_leaf_def split: if_splits)
  then have g: "pinned_or_last l p ls = Some j \<Longrightarrow> message_row l j" for ls j
    using assms(2) by (auto simp: pinned_or_last_def split: option.splits if_splits)
  have h: "Option.bind (pinned_or_last l p ls) (up_from l []) = Some j \<Longrightarrow> message_row l j" for ls j
    using up_from_message [OF assms(1) g] by (auto simp: bind_eq_Some_conv)
  have k: "message_row l (latest_of l ls)" if "list_all (message_row l) ls" "ls \<noteq> []" for ls
    unfolding latest_of_def by (rule foldl_pick) (use that in \<open>cases ls; simp\<close>)
  show ?thesis
  proof (cases "first_leaf l p kept")
    case (Some j)
    then show ?thesis using assms(3) f by (simp add: leaf_row_def)
  next
    case None
    show ?thesis
    proof (cases "dead_ends l" rule: remdups_adj.cases)
      case 1
      then show ?thesis using assms(3) None by (simp add: leaf_row_def)
    next
      case (2 x)
      then show ?thesis using assms(3) None leaves by (simp add: leaf_row_def)
    next
      case (3 x y xs)
      then show ?thesis
        using assms(3) None leaves h [of "dead_ends l"] k [of "dead_ends l"] by (auto simp: leaf_row_def split: option.splits)
    qed
  qed
qed

lemma resumed_chain_facts:
  assumes "loader_ok l" "resumed_chain l p = (l', c)" "\<And>j. pn_last p = Some j \<Longrightarrow> message_row l j"
  shows "same_rows l l'" "c = Some chain \<Longrightarrow> distinct chain \<and> list_all (message_row l) chain \<and> chain \<noteq> []"
proof -
  obtain kept where k: "relink_preserved l = (kept, l')"
    using assms(2) by (auto simp: resumed_chain_def Let_def split: prod.splits)
  show same: "same_rows l l'" using relink_same [of l] k by simp
  have ok: "loader_ok l'" by (rule same_rows_ok [OF assms(1) same])
  have mr: "message_row l' = message_row l" by (rule same_rows_message [OF same])
  assume c: "c = Some chain"
  then obtain leaf where leaf: "leaf_row l' p kept = Some leaf"
    and chain: "chain = (let chain = trailing l' leaf (recover_parallel l' (chain_to l' leaf))
       in if Some (hd chain) = last_boundary l then behind (retired_rows l) chain else chain)"
    using assms(2) k by (auto simp: resumed_chain_def Let_def split: option.splits)
  have "message_row l' leaf" by (rule leaf_row_message [OF ok _ leaf]) (simp add: mr assms(3))
  note ct = chain_to_facts [OF ok this]
  note rp = recover_parallel_rows [OF ct(1,2)]
  note tr = trailing_rows [OF rp(1,2), of leaf]
  let ?t = "trailing l' leaf (recover_parallel l' (chain_to l' leaf))"
  have ne: "?t \<noteq> []" using ct(3) rp(3) tr(3) by auto
  have "list_all (message_row l) (retired_rows l)"
    using retired_from_rows [OF assms(1)] by (simp add: retired_rows_def split: option.split)
  with behind_rows [of ?t l "retired_rows l"] tr ne show "distinct chain \<and> list_all (message_row l) chain \<and> chain \<noteq> []"
    by (auto simp: chain Let_def mr behind_def)
qed

end
