(* ===== verification/Claude_Finish.thy ===== *)
theory Claude_Finish
  imports Claude_Chain
begin

text \<open>
  What \<open>finish\<close> leaves (\<open>transcript/claude/resume.go\<close>): the session's rows with the chain linked through
  them, so that its branch is that chain, and the messages Claude splits over rows put together.
\<close>

section \<open>Entries updated in place\<close>

lemma map_update_same: "g x = g (xs ! i) \<Longrightarrow> map g (xs[i := x]) = map g xs"
  by (cases "i < length xs") (simp_all add: map_update list_update_same_conv list_update_beyond)

lemma map_nth_cong: "map g xs = map g ys \<Longrightarrow> i < length xs \<Longrightarrow> g (xs ! i) = g (ys ! i)"
  by (metis length_map nth_map)

lemma distinct_filter_nth:
  assumes "distinct (filter P xs)" "i < length xs" "j < length xs" "xs ! i = xs ! j" "P (xs ! i)"
  shows "i = j"
  using assms
proof (induction xs arbitrary: i j)
  case (Cons x xs)
  then show ?case by (cases i; cases j) (auto split: if_splits)
qed simp

lemma scan_lookup_named:
  assumes "distinct (filter (\<lambda>k. k \<noteq> []) (map e_id es))" "i < length es" "e_id (es ! i) \<noteq> []"
  shows "sc_by_id (scan_session es) (e_id (es ! i)) = Some i"
proof (cases "sc_by_id (scan_session es) (e_id (es ! i))")
  case None
  with assms(2,3) show ?thesis by (auto simp: scan_session_def scan_by_id_None)
next
  case (Some j)
  with scan_names [of es] have "j < length es" "e_id (es ! j) = e_id (es ! i)" by (auto simp: names_entries_def)
  with assms distinct_filter_nth [OF assms(1), of j i] Some show ?thesis by simp
qed

section \<open>The chain as links\<close>

definition linked :: "entry list \<Rightarrow> nat list \<Rightarrow> bool" where
  "linked es chain \<longleftrightarrow>
     (\<forall>k < length chain. chain ! k < length es \<and> e_id (es ! (chain ! k)) \<noteq> []
        \<and> e_parent (es ! (chain ! k)) = (if k = 0 then [] else e_id (es ! (chain ! (k - 1)))))"

lemma chain_of_linked:
  assumes "linked es chain" "distinct chain" "distinct (filter (\<lambda>k. k \<noteq> []) (map e_id es))"
    and "k < length chain" "\<forall>j \<le> k. e_id (es ! (chain ! j)) \<notin> set seen"
  shows "chain_from es (sc_by_id (scan_session es)) seen (chain ! k) = rev (take (Suc k) chain)"
  using assms(4,5)
proof (induction k arbitrary: seen)
  case 0
  then show ?case using assms(1) by (simp add: linked_def chain_step take_Suc_conv_app_nth)
next
  case (Suc k)
  from Suc.prems(1) have at: "chain ! Suc k < length es" "chain ! k < length es" "e_id (es ! (chain ! k)) \<noteq> []"
    "e_parent (es ! (chain ! Suc k)) = e_id (es ! (chain ! k))"
    using assms(1) by (simp_all add: linked_def)
  have "e_id (es ! (chain ! j)) \<noteq> e_id (es ! (chain ! Suc k))" if "j \<le> k" for j
  proof
    assume same: "e_id (es ! (chain ! j)) = e_id (es ! (chain ! Suc k))"
    have "j < length chain" using that Suc.prems(1) by simp
    then have "chain ! j < length es" "e_id (es ! (chain ! j)) \<noteq> []" using assms(1) by (simp_all add: linked_def)
    with distinct_filter_nth [OF assms(3), of "chain ! j" "chain ! Suc k"] at(1) same
    have "chain ! j = chain ! Suc k" by simp
    with nth_eq_iff_index_eq [OF assms(2), of j "Suc k"] that Suc.prems(1) show False by simp
  qed
  then have "chain_from es (sc_by_id (scan_session es)) (e_id (es ! (chain ! Suc k)) # seen) (chain ! k) = rev (take (Suc k) chain)"
    using Suc.prems by (intro Suc.IH) auto
  with Suc.prems at scan_lookup_named [OF assms(3) at(2,3)] show ?case
    by (simp add: chain_step take_Suc_conv_app_nth [of "Suc k"])
qed

text \<open>A session whose leaf is the end of a chain has that chain for its branch.\<close>

lemma branch_of_linked:
  assumes "linked (s_entries s) chain" "distinct chain" "chain \<noteq> []" "\<not> s_restart s"
    and "distinct (filter (\<lambda>k. k \<noteq> []) (map e_id (s_entries s)))" "s_leaf s = e_id (s_entries s ! last chain)"
  shows "branch s = (if list_all (\<lambda>e. e_parent e = []) (s_entries s) then [0..<length (s_entries s)] else chain)"
proof (cases "list_all (\<lambda>e. e_parent e = []) (s_entries s)")
  case True
  with branch_list [OF assms(4)] show ?thesis by (simp add: list_all_iff)
next
  case False
  let ?es = "s_entries s" and ?n = "length chain - 1"
  have n: "?n < length chain" "last chain = chain ! ?n" using assms(3) by (simp_all add: last_conv_nth)
  with assms(1) have at: "last chain < length ?es" "e_id (?es ! last chain) \<noteq> []" by (simp_all add: linked_def)
  from scan_lookup_named [OF assms(5) at] have "leaf_of s = Some (last chain)" by (simp add: leaf_of_def assms(6))
  with False assms(4) have "branch s = rev (chain_from ?es (sc_by_id (scan_session ?es)) [] (last chain))"
    by (intro branch_tree) (auto simp: scan_tree list_all_iff)
  also have "\<dots> = chain" using chain_of_linked [OF assms(1,2,5) n(1), of "[]"] n by simp
  finally show ?thesis using False by simp
qed

text \<open>What the passes after the linking leave alone.\<close>

definition frame :: "entry list \<Rightarrow> string list \<times> string list \<times> string option list" where
  "frame es = (map e_id es, map e_parent es, map e_raw es)"

lemma frame_length: "frame es' = frame es \<Longrightarrow> length es' = length es"
  unfolding frame_def by (metis length_map prod.inject)

lemma frame_nth:
  assumes "frame es' = frame es" "i < length es"
  shows "e_id (es' ! i) = e_id (es ! i)" "e_parent (es' ! i) = e_parent (es ! i)" "e_raw (es' ! i) = e_raw (es ! i)"
  using frame_length [OF assms(1)] map_nth_cong [of e_id es' es i] map_nth_cong [of e_parent es' es i]
    map_nth_cong [of e_raw es' es i] assms
  by (simp_all add: frame_def)

lemma frame_update:
  assumes "frame es' = frame es" "e_id x = e_id (es ! i)" "e_parent x = e_parent (es ! i)" "e_raw x = e_raw (es ! i)"
  shows "frame (es'[i := x]) = frame es"
proof (cases "i < length es")
  case True
  with assms(1) assms(2-4) [folded frame_nth [OF assms(1) True]] show ?thesis by (simp add: frame_def map_update_same)
qed (use assms frame_length [OF assms(1)] in \<open>simp add: list_update_beyond\<close>)

lemma linked_same:
  assumes "frame es' = frame es" "linked es chain"
  shows "linked es' chain"
  unfolding linked_def
proof (intro allI impI)
  fix k
  assume k: "k < length chain"
  then have l: "chain ! k < length es" "chain ! (k - 1) < length es" using assms(2) by (simp_all add: linked_def)
  with k assms(2) show "chain ! k < length es' \<and> e_id (es' ! (chain ! k)) \<noteq> []
      \<and> e_parent (es' ! (chain ! k)) = (if k = 0 then [] else e_id (es' ! (chain ! (k - 1))))"
    using frame_length [OF assms(1)] frame_nth [OF assms(1) l(1)] frame_nth [OF assms(1) l(2)] by (simp add: linked_def)
qed

lemma link_chain_facts:
  assumes "distinct chain" "\<forall>i \<in> set chain. i < length es" "n \<le> length chain"
    "es' = foldl (\<lambda>es k. es[chain ! k := set_parent (if k = 0 then [] else e_id (es ! (chain ! (k - 1)))) (es ! (chain ! k))])
       es [0..<n]"
  shows "length es' = length es \<and> map e_id es' = map e_id es \<and> map e_raw es' = map e_raw es
    \<and> (\<forall>k < n. e_parent (es' ! (chain ! k)) = (if k = 0 then [] else e_id (es ! (chain ! (k - 1)))))"
  using assms(3,4)
proof (induction n arbitrary: es')
  case (Suc n)
  define mid where "mid = foldl (\<lambda>es k. es[chain ! k := set_parent (if k = 0 then [] else e_id (es ! (chain ! (k - 1)))) (es ! (chain ! k))])
       es [0..<n]"
  from Suc.IH [OF _ mid_def] Suc.prems(1) have IH: "length mid = length es" "map e_id mid = map e_id es" "map e_raw mid = map e_raw es"
    "\<forall>k < n. e_parent (mid ! (chain ! k)) = (if k = 0 then [] else e_id (es ! (chain ! (k - 1))))" by simp_all
  have es': "es' = mid[chain ! n := set_parent (if n = 0 then [] else e_id (mid ! (chain ! (n - 1)))) (mid ! (chain ! n))]"
    using Suc.prems(2) by (simp add: mid_def)
  have at: "k < n \<Longrightarrow> chain ! k < length es \<and> chain ! n \<noteq> chain ! k" for k
    using assms(1,2) Suc.prems(1) nth_eq_iff_index_eq [OF assms(1), of k n] by auto
  have "n \<noteq> 0 \<Longrightarrow> e_id (mid ! (chain ! (n - 1))) = e_id (es ! (chain ! (n - 1)))"
    using map_nth_cong [OF IH(2)] at [of "n - 1"] IH(1) by simp
  moreover have "chain ! n < length mid" using assms(2) Suc.prems(1) IH(1) by simp
  ultimately show ?case using IH at by (auto simp: es' map_update_same less_Suc_eq)
qed simp

lemma link_chain_linked:
  assumes "distinct chain" "\<forall>i \<in> set chain. i < length es \<and> e_id (es ! i) \<noteq> []"
  shows "linked (link_chain chain es) chain" "map e_id (link_chain chain es) = map e_id es"
    "map e_raw (link_chain chain es) = map e_raw es"
proof -
  have b: "\<forall>i \<in> set chain. i < length es" using assms(2) by simp
  note f = link_chain_facts [OF assms(1) b order.refl refl, folded link_chain_def]
  from f show i: "map e_id (link_chain chain es) = map e_id es" and "map e_raw (link_chain chain es) = map e_raw es" by simp_all
  have "e_id (link_chain chain es ! j) = e_id (es ! j)" if "j \<in> set chain" for j
    using map_nth_cong [OF i] f b that by simp
  with f assms show "linked (link_chain chain es) chain" by (simp add: linked_def)
qed

lemma merge_split_frame: "frame (merge_split rows out is es) = frame es"
proof (induction rows out "is" es rule: merge_split.induct)
  case (2 rows out i js es)
  show ?case
  proof (cases "e_role (es ! i) = RoleOpaque \<or> \<not> for_model (e_audience (es ! i)) \<or> e_role (es ! i) \<noteq> RoleAssistant")
    case True
    with "2.IH" show ?thesis by (auto simp: Let_def)
  next
    case False
    show ?thesis
    proof (cases "merge_target (msg_id (rows ! i)) out")
      case (Some at)
      let ?m = "es[at := set_content (e_content (es ! at) @ e_content (es ! i)) (es ! at)]"
      have "frame (?m[i := set_role RoleOpaque (set_content [] (es ! i))]) = frame es"
        by (intro frame_update [OF frame_update]) simp_all
      with Some False "2.IH" show ?thesis by (simp add: Let_def)
    qed (use False "2.IH" in \<open>simp add: Let_def\<close>)
  qed
qed simp

lemma mark_summaries_frame: "frame (mark_summaries rows is es) = frame es"
proof (induction rows "is" es rule: mark_summaries.induct)
  case (2 rows i js es)
  have u: "frame (es[i := set_compaction c (es ! i)]) = frame es" for c by (rule frame_update) simp_all
  have "frame ((es[i := set_compaction c (es ! i)])[j := set_audience AudienceNone (es ! j)]) = frame es" for c j
    by (rule frame_update [OF u]) simp_all
  with u "2.IH" show ?case by (simp split: option.split)
qed simp

section \<open>The first row of the file\<close>

text \<open>
  A compaction that kept one message, \<open>k\<close>, and after it a prompt \<open>u\<close> with its reply \<open>r\<close> and an
  attachment \<open>h\<close>; \<open>front\<close> are rows before them.
\<close>

definition plain_meta :: "string \<Rightarrow> string \<Rightarrow> claude_meta" where
  "plain_meta typ i = no_meta\<lparr>mt_type := typ, mt_uuid := i\<rparr>"

definition plain_entry :: "string \<Rightarrow> string \<Rightarrow> role \<Rightarrow> entry" where
  "plain_entry i parent r = Entry i parent r 0 [] None AudienceAll None None"

definition kept_one :: claude_meta where
  "kept_one = (plain_meta ''system'' ''b'')\<lparr>mt_subtype := ''compact_boundary'',
     mt_compact := Some \<lparr>cp_segment = None, cp_messages = Some \<lparr>km_anchor = ''s'', km_uuids = [''k'']\<rparr>\<rparr>\<rparr>"

definition compacted_rows :: "claude_meta list" where
  "compacted_rows =
     [plain_meta ''user'' ''a'', plain_meta ''assistant'' ''k'', kept_one, plain_meta ''user'' ''s'',
      plain_meta ''user'' ''u'', plain_meta ''assistant'' ''r'', plain_meta ''attachment'' ''h'']"

definition compacted_entries :: "entry list" where
  "compacted_entries =
     [plain_entry ''a'' [] RoleUser, plain_entry ''k'' ''a'' RoleAssistant, plain_entry ''b'' [] RoleOpaque,
      plain_entry ''s'' ''b'' RoleUser, plain_entry ''u'' ''s'' RoleUser, plain_entry ''r'' ''u'' RoleAssistant,
      plain_entry ''h'' ''u'' RoleOpaque]"

definition compacted :: "claude_meta list \<Rightarrow> entry list \<Rightarrow> loader" where
  "compacted front fronts =
     \<lparr>ld_rows = front @ compacted_rows, ld_entries = fronts @ compacted_entries,
      ld_ids = index_rows 0 (front @ compacted_rows) Map.empty\<rparr>"

text \<open>A row a compaction deleted from the loader's map still counts as live when it is the first row of the
  file, since \<open>live\<close> compares the index with a map lookup that gives 0 for a missing key. So a session
  whose first row is a message resumes from the prompt and loses the reply, row 5; with any other row in
  front of the same rows the reply, then row 6, is on the chain.\<close>

theorem reply_lost_behind_first_row:
  "snd (resumed_chain (compacted [] []) (scan_pins compacted_rows)) = Some [2, 3, 1, 4, 6]
   \<and> snd (resumed_chain (compacted [plain_meta ''mode'' []] [plain_entry [] [] RoleOpaque])
           (scan_pins (plain_meta ''mode'' [] # compacted_rows))) = Some [3, 4, 2, 5, 6]"
  by code_simp

end
