(* ===== verification/Claude_Store.thy ===== *)
theory Claude_Store
  imports Claude_Finish
begin

text \<open>
  Claude Code's store (\<open>Codec\<close>, \<open>transcript/claude/claude.go\<close>) as a codec of the engine: it keeps the rows
  it reads, and a file it reads has the branch Claude resumes.

  The codec's own random ids and those of the engine are two supplies.
\<close>

definition claude_codec :: "(nat \<Rightarrow> int) \<Rightarrow> (nat \<Rightarrow> string) \<Rightarrow> (nat \<Rightarrow> string) \<Rightarrow> claude_vendor jsonl" where
  "claude_codec clock new ids =
     \<lparr>j_agent = ''claude'', j_caps = claude_caps, j_header = None, j_decode = claude_decode,
      j_finish = Some claude_finish, j_encode = Some claude_encode, j_write_header = None,
      j_prepare = Some (claude_prepare clock new), j_tree = True,
      j_ids = \<lparr>sch_new = ids, sch_valid = Some is_uuid\<rparr>\<rparr>"

lemma claude_codec_sel:
  "j_agent (claude_codec clock new ids) = ''claude''" "j_header (claude_codec clock new ids) = None"
  "j_decode (claude_codec clock new ids) = claude_decode" "j_finish (claude_codec clock new ids) = Some claude_finish"
  "j_encode (claude_codec clock new ids) = Some claude_encode" "j_prepare (claude_codec clock new ids) = Some (claude_prepare clock new)"
  by (simp_all add: claude_codec_def)

section \<open>Rows are kept\<close>

lemma learn_keeps: "s_entries (learn r m s) = s_entries s" "s_agent (learn r m s) = s_agent s"
  "s_restart (learn r m s) = s_restart s" "s_leaf (learn r m s) = s_leaf s"
  by (simp_all add: learn_def Let_def)

lemma claude_decode_keeps: "claude_decode row s = Inr (d, s') \<Longrightarrow> keeps_rows s s'"
  by (auto simp: claude_decode_def Let_def keeps_rows_def learn_keeps split: option.splits if_splits)

lemma link_chain_raws: "map e_raw (link_chain chain es) = map e_raw es"
proof -
  have "map e_raw (foldl (\<lambda>es k. es[f k := set_parent (g es k) (es ! f k)]) es ks) = map e_raw es"
    for f :: "nat \<Rightarrow> nat" and g es ks
    by (induction ks arbitrary: es) (simp_all add: map_update_same)
  then show ?thesis unfolding link_chain_def .
qed

lemma resumed_same: "resumed_chain (new_loader es) (scan_pins (map meta_of es)) = (l', c) \<Longrightarrow> same_rows (new_loader es) l'"
  using resumed_chain_facts(1) [OF new_loader_facts(1), of es "scan_pins (map meta_of es)" l' c]
    scan_pins_last [of "new_loader es"] new_loader_facts(2) [of es] by simp

lemma claude_finish_keeps: "claude_finish s = Inr s' \<Longrightarrow> keeps_rows s s'"
proof -
  assume fin: "claude_finish s = Inr s'"
  let ?l = "new_loader (s_entries s)" and ?p = "scan_pins (map meta_of (s_entries s))"
  obtain l' c where r: "resumed_chain ?l ?p = (l', c)" by fastforce
  have "map e_raw (ld_entries l') = map e_raw (s_entries s)"
    using resumed_same [OF r] new_loader_facts(4) by (simp add: same_rows_def)
  moreover have "map e_raw (mark_summaries rows c' (merge_split rows [] c' (link_chain c' es))) = map e_raw es" for rows c' es
    using mark_summaries_frame [of rows c'] merge_split_frame [of rows "[]" c'] link_chain_raws [of c' es]
    by (simp add: frame_def)
  ultimately show ?thesis
    using fin r new_loader_facts(2,4) by (auto simp: claude_finish_def Let_def keeps_rows_def split: if_splits option.splits)
qed

lemma lay_out_old: "list_all (\<lambda>e. e_raw e \<noteq> None) es \<Longrightarrow> ly_markers (lay_out new s ly es) = ly_markers ly"
  by (induction es arbitrary: ly) auto

lemma stamp_rows_old: "list_all (\<lambda>e. e_raw e \<noteq> None) es \<Longrightarrow> stamp_rows clock u i prev es = es"
  by (induction es arbitrary: i prev) (auto simp: created_def)

lemma claude_prepare_old:
  "list_all (\<lambda>e. e_raw e \<noteq> None) (s_entries s) \<Longrightarrow> claude_prepare clock new s = Inr s' \<Longrightarrow> s' = s"
  by (simp add: claude_prepare_def compactions_def Let_def lay_out_old stamp_rows_old)

lemma claude_prepare_keeps:
  "list_all (\<lambda>e. e_raw e \<noteq> None) (s_entries s) \<Longrightarrow> claude_prepare clock new s = Inr s' \<Longrightarrow> keeps_rows s s'"
  using claude_prepare_old [of s clock new s'] by simp

interpretation claude: row_keeper "claude_codec clock new ids" for clock new ids
proof
  show "codec_ok (claude_codec clock new ids)"
    unfolding codec_ok_def claude_codec_def
    using claude_decode_keeps claude_finish_keeps claude_prepare_keeps by auto
qed

section \<open>The branch of a file\<close>

text \<open>A message row's entry has the row's id.\<close>

definition named :: "entry \<Rightarrow> bool" where
  "named e \<longleftrightarrow> (is_message (meta_of e) \<longrightarrow> e_id e = mt_uuid (meta_of e))"

lemma no_meta_named: "\<not> is_message no_meta"
  by (simp add: is_message_def no_meta_def)

lemma read_meta_uuid: "read_meta row = Some m \<Longrightarrow> struct_members row = Some ms \<Longrightarrow> mt_uuid m = str_of ''uuid'' ms"
  by (auto simp: read_meta_def split: option.splits if_splits)

lemma read_row_uuid: "read_row row = Some r \<Longrightarrow> \<exists>ms. struct_members row = Some ms \<and> cr_uuid r = str_of ''uuid'' ms"
  by (auto simp: read_row_def Let_def split: option.splits if_splits)

lemma claude_decode_id:
  "claude_decode row s = Inr (d, s') \<Longrightarrow>
     \<exists>r. read_row row = Some r \<and> (case d of None \<Rightarrow> cr_uuid r = [] | Some e \<Rightarrow> e_id e = cr_uuid r)"
  by (auto simp: claude_decode_def Let_def split: option.splits if_splits)

lemma decoded_named:
  assumes "claude_decode row s = Inr (d, s')"
  shows "named (case d of None \<Rightarrow> opaque_row row | Some e \<Rightarrow> set_raw (Some row) e)" (is "named ?e")
proof -
  from claude_decode_id [OF assms] obtain r where r1: "read_row row = Some r"
    and "case d of None \<Rightarrow> cr_uuid r = [] | Some e \<Rightarrow> e_id e = cr_uuid r" by (elim exE conjE)
  with read_row_uuid [OF r1] obtain ms where r: "case d of None \<Rightarrow> cr_uuid r = [] | Some e \<Rightarrow> e_id e = cr_uuid r"
    "struct_members row = Some ms" "cr_uuid r = str_of ''uuid'' ms" by blast
  have "e_raw ?e = Some row" "e_id ?e = str_of ''uuid'' ms"
    using r by (auto simp: opaque_row_def split: option.splits)
  then show ?thesis
    using read_meta_uuid [OF _ r(2)] no_meta_named by (auto simp: named_def meta_of_def split: option.splits)
qed

lemma opaque_named: "\<not> json_valid row \<Longrightarrow> named (opaque_row row)"
  using no_meta_named
  by (auto simp: named_def meta_of_def opaque_row_def read_meta_def struct_members_def json_valid_def split: option.splits)

lemma decode_rows_step:
  "decode_rows (claude_codec clock new ids) first s (l # ls) =
     (let row = trim_space l in
      if row = [] then decode_rows (claude_codec clock new ids) first s ls
      else if \<not> json_valid row then decode_rows (claude_codec clock new ids) first (add_entry s (opaque_row row)) ls
      else (case claude_decode row s of
              Inl e \<Rightarrow> Inl (''transcript: row: '' @ e)
            | Inr (d, s) \<Rightarrow>
                decode_rows (claude_codec clock new ids) False
                  (add_entry s (case d of None \<Rightarrow> opaque_row row | Some e \<Rightarrow> set_raw (Some row) e)) ls))"
  by (simp add: Let_def claude_codec_sel)

lemma case_result: "(case x of Inl e \<Rightarrow> Inl (f e) | Inr (d, s) \<Rightarrow> g d s) = Inr r \<Longrightarrow> \<exists>d s. x = Inr (d, s) \<and> g d s = Inr r"
  by (auto split: sum.splits prod.splits)

lemma claude_rows_named:
  "decode_rows (claude_codec clock new ids) first s ls = Inr s' \<Longrightarrow> list_all named (s_entries s) \<Longrightarrow>
     list_all named (s_entries s') \<and> s_restart s' = s_restart s \<and> s_leaf s' = s_leaf s"
proof (induction ls arbitrary: first s)
  case (Cons l ls)
  let ?c = "claude_codec clock new ids" and ?row = "trim_space l"
  note run = Cons.prems(1) [unfolded decode_rows_step Let_def]
  consider "?row = []" | "?row \<noteq> []" "\<not> json_valid ?row" | "?row \<noteq> []" "json_valid ?row" by blast
  then show ?case
  proof cases
    case 1
    with run Cons.IH Cons.prems(2) show ?thesis by simp
  next
    case 2
    with run have "decode_rows ?c first (add_entry s (opaque_row ?row)) ls = Inr s'" by simp
    from Cons.IH [OF this] Cons.prems(2) opaque_named [OF 2(2)] show ?thesis by (simp add: add_entry_def)
  next
    case 3
    let ?next = "\<lambda>d s. decode_rows ?c False (add_entry s (case d of None \<Rightarrow> opaque_row ?row | Some e \<Rightarrow> set_raw (Some ?row) e)) ls"
    from run 3 have "(case claude_decode ?row s of Inl e \<Rightarrow> Inl (''transcript: row: '' @ e) | Inr (d, s) \<Rightarrow> ?next d s) = Inr s'"
      by simp
    from case_result [OF this] obtain d s1 where d: "claude_decode ?row s = Inr (d, s1)" "?next d s1 = Inr s'" by blast
    have "s_entries s1 = s_entries s" "s_restart s1 = s_restart s" "s_leaf s1 = s_leaf s"
      using d(1) by (auto simp: claude_decode_def Let_def learn_keeps split: option.splits if_splits)
    with Cons.IH [OF d(2)] Cons.prems(2) decoded_named [OF d(1)] show ?thesis by (simp add: add_entry_def)
  qed
qed simp

text \<open>What \<open>finish\<close> makes of named rows.\<close>

lemma same_rows_ids: "same_rows l l' \<Longrightarrow> map e_id (ld_entries l') = map e_id (ld_entries l)"
  by (simp add: same_rows_def)

lemma finish_chain:
  assumes "claude_finish s = Inr s'" "\<not> pn_cleared p" "resumed_chain (new_loader (s_entries s)) p = (l, Some chain)"
    and "p = scan_pins (map meta_of (s_entries s))"
    and "list_all named (s_entries s)" "distinct (filter (\<lambda>k. k \<noteq> []) (map e_id (s_entries s)))" "\<not> s_restart s"
  shows "distinct chain \<and> chain \<noteq> [] \<and> list_all (message_row (new_loader (s_entries s))) chain
    \<and> branch s' = (if list_all (\<lambda>e. e_parent e = []) (s_entries s') then [0..<length (s_entries s')] else chain)"
proof -
  let ?l = "new_loader (s_entries s)" and ?es = "ld_entries l" and ?rows = "map meta_of (s_entries s)"
  note same = resumed_same [OF assms(3) [unfolded assms(4)]]
  have c: "distinct chain" "list_all (message_row ?l) chain" "chain \<noteq> []"
    using resumed_chain_facts(2) [OF new_loader_facts(1) assms(3) _ refl] scan_pins_last [of ?l]
    by (simp_all add: assms(4) new_loader_facts(2))
  have ids: "map e_id ?es = map e_id (s_entries s)"
    using same_rows_ids [OF same] new_loader_facts(3) by simp
  have len: "length ?es = length (s_entries s)" using arg_cong [OF ids, of length] by simp
  have ok: "\<forall>i \<in> set chain. i < length ?es \<and> e_id (?es ! i) \<noteq> []"
  proof
    fix i
    assume "i \<in> set chain"
    with c(2) have i: "i < length (s_entries s)" "is_message (meta_of (s_entries s ! i))"
      by (auto simp: list_all_iff message_row_def new_loader_facts(2))
    with assms(5) have "e_id (s_entries s ! i) \<noteq> []" by (auto simp: list_all_length named_def is_message_def)
    with i(1) len map_nth_cong [OF ids] show "i < length ?es \<and> e_id (?es ! i) \<noteq> []" by simp
  qed
  note lk = link_chain_linked [OF c(1) ok]
  let ?linked = "link_chain chain ?es"
  let ?out = "mark_summaries ?rows chain (merge_split ?rows [] chain ?linked)"
  have fr: "frame ?out = frame ?linked" using mark_summaries_frame merge_split_frame by simp
  have rows: "ld_rows l = ?rows" using same new_loader_facts(2) by (simp add: same_rows_def)
  have s': "s_entries s' = ?out" "s_leaf s' = e_id (?linked ! last chain)" "s_restart s' = s_restart s"
    using assms(1,2,3) rows by (auto simp: claude_finish_def Let_def new_loader_facts(2) assms(4) [symmetric])
  have out: "map e_id ?out = map e_id (s_entries s)" using fr lk(2) ids by (simp add: frame_def)
  have "last chain < length ?linked" using ok c(3) arg_cong [OF lk(2), of length] by simp
  then have "s_leaf s' = e_id (s_entries s' ! last chain)" using frame_nth(1) [OF fr] s' by simp
  with branch_of_linked [of s' chain] linked_same [OF fr lk(1)] c s' out assms(6,7) show ?thesis by simp
qed

section \<open>A file of two rows\<close>

definition sample_members :: "string \<Rightarrow> string \<Rightarrow> string \<Rightarrow> (string \<times> json) list" where
  "sample_members typ i parent = [(''type'', JStr typ), (''uuid'', JStr i), (''parentUuid'', JStr parent)]"

definition sample_line :: "string \<Rightarrow> string \<Rightarrow> string \<Rightarrow> string" where
  "sample_line typ i parent = json_print (JObj (sample_members typ i parent))"

lemma sample_line_members:
  assumes "json_ok (JObj (sample_members typ i parent))"
  shows "struct_members (sample_line typ i parent) = Some (written_members (sample_members typ i parent))"
  using struct_members_written [OF assms] by (simp add: sample_line_def)

lemma sample_struct:
  "k \<in> {''message'', ''attachment'', ''compactMetadata''} \<Longrightarrow> read_opt f k (written_members (sample_members typ i parent)) = Some None"
  by (auto simp: read_opt_def sample_members_def written_members_def fold_eval)

lemma sample_decode:
  assumes "json_ok (JObj (sample_members typ i parent))" "i \<noteq> []"
  shows "claude_decode (sample_line typ i parent) s = Inr (Some (Entry i parent RoleOpaque 0 [] None AudienceAll None None), s)"
proof -
  note eval = parsed_written [OF assms(1)] str_of_def bool_of_def strs_ok_def bools_ok_def sample_struct
  have "\<exists>r. read_row (sample_line typ i parent) = Some r \<and> cr_uuid r = i \<and> cr_parent r = Some parent \<and> cr_message r = None \<and> cr_timestamp r = []"
    by (simp add: read_row_def sample_line_members [OF assms(1)] Let_def eval) (simp add: sample_members_def fold_eval conv_str_def)
  then show ?thesis using assms(2) by (auto simp: claude_decode_def Let_def)
qed

lemma sample_meta:
  assumes "json_ok (JObj (sample_members typ i parent))"
  shows "read_meta (sample_line typ i parent) = Some (no_meta\<lparr>mt_type := typ, mt_uuid := i\<rparr>)"
proof -
  note eval = parsed_written [OF assms(1)] str_of_def bool_of_def strs_ok_def bools_ok_def sample_struct raw_of_def
  show ?thesis
    by (simp add: read_meta_def sample_line_members [OF assms(1)] Let_def eval) (simp add: sample_members_def fold_eval conv_str_def no_meta_def written_members_def)
qed



lemma stored_object:
  assumes "json_ok (JObj kvs)" "length (json_print (JObj kvs)) < max_line"
  shows "stored_row (json_print (JObj kvs))" "json_valid (json_print (JObj kvs))"
proof -
  have "printable (json_print (JObj kvs))" by (rule json_printable(1) [OF assms(1)])
  then have "CHR 0x0A \<notin> set (json_print (JObj kvs))" by (auto simp: printable_def list_all_iff byte_def simp del: json_print.simps)
  moreover have "trim_space (json_print (JObj kvs)) = json_print (JObj kvs)" using trim_object [of "print_members kvs"] by simp
  ultimately show "stored_row (json_print (JObj kvs))" using assms(2) by (simp add: stored_row_def)
  show "json_valid (json_print (JObj kvs))" using json_parse_print [OF assms(1)] by (simp add: json_valid_def del: json_print.simps)
qed

lemma sample_oks: "json_ok (JObj (sample_members ''user'' ''a'' []))" "json_ok (JObj (sample_members ''assistant'' ''b'' ''a''))"
  by (simp_all add: sample_members_def byte_def)

definition sample_entries :: "entry list" where
  "sample_entries =
     [Entry ''a'' [] RoleOpaque 0 [] None AudienceAll None (Some (sample_line ''user'' ''a'' [])),
      Entry ''b'' ''a'' RoleOpaque 0 [] None AudienceAll None (Some (sample_line ''assistant'' ''b'' ''a''))]"

lemma sample_chain:
  "\<not> pn_cleared (scan_pins (ld_rows (new_loader sample_entries)))"
  "snd (resumed_chain (new_loader sample_entries) (scan_pins (ld_rows (new_loader sample_entries)))) = Some [0, Suc 0]"
proof -
  have m: "map meta_of sample_entries = [no_meta\<lparr>mt_type := ''user'', mt_uuid := ''a''\<rparr>, no_meta\<lparr>mt_type := ''assistant'', mt_uuid := ''b''\<rparr>]"
    by (simp add: sample_entries_def meta_of_def sample_meta [OF sample_oks(1)] sample_meta [OF sample_oks(2)])
  let ?rows = "[no_meta\<lparr>mt_type := ''user'', mt_uuid := ''a''\<rparr>, no_meta\<lparr>mt_type := ''assistant'', mt_uuid := ''b''\<rparr>]"
  have l: "new_loader sample_entries = \<lparr>ld_rows = ?rows, ld_entries = sample_entries, ld_ids = [''a'' \<mapsto> 0, ''b'' \<mapsto> 1]\<rparr>"
    by (simp add: new_loader_def m Let_def) (simp add: sample_entries_def is_message_def no_meta_def)
  have p: "scan_pins (map meta_of sample_entries) = \<lparr>pn_last = Some 1, pn_latest = None, pn_leaf = [], pn_explicit = False, pn_cleared = False, pn_any = False\<rparr>"
    by (simp add: m scan_pins_def is_message_def no_meta_def scan_message_def fork_briefing_def is_boundary_def)
  note ev = is_message_def no_meta_def is_boundary_def conversational_def upt_rec live_row_def
  have r: "retired_rows (new_loader sample_entries) = []" "last_boundary (new_loader sample_entries) = None" "relink_preserved (new_loader sample_entries) = ([], new_loader sample_entries)"
    by (simp_all add: l retired_rows_def last_boundary_def relink_preserved_def keeping_boundary_def live_rows_def ev map_filter_def)
  have at: "parent_of (new_loader sample_entries) 1 = Some 0" by (simp add: parent_of_def l) (simp add: sample_entries_def)
  have up: "up_from (new_loader sample_entries) [] (Suc 0) = Some (Suc 0)"
    by (subst up_from.simps) (simp add: l ev)
  have leaf: "leaf_row (new_loader sample_entries) (scan_pins (map meta_of sample_entries)) [] = Some (Suc 0)"
    by (simp add: leaf_row_def first_leaf_def first_choice_def pinned_leaf_def holds_id_def p up)
  have walk: "chain_to (new_loader sample_entries) (Suc 0) = [0, Suc 0]"
    unfolding chain_to_def by (simp add: walk.simps [of _ _ "Suc 0"] walk.simps [of _ _ 0] l parent_or_gap_def) (simp add: sample_entries_def)
  have par: "recover_parallel (new_loader sample_entries) [0, Suc 0] = [0, Suc 0]"
    by (simp add: recover_parallel_def upt_rec l ev msg_id_def)
  have tr: "trailing (new_loader sample_entries) (Suc 0) [0, Suc 0] = [0, Suc 0]"
    by (simp add: trailing_def trail.simps side_rows_def children_def live_rows_def l ev)
  show "\<not> pn_cleared (scan_pins (ld_rows (new_loader sample_entries)))"
    using p by (simp add: new_loader_facts(2))
  show "snd (resumed_chain (new_loader sample_entries) (scan_pins (ld_rows (new_loader sample_entries)))) = Some [0, Suc 0]"
    by (simp add: new_loader_facts(2) resumed_chain_def r leaf walk par tr Let_def)
qed

lemma sample_short: "length (sample_line ''user'' ''a'' []) < max_line" "length (sample_line ''assistant'' ''b'' ''a'') < max_line"
   by (simp_all add: sample_line_def sample_members_def print_string_def print_body_def print_chunk_def byte_def max_line_def)

lemma sample_read:
  "decode_all (claude_codec clock new ids) (concat (map line [sample_line ''user'' ''a'' [], sample_line ''assistant'' ''b'' ''a'']))
     (new_session ''s'' ''claude'' 1)
   = Inr ((new_session ''s'' ''claude'' 1)\<lparr>s_entries := sample_entries\<rparr>)"
proof -
  let ?rows = "[sample_line ''user'' ''a'' [], sample_line ''assistant'' ''b'' ''a'']"
  have st: "list_all stored_row ?rows" "json_valid (?rows ! 0)" "json_valid (?rows ! 1)"
    using stored_object [OF sample_oks(1)] stored_object [OF sample_oks(2)] sample_short by (simp_all add: sample_line_def del: json_print.simps)
  then have t: "\<forall>r \<in> set ?rows. trim_space r = r \<and> r \<noteq> []" by (simp add: stored_row_def)
  have "decode_rows (claude_codec clock new ids) True (new_session ''s'' ''claude'' 1) ?rows = Inr ((new_session ''s'' ''claude'' 1)\<lparr>s_entries := sample_entries\<rparr>)"
    using t st(2,3) by (simp add: decode_rows_step Let_def sample_decode [OF sample_oks(1)] sample_decode [OF sample_oks(2)] add_entry_def new_session_def sample_entries_def del: decode_rows.simps(2))
  with conjunct1 [OF scan_lines_rows [OF st(1)]] show ?thesis
    by (simp add: decode_all_def set_created_def new_session_def result_bind_def sample_entries_def)
qed

section \<open>Properties\<close>

text \<open>C3. Opening a Claude Code session file gives the conversation Claude would resume, whatever rows the
  file has, as long as no two of them share an id (rows may be without one): when the last rewind cleared the session the branch is empty; otherwise the links \<open>finish\<close>
  writes are the chain its loader computes, the entries' rows untouched, so that the branch every reader
  of the session follows is that chain, and the chain has every row once and message rows only; a file whose rows are all without a parent
  is a list, read in its order.\<close>

theorem claude_file_branch:
  assumes "decode_all (claude_codec clock new ids) data (new_session i ''claude'' mtime) = Inr s0"
    and "distinct (filter (\<lambda>k. k \<noteq> []) (map e_id (s_entries s0)))"
  shows "\<exists>s. read_session (claude_codec clock new ids) i mtime data = Inr s
    \<and> map e_raw (s_entries s) = map e_raw (s_entries s0)
    \<and> (let l = new_loader (s_entries s0); p = scan_pins (ld_rows l) in
         if pn_cleared p then branch s = []
         else (case snd (resumed_chain l p) of
             None \<Rightarrow> s_leaf s = []
           | Some chain \<Rightarrow> distinct chain \<and> chain \<noteq> [] \<and> list_all (message_row l) chain
               \<and> branch s = (if list_all (\<lambda>e. e_parent e = []) (s_entries s) then [0..<length (s_entries s)] else chain)))"
proof -
  let ?c = "claude_codec clock new ids" and ?l = "new_loader (s_entries s0)"
  let ?p = "scan_pins (map meta_of (s_entries s0))"
  from assms(1) obtain s1 where d: "decode_rows ?c True (new_session i ''claude'' mtime) (fst (scan_lines data)) = Inr s1"
    and s0: "s0 = set_created s1"
    by (auto simp: decode_all_def result_bind_Inr split: prod.splits if_splits)
  have rows: "list_all named (s_entries s0)" "\<not> s_restart s0" "s_leaf s0 = []"
    using claude_rows_named [OF d] by (auto simp: s0 set_created_def new_session_def split: option.splits)
  have "\<exists>s. claude_finish s0 = Inr s" by (simp add: claude_finish_def Let_def split: prod.split option.split)
  then obtain s where fin: "claude_finish s0 = Inr s" ..
  have "read_session ?c i mtime data = Inr s"
    using assms(1) fin by (simp add: read_session_def claude_codec_sel)
  moreover have "map e_raw (s_entries s) = map e_raw (s_entries s0)"
    using claude_finish_keeps [OF fin] by (simp add: keeps_rows_def)
  moreover have "branch s = []" if "pn_cleared ?p"
    using fin that by (auto simp: claude_finish_def Let_def new_loader_facts(2) branch_def)
  moreover have "s_leaf s = []" if "\<not> pn_cleared ?p" "resumed_chain ?l ?p = (l, None)" for l
    using fin that rows(3) by (auto simp: claude_finish_def Let_def new_loader_facts(2))
  ultimately show ?thesis
    using finish_chain [OF fin _ _ refl rows(1) assms(2) rows(2)]
    by (cases "resumed_chain ?l ?p") (auto simp: Let_def new_loader_facts(2) split: option.split)
qed

theorem claude_file_branch_witness:
  "\<exists>s. read_session (claude_codec (\<lambda>_. 0) show_nat show_nat) ''s'' 1
       (concat (map line [sample_line ''user'' ''a'' [], sample_line ''assistant'' ''b'' ''a''])) = Inr s
     \<and> branch s = [0, 1]"
proof -
  let ?rows = "[sample_line ''user'' ''a'' [], sample_line ''assistant'' ''b'' ''a'']"
  let ?s0 = "(new_session ''s'' ''claude'' 1)\<lparr>s_entries := sample_entries\<rparr> :: claude_vendor session"
  have e: "s_entries ?s0 = sample_entries" by simp
  have "distinct (filter (\<lambda>k. k \<noteq> []) (map e_id (s_entries ?s0)))" by (simp add: sample_entries_def)
  from claude_file_branch [OF sample_read [of "\<lambda>_. 0" show_nat show_nat] this]
  obtain s where s: "read_session (claude_codec (\<lambda>_. 0) show_nat show_nat) ''s'' 1 (concat (map line ?rows)) = Inr s"
    "map e_raw (s_entries s) = map e_raw sample_entries"
    "branch s = (if list_all (\<lambda>e. e_parent e = []) (s_entries s) then [0..<length (s_entries s)] else [0, Suc 0])"
    unfolding e Let_def using sample_chain by (simp only: if_False option.case) blast
  have "length (s_entries s) = 2" using arg_cong [OF s(2), of length] by (simp add: sample_entries_def)
  with s show ?thesis by (auto simp: upt_rec)
qed

end
