(* ===== verification/Claude_Rows.thy ===== *)
theory Claude_Rows
  imports Claude_Codec
begin

text \<open>
  A row the codec writes reads back (\<open>encode\<close>, \<open>decode\<close>, \<open>transcript/claude/claude.go\<close>): first each of the
  JSON structs a row is made of, then the row, then the entry, with what Claude's form keeps of its
  blocks said without JSON.
\<close>

section \<open>Structs as JSON\<close>

definition text_json :: "string \<Rightarrow> string \<Rightarrow> (string \<times> json) list" where
  "text_json k s = omit k (map_option JStr (given s))"

definition flag_json :: "string \<Rightarrow> bool \<Rightarrow> (string \<times> json) list" where
  "flag_json k b = omit k (if b then Some (JBool True) else None)"

definition source_json :: "claude_source \<Rightarrow> (string \<times> json) list" where
  "source_json so =
     omit ''type'' (Some (JStr (so_type so))) @ text_json ''media_type'' (so_media_type so)
     @ text_json ''data'' (so_data so) @ text_json ''url'' (so_url so)"

definition block_json :: "claude_block \<Rightarrow> (string \<times> json) list" where
  "block_json b =
     omit ''type'' (Some (JStr (cb_type b))) @ text_json ''text'' (cb_text b) @ text_json ''thinking'' (cb_thinking b)
     @ text_json ''signature'' (cb_signature b) @ text_json ''id'' (cb_id b) @ text_json ''name'' (cb_name b)
     @ omit ''input'' (given_json (cb_input b)) @ text_json ''tool_use_id'' (cb_tool_use_id b)
     @ omit ''content'' (given_json (cb_content b)) @ flag_json ''is_error'' (cb_is_error b)
     @ omit ''source'' (map_option (\<lambda>so. JObj (source_json so)) (cb_source b)) @ text_json ''title'' (cb_title b)"

definition raw_ok :: "string \<Rightarrow> bool" where
  "raw_ok t \<longleftrightarrow> t = [] \<or> is_value t"

definition source_ok :: "claude_source \<Rightarrow> bool" where
  "source_ok so \<longleftrightarrow> list_all valid_utf8 [so_type so, so_media_type so, so_data so, so_url so]"

definition block_ok :: "claude_block \<Rightarrow> bool" where
  "block_ok b \<longleftrightarrow>
     list_all valid_utf8 [cb_type b, cb_text b, cb_thinking b, cb_signature b, cb_id b, cb_name b, cb_tool_use_id b, cb_title b]
     \<and> raw_ok (cb_input b) \<and> raw_ok (cb_content b) \<and> (case cb_source b of None \<Rightarrow> True | Some so \<Rightarrow> source_ok so)"

lemma text_json_text: "text_member k s = map (\<lambda>(k, j). (k, json_print j)) (text_json k s)"
  by (simp add: text_member_def text_json_def omit_maps print_given)

lemma flag_json_text: "flag k b = map (\<lambda>(k, j). (k, json_print j)) (flag_json k b)"
  by (simp add: flag_def flag_json_def omit_def)

lemma omit_text: "omit k (map_option json_print f) = map (\<lambda>(k, j). (k, json_print j)) (omit k f)"
  by (simp add: omit_maps)

lemma member_texts: "(k, json_print j) # map (\<lambda>(k, j). (k, json_print j)) r = map (\<lambda>(k, j). (k, json_print j)) ((k, j) # r)"
  by simp

lemma raw_text_value: "raw_ok t \<Longrightarrow> \<exists>w. raw_text t = Some w \<and> omit k (map_option (\<lambda>_. w) (given t)) = map (\<lambda>(k, j). (k, json_print j)) (omit k (given_json t))"
  by (auto simp: raw_ok_def raw_text_def given_def given_json_def is_value_def json_print_not_Nil compact_print json_parse_print json_valid_def omit_def)

lemma omit_Some: "omit k (Some x) = [(k, x)]"
  by (simp add: omit_def)

lemma source_text_json: "source_text so = json_print (JObj (source_json so))"
  by (simp add: source_text_def source_json_def object_text_json [symmetric] omit_maps text_json_text text_json_def omit_Some del: json_print.simps(6))

lemma block_text_json:
  assumes "block_ok b"
  shows "claude_block_text b = Some (json_print (JObj (block_json b)))"
proof -
  obtain i where i: "raw_text (cb_input b) = Some i"
    "omit ''input'' (map_option (\<lambda>_. i) (given (cb_input b))) = omit ''input'' (map_option json_print (given_json (cb_input b)))"
    using raw_text_value [of "cb_input b" "''input''"] assms by (auto simp: block_ok_def omit_text)
  obtain c where c: "raw_text (cb_content b) = Some c"
    "omit ''content'' (map_option (\<lambda>_. c) (given (cb_content b))) = omit ''content'' (map_option json_print (given_json (cb_content b)))"
    using raw_text_value [of "cb_content b" "''content''"] assms by (auto simp: block_ok_def omit_text)
  have s: "map_option source_text (cb_source b) = map_option json_print (map_option (\<lambda>so. JObj (source_json so)) (cb_source b))"
    by (cases "cb_source b") (simp_all add: source_text_json del: json_print.simps)
  show ?thesis
    by (simp add: claude_block_text_def i c s block_json_def object_text_json [symmetric] omit_maps text_json_text text_json_def
        flag_json_text flag_json_def omit_Some del: json_print.simps(6))
qed

section \<open>Structs read back\<close>

lemma fields_ok:
  "valid_utf8 s \<Longrightarrow> case map_option JStr (given s) of None \<Rightarrow> True | Some j \<Rightarrow> json_ok j"
  "raw_ok t \<Longrightarrow> case given_json t of None \<Rightarrow> True | Some j \<Rightarrow> json_ok j"
  "case (if b then Some (JBool True) else None) of None \<Rightarrow> True | Some j \<Rightarrow> json_ok j"
  using given_value(2) [of t] by (auto simp: given_def raw_ok_def split: option.splits)

lemma source_json_ok: "source_ok so \<Longrightarrow> json_ok (JObj (source_json so))"
  by (simp add: source_ok_def source_json_def text_json_def omit_oks fields_ok(1) byte_def del: case_map_option)

lemma block_json_ok: "block_ok b \<Longrightarrow> json_ok (JObj (block_json b))"
proof -
  assume b: "block_ok b"
  then have "case map_option (\<lambda>so. JObj (source_json so)) (cb_source b) of None \<Rightarrow> True | Some j \<Rightarrow> json_ok j"
    using source_json_ok by (auto simp: block_ok_def simp del: json_ok.simps split: option.splits)
  with b show ?thesis
    by (simp add: block_ok_def block_json_def text_json_def flag_json_def omit_oks fields_ok byte_def del: case_map_option)
qed

text \<open>Fields of the two forms that may be left out.\<close>

lemma dec_text:
  "equal_fold k' k \<Longrightarrow> dec_field conv_str k (text_json k' s @ r) [] = dec_field conv_str k r s"
  "\<not> equal_fold k' k \<Longrightarrow> dec_field conv k (text_json k' s @ r) old = dec_field conv k r old"
  by (simp_all add: text_json_def dec_field_omits given_def conv_str_def)

lemma dec_flag:
  "equal_fold k' k \<Longrightarrow> dec_field conv_bool k (flag_json k' b @ r) False = dec_field conv_bool k r b"
  "\<not> equal_fold k' k \<Longrightarrow> dec_field conv k (flag_json k' b @ r) old = dec_field conv k r old"
  by (simp_all add: flag_json_def dec_field_omits conv_bool_def)

lemma raw_text_flag:
  "\<not> equal_fold k' k \<Longrightarrow> last_raw k (written_members (text_json k' s @ r)) old = last_raw k (written_members r) old"
  "\<not> equal_fold k' k \<Longrightarrow> last_raw k (written_members (flag_json k' b @ r)) old = last_raw k (written_members r) old"
  by (simp_all add: text_json_def flag_json_def written_omit last_raw_omits)

lemma struct_text_flag:
  "\<not> equal_fold k' k \<Longrightarrow> dec_struct k (written_members (text_json k' s @ r)) old = dec_struct k (written_members r) old"
  "\<not> equal_fold k' k \<Longrightarrow> dec_struct k (written_members (flag_json k' b @ r)) old = dec_struct k (written_members r) old"
  by (simp_all add: text_json_def flag_json_def written_omit dec_struct_omits)

lemmas dec_texts = dec_text dec_text [where r = "[]", unfolded append_Nil2 dec_field.simps(1)]
lemmas dec_flags = dec_flag dec_flag [where r = "[]", unfolded append_Nil2 dec_field.simps(1)]
lemmas raw_text_flags = raw_text_flag raw_text_flag [where r = "[]", unfolded append_Nil2]
lemmas struct_text_flags = struct_text_flag struct_text_flag [where r = "[]", unfolded append_Nil2]

lemma read_source_written:
  assumes "source_ok so"
  shows "read_source (written_members (source_json so)) = Some so"
proof -
  have "dec_field conv_str ''type'' (source_json so) [] = (so_type so, True)"
    "dec_field conv_str ''media_type'' (source_json so) [] = (so_media_type so, True)"
    "dec_field conv_str ''data'' (source_json so) [] = (so_data so, True)"
    "dec_field conv_str ''url'' (source_json so) [] = (so_url so, True)"
    by (simp_all add: source_json_def dec_field_omits dec_texts message_keys conv_str_def)
  then show ?thesis
    by (simp add: read_source_def strs_ok_def str_of_def parsed_written [OF source_json_ok [OF assms]])
qed

lemma read_block_written:
  assumes "block_ok b"
  shows "read_block (json_print (JObj (block_json b))) = Some b"
proof -
  note ok = block_json_ok [OF assms] and p = parsed_written [OF block_json_ok [OF assms]]
  have str: "dec_field conv_str ''type'' (block_json b) [] = (cb_type b, True)"
    "dec_field conv_str ''text'' (block_json b) [] = (cb_text b, True)"
    "dec_field conv_str ''thinking'' (block_json b) [] = (cb_thinking b, True)"
    "dec_field conv_str ''signature'' (block_json b) [] = (cb_signature b, True)"
    "dec_field conv_str ''id'' (block_json b) [] = (cb_id b, True)"
    "dec_field conv_str ''name'' (block_json b) [] = (cb_name b, True)"
    "dec_field conv_str ''tool_use_id'' (block_json b) [] = (cb_tool_use_id b, True)"
    "dec_field conv_str ''title'' (block_json b) [] = (cb_title b, True)"
    by (simp_all add: block_json_def dec_field_omits dec_texts dec_flags message_keys conv_str_def)
  have err: "dec_field conv_bool ''is_error'' (block_json b) False = (cb_is_error b, True)"
    by (simp add: block_json_def dec_field_omits dec_texts dec_flags message_keys)
  have raws: "cb_input b = [] \<or> is_value (cb_input b)" "cb_content b = [] \<or> is_value (cb_content b)"
    using assms by (simp_all add: block_ok_def raw_ok_def)
  have raw: "last_raw ''input'' (written_members (block_json b)) [] = cb_input b"
    "last_raw ''content'' (written_members (block_json b)) [] = cb_content b"
    using raw_given [OF raws(1)] raw_given [OF raws(2)]
    by (simp_all add: block_json_def written_omit last_raw_omits raw_text_flags message_keys del: case_map_option)
  have src: "read_opt read_source ''source'' (written_members (block_json b)) = Some (cb_source b)"
  proof (cases "cb_source b")
    case None
    then show ?thesis
      by (simp add: read_opt_def block_json_def written_omit dec_struct_omits struct_text_flags message_keys)
  next
    case (Some so)
    then have so: "source_ok so" using assms by (simp add: block_ok_def)
    from Some show ?thesis
      by (simp add: read_opt_def block_json_def written_omit dec_struct_omits struct_text_flags message_keys
          source_json_ok [OF so] read_source_written [OF so] del: json_print.simps json_ok.simps)
  qed
  show ?thesis
    by (simp add: read_block_def struct_members_written [OF ok] src strs_ok_def bools_ok_def str_of_def bool_of_def raw_of_def p
        str err raw del: json_print.simps)
qed

section \<open>Lists of blocks and messages\<close>

definition blocks_json :: "claude_block list \<Rightarrow> json list" where
  "blocks_json bs = map (\<lambda>b. JObj (block_json b)) bs"

lemma blocks_json_ok: "list_all block_ok bs \<Longrightarrow> json_ok (JArr (blocks_json bs))"
  using block_json_ok by (auto simp: blocks_json_def list_all_iff simp del: json_ok.simps(4))

lemma blocks_array_json: "list_all block_ok bs \<Longrightarrow> blocks_array bs = Some (json_print (JArr (blocks_json bs)))"
proof -
  assume "list_all block_ok bs"
  then have "all_texts claude_block_text bs = Some (map json_print (blocks_json bs))"
    by (induction bs) (simp_all add: blocks_json_def block_text_json del: json_print.simps)
  then show ?thesis by (simp add: blocks_array_def array_text_def print_items_join)
qed

lemma read_blocks_written: "list_all block_ok bs \<Longrightarrow> read_blocks (json_print (JArr (blocks_json bs))) = Some bs"
proof -
  assume ok: "list_all block_ok bs"
  have "read_all read_block (map json_print (blocks_json bs)) = Some bs"
    using ok by (induction bs) (simp_all add: blocks_json_def read_block_written del: json_print.simps)
  moreover have "raw_array (json_print (JArr (blocks_json bs))) = map json_print (blocks_json bs)"
    using blocks_json_ok [OF ok] by (intro raw_array_print) simp
  ultimately show ?thesis
    by (simp add: read_blocks_def json_parse_print [OF blocks_json_ok [OF ok]] del: json_print.simps)
qed

definition usage_json :: "int \<times> int \<Rightarrow> (string \<times> json) list" where
  "usage_json u = omit ''input_tokens'' (Some (JNum (show_int (fst u)))) @ omit ''output_tokens'' (Some (JNum (show_int (snd u))))"

definition said_json :: "claude_message \<Rightarrow> (string \<times> json) list" where
  "said_json m =
     omit ''role'' (Some (JStr (cm_role m))) @ omit ''content'' (given_json (cm_content m)) @ text_json ''id'' (cm_id m)
     @ text_json ''type'' (cm_type m) @ text_json ''model'' (cm_model m)
     @ omit ''stop_reason'' (map_option JStr (cm_stop_reason m)) @ omit ''stop_sequence'' (map_option JStr (cm_stop_sequence m))
     @ omit ''usage'' (map_option (\<lambda>u. JObj (usage_json u)) (cm_usage m))"

definition said_ok :: "claude_message \<Rightarrow> bool" where
  "said_ok m \<longleftrightarrow>
     list_all valid_utf8 [cm_role m, cm_id m, cm_type m, cm_model m] \<and> is_value (cm_content m)
     \<and> (case cm_stop_reason m of None \<Rightarrow> True | Some t \<Rightarrow> valid_utf8 t)
     \<and> (case cm_stop_sequence m of None \<Rightarrow> True | Some t \<Rightarrow> valid_utf8 t)
     \<and> (case cm_usage m of None \<Rightarrow> True | Some u \<Rightarrow> int64_ok (fst u) \<and> int64_ok (snd u))"

lemma usage_json_ok: "json_ok (JObj (usage_json u))"
  by (auto simp: usage_json_def omit_oks byte_def)

lemma said_json_ok: "said_ok m \<Longrightarrow> json_ok (JObj (said_json m))"
proof -
  assume m: "said_ok m"
  then have "case map_option (\<lambda>u. JObj (usage_json u)) (cm_usage m) of None \<Rightarrow> True | Some j \<Rightarrow> json_ok j"
    "case map_option JStr (cm_stop_reason m) of None \<Rightarrow> True | Some j \<Rightarrow> json_ok j"
    "case map_option JStr (cm_stop_sequence m) of None \<Rightarrow> True | Some j \<Rightarrow> json_ok j"
    using usage_json_ok by (auto simp: said_ok_def simp del: json_ok.simps(4) split: option.splits)
  with m show ?thesis
    by (simp add: said_ok_def said_json_def text_json_def omit_oks fields_ok raw_ok_def byte_def del: case_map_option)
qed

lemma said_text_json:
  assumes "said_ok m"
  shows "claude_message_text m = Some (json_print (JObj (said_json m)))"
proof -
  obtain j where j: "json_ok j" "cm_content m = json_print j" using assms by (auto simp: said_ok_def is_value_def)
  have c: "raw_text (json_print j) = Some (json_print j)" "given_json (json_print j) = Some j"
    using j by (simp_all add: raw_text_def given_json_def json_print_not_Nil json_valid_def json_parse_print compact_print)
  have u: "map_option (\<lambda>(i, o'). object_text [(''input_tokens'', show_int i), (''output_tokens'', show_int o')]) (cm_usage m)
      = map_option json_print (map_option (\<lambda>u. JObj (usage_json u)) (cm_usage m))"
    by (cases "cm_usage m") (auto simp: usage_json_def object_text_json [symmetric] omit_maps omit_Some simp del: json_print.simps(6))
  have t: "map_option print_string f = map_option json_print (map_option JStr f)" for f
    by (simp add: option.map_comp comp_def)
  show ?thesis
    by (simp add: claude_message_text_def j(2) c u t said_json_def object_text_json [symmetric] omit_maps text_json_text text_json_def
        omit_Some del: json_print.simps(6))
qed

lemma read_said_written:
  assumes "said_ok m"
  shows "read_message (written_members (said_json m)) = Some m"
proof -
  note p = parsed_written [OF said_json_ok [OF assms]]
  have str: "dec_field conv_str ''role'' (said_json m) [] = (cm_role m, True)"
    "dec_field conv_str ''id'' (said_json m) [] = (cm_id m, True)"
    "dec_field conv_str ''type'' (said_json m) [] = (cm_type m, True)"
    "dec_field conv_str ''model'' (said_json m) [] = (cm_model m, True)"
    by (simp_all add: said_json_def dec_field_omits dec_texts message_keys conv_str_def)
  have ptr: "dec_ptr conv_str ''stop_reason'' (said_json m) None = (cm_stop_reason m, True)"
    "dec_ptr conv_str ''stop_sequence'' (said_json m) None = (cm_stop_sequence m, True)"
    by (auto simp: said_json_def text_json_def dec_ptr_omits message_keys conv_str_def split: option.split)
  have "is_value (cm_content m)" using assms by (simp add: said_ok_def)
  then have raw: "last_raw ''content'' (written_members (said_json m)) [] = cm_content m"
    using raw_given [of "cm_content m"]
    by (simp add: said_json_def written_omit last_raw_omits raw_text_flags message_keys del: case_map_option)
  have u: "read_opt read_usage ''usage'' (written_members (said_json m)) = Some (cm_usage m)"
  proof (cases "cm_usage m")
    case None
    then show ?thesis by (simp add: read_opt_def said_json_def written_omit dec_struct_omits struct_text_flags message_keys)
  next
    case (Some u)
    then have i: "int64_ok (fst u)" "int64_ok (snd u)" using assms by (simp_all add: said_ok_def)
    have "read_usage (written_members (usage_json u)) = Some u"
      by (simp add: read_usage_def ints_ok_def int_of_def parsed_written [OF usage_json_ok])
        (simp add: usage_json_def dec_field_omits message_keys conv_int_def parse_show_int64 [OF i(1)] parse_show_int64 [OF i(2)])
    with Some show ?thesis
      by (simp add: read_opt_def said_json_def written_omit dec_struct_omits struct_text_flags message_keys usage_json_ok
          del: json_print.simps json_ok.simps)
  qed
  show ?thesis
    by (simp add: read_message_def u p strs_ok_def str_of_def raw_of_def str ptr raw)
qed

section \<open>Rows\<close>

definition row_json :: "claude_row \<Rightarrow> (string \<times> json) list" where
  "row_json r =
     omit ''parentUuid'' (Some (case cr_parent r of None \<Rightarrow> JNull | Some p \<Rightarrow> JStr p))
     @ omit ''isSidechain'' (Some (JBool (cr_sidechain r)))
     @ text_json ''userType'' (cr_user_type r) @ text_json ''cwd'' (cr_cwd r)
     @ text_json ''sessionId'' (cr_session r) @ text_json ''version'' (cr_version r)
     @ text_json ''gitBranch'' (cr_branch r) @ omit ''type'' (Some (JStr (cr_type r)))
     @ omit ''message'' (map_option (\<lambda>m. JObj (said_json m)) (cr_message r))
     @ text_json ''uuid'' (cr_uuid r) @ text_json ''timestamp'' (cr_timestamp r)
     @ flag_json ''isVisibleInTranscriptOnly'' (cr_transcript_only r) @ flag_json ''isCompactSummary'' (cr_summary r)
     @ flag_json ''isMeta'' (cr_meta r) @ flag_json ''isApiErrorMessage'' (cr_api_error r)"

definition row_ok :: "claude_row \<Rightarrow> bool" where
  "row_ok r \<longleftrightarrow>
     list_all valid_utf8 [cr_user_type r, cr_cwd r, cr_session r, cr_version r, cr_branch r, cr_type r, cr_uuid r, cr_timestamp r]
     \<and> (case cr_parent r of None \<Rightarrow> True | Some p \<Rightarrow> valid_utf8 p)
     \<and> (case cr_message r of None \<Rightarrow> True | Some m \<Rightarrow> said_ok m)"

lemma row_json_ok: "row_ok r \<Longrightarrow> json_ok (JObj (row_json r))"
proof -
  assume r: "row_ok r"
  then have "case map_option (\<lambda>m. JObj (said_json m)) (cr_message r) of None \<Rightarrow> True | Some j \<Rightarrow> json_ok j"
    "json_ok (case cr_parent r of None \<Rightarrow> JNull | Some p \<Rightarrow> JStr p)"
    using said_json_ok by (auto simp: row_ok_def simp del: json_ok.simps(4) split: option.splits)
  with r show ?thesis
    by (simp add: row_ok_def row_json_def text_json_def flag_json_def omit_oks fields_ok byte_def del: case_map_option)
qed

lemma row_text_json:
  assumes "row_ok r"
  shows "row_result (row_members r) [] = Inr (json_print (JObj (row_json r)))"
proof -
  have m: "(case cr_message r of None \<Rightarrow> Some None | Some m \<Rightarrow> map_option Some (claude_message_text m))
      = Some (map_option json_print (map_option (\<lambda>m. JObj (said_json m)) (cr_message r)))"
    using assms said_text_json by (cases "cr_message r") (simp_all add: row_ok_def del: json_print.simps)
  have p: "json_print (case cr_parent r of None \<Rightarrow> JNull | Some p \<Rightarrow> JStr p) = (case cr_parent r of None \<Rightarrow> ''null'' | Some p \<Rightarrow> print_string p)"
    by (cases "cr_parent r") simp_all
  show ?thesis
    by (simp add: row_result_def row_members_def m row_json_def object_text_json [symmetric] omit_maps text_json_text text_json_def
        flag_json_text flag_json_def omit_Some p del: json_print.simps(6))
qed

lemma row_keys:
  "fold_key ''parentUuid'' = ''parentuuid''" "fold_key ''isSidechain'' = ''issidechain''" "fold_key ''userType'' = ''usertype''"
  "fold_key ''sessionId'' = ''sessionid''" "fold_key ''gitBranch'' = ''gitbranch''"
  "fold_key ''isVisibleInTranscriptOnly'' = ''isvisibleintranscriptonly''" "fold_key ''isCompactSummary'' = ''iscompactsummary''"
  "fold_key ''isMeta'' = ''ismeta''" "fold_key ''isApiErrorMessage'' = ''isapierrormessage''"
  "fold_key ''cwd'' = ''cwd''" "fold_key ''version'' = ''version''" "fold_key ''type'' = ''type''" "fold_key ''message'' = ''message''"
  "fold_key ''uuid'' = ''uuid''" "fold_key ''timestamp'' = ''timestamp''"
  by (simp_all add: fold_key_def lower_def in_range_def byte_def char_of_eq_iff)

lemma read_row_written:
  assumes "row_ok r"
  shows "read_row (json_print (JObj (row_json r))) = Some r"
proof -
  note ok = row_json_ok [OF assms] and p = parsed_written [OF row_json_ok [OF assms]]
  note fields = row_json_def dec_field_omits dec_texts dec_flags equal_fold_key row_keys
  have str: "dec_field conv_str ''userType'' (row_json r) [] = (cr_user_type r, True)"
    "dec_field conv_str ''cwd'' (row_json r) [] = (cr_cwd r, True)"
    "dec_field conv_str ''sessionId'' (row_json r) [] = (cr_session r, True)"
    "dec_field conv_str ''version'' (row_json r) [] = (cr_version r, True)"
    "dec_field conv_str ''gitBranch'' (row_json r) [] = (cr_branch r, True)"
    by (simp_all add: fields)
  have str': "dec_field conv_str ''type'' (row_json r) [] = (cr_type r, True)"
    "dec_field conv_str ''uuid'' (row_json r) [] = (cr_uuid r, True)"
    "dec_field conv_str ''timestamp'' (row_json r) [] = (cr_timestamp r, True)"
    by (simp_all add: fields conv_str_def)
  have flags: "dec_field conv_bool ''isSidechain'' (row_json r) False = (cr_sidechain r, True)"
    "dec_field conv_bool ''isVisibleInTranscriptOnly'' (row_json r) False = (cr_transcript_only r, True)"
    "dec_field conv_bool ''isCompactSummary'' (row_json r) False = (cr_summary r, True)"
    "dec_field conv_bool ''isMeta'' (row_json r) False = (cr_meta r, True)"
    "dec_field conv_bool ''isApiErrorMessage'' (row_json r) False = (cr_api_error r, True)"
    by (simp_all add: fields conv_bool_def)
  have parent: "dec_ptr conv_str ''parentUuid'' (row_json r) None = (cr_parent r, True)"
    by (simp add: row_json_def text_json_def flag_json_def dec_ptr_omits equal_fold_key row_keys conv_str_def split: option.split)
  have said: "read_opt read_message ''message'' (written_members (row_json r)) = Some (cr_message r)"
  proof (cases "cr_message r")
    case None
    then show ?thesis by (simp add: read_opt_def row_json_def written_omit dec_struct_omits struct_text_flags equal_fold_key row_keys)
  next
    case (Some m)
    then have m: "said_ok m" using assms by (simp add: row_ok_def)
    from Some show ?thesis
      by (simp add: read_opt_def row_json_def written_omit dec_struct_omits struct_text_flags equal_fold_key row_keys said_json_ok [OF m]
          read_said_written [OF m] del: json_print.simps json_ok.simps)
  qed
  show ?thesis
    by (simp add: read_row_def struct_members_written [OF ok] said p Let_def parent strs_ok_def bools_ok_def str_of_def bool_of_def
        str str' flags del: json_print.simps)
qed

end
