(* ===== verification/Claude_Roundtrip.thy ===== *)
theory Claude_Roundtrip
  imports Claude_Rows
begin

text \<open>
  An entry written for Claude Code and read back: what Claude's form keeps of the blocks, without JSON,
  and that \<open>decode\<close> of what \<open>encode\<close> gives is the entry with that content.
\<close>

section \<open>What survives\<close>

definition kept_media :: "string \<Rightarrow> block \<Rightarrow> block list" where
  "kept_media i b =
     (case media_source b of
        None \<Rightarrow> []
      | Some so \<Rightarrow>
          [(empty_block (b_kind b))\<lparr>b_tool_id := i, b_name := (if b_kind b = BlockFile then b_name b else []),
             b_media_type := so_media_type so, b_data := b_data b, b_uri := so_url so\<rparr>])"

definition kept_block :: "block list \<Rightarrow> block \<Rightarrow> block list" where
  "kept_block content b =
     (case b_kind b of
        BlockText \<Rightarrow> [(empty_block BlockText)\<lparr>b_text := b_text b\<rparr>]
      | BlockReasoning \<Rightarrow>
          (if b_signature b = [] then [] else [(empty_block BlockReasoning)\<lparr>b_text := b_text b, b_signature := b_signature b\<rparr>])
      | BlockToolUse \<Rightarrow>
          [(empty_block BlockToolUse)\<lparr>b_tool_id := b_tool_id b, b_name := b_name b,
             b_input := (if b_input b = [] then ''{}'' else b_input b)\<rparr>]
      | BlockToolResult \<Rightarrow>
          (empty_block BlockToolResult)\<lparr>b_tool_id := b_tool_id b, b_text := b_text b,
             b_status := (if b_status b = StatusError then StatusError else StatusOK)\<rparr>
          # concat (map (kept_media (b_tool_id b)) (filter (\<lambda>m. is_media m \<and> b_tool_id m \<noteq> [] \<and> b_tool_id m = b_tool_id b) content))
      | BlockImage \<Rightarrow> (if b_tool_id b \<noteq> [] then [] else kept_media [] b)
      | BlockFile \<Rightarrow> (if b_tool_id b \<noteq> [] then [] else kept_media [] b)
      | OtherKind _ \<Rightarrow> [])"

definition kept_content :: "block list \<Rightarrow> block list" where
  "kept_content content = concat (map (kept_block content) content)"

text \<open>A block whose strings are text and whose input is JSON.\<close>

definition writable_block :: "block \<Rightarrow> bool" where
  "writable_block b \<longleftrightarrow>
     list_all valid_utf8 [b_text b, b_tool_id b, b_name b, b_media_type b, b_signature b, b_uri b] \<and> raw_ok (b_input b)"

section \<open>Media\<close>

lemma b64_digit_ascii: "d < 64 \<Longrightarrow> byte (b64_digit d) < 0x80"
  by (auto simp: b64_digit_def byte_def)

lemma b64_encode_valid: "valid_utf8 (b64_encode s)"
proof -
  have "byte (CHR ''='') < 0x80" by (simp add: byte_def)
  then have "\<forall>c \<in> set (b64_encode s). byte c < 0x80"
    by (induction s rule: b64_encode.induct) (simp_all add: b64_digit_ascii sextets)
  then show ?thesis by (rule valid_chars)
qed

lemma media_source_facts:
  assumes "media_source b = Some so" "writable_block b"
  shows "source_ok so \<and> is_media b
    \<and> (so_type so = ''base64'' \<and> so_data so = b64_encode (b_data b) \<and> so_url so = []
       \<or> so_type so = ''url'' \<and> b_data b = [] \<and> so_url so = b_uri b
       \<or> so_type so = ''text'' \<and> so_data so = b_data b \<and> so_url so = [])"
  using assms
  by (auto simp: media_source_def base64_source_def url_source_def source_ok_def writable_block_def is_media_def byte_def
      b64_encode_valid split: if_splits)

lemma encode_media_facts:
  assumes "writable_block b"
  shows "case encode_media b of None \<Rightarrow> kept_media i b = []
    | Some cb \<Rightarrow> block_ok cb \<and> is_media_type cb \<and> (\<exists>m. media cb i = Some m \<and> kept_media i b = [m])"
proof (cases "media_source b")
  case None
  then show ?thesis by (simp add: encode_media_def kept_media_def)
next
  case (Some so)
  note f = media_source_facts [OF Some assms]
  have n: "valid_utf8 (b_name b)" using assms by (simp add: writable_block_def)
  have k: "b_kind b = BlockFile \<or> b_kind b = BlockImage" using f by (auto simp: is_media_def)
  show ?thesis
    using f n k Some
    by (auto simp: encode_media_def kept_media_def block_ok_def empty_claude_block_def raw_ok_def is_media_type_def media_def
        media_block_def b64_decode_encode Let_def empty_block_def byte_def)
qed

lemma encode_medias:
  assumes "list_all writable_block bs"
  shows "list_all (\<lambda>cb. block_ok cb \<and> is_media_type cb) (List.map_filter encode_media bs)"
    "List.map_filter (\<lambda>cb. media cb i) (List.map_filter encode_media bs) = concat (map (kept_media i) bs)"
proof -
  show "list_all (\<lambda>cb. block_ok cb \<and> is_media_type cb) (List.map_filter encode_media bs)"
    using assms
  proof (induction bs)
    case (Cons b bs)
    with encode_media_facts [of b i] show ?case by (auto simp: map_filter_simps split: option.splits)
  qed (simp add: map_filter_simps)
  show "List.map_filter (\<lambda>cb. media cb i) (List.map_filter encode_media bs) = concat (map (kept_media i) bs)"
    using assms
  proof (induction bs)
    case (Cons b bs)
    with encode_media_facts [of b i] show ?case by (auto simp: map_filter_simps split: option.splits)
  qed (simp add: map_filter_simps)
qed

section \<open>Blocks\<close>

lemma blocks_of_append: "blocks_of (xs @ ys) = (case (blocks_of xs, blocks_of ys) of (Some x, Some y) \<Rightarrow> Some (x @ y) | _ \<Rightarrow> None)"
  by (induction xs) (auto split: option.splits)

lemma text_part_facts:
  "valid_utf8 t \<Longrightarrow> block_ok (text_part t)" "cb_text (text_part t) = t" "\<not> is_media_type (text_part t)"
  by (simp_all add: text_part_def empty_claude_block_def block_ok_def raw_ok_def byte_def is_media_type_def)

lemma hosted_text_json:
  "array_text [object_text [(''type'', print_string ''text''), (''text'', print_string t)]]
    = json_print (JArr [JObj [(''type'', JStr ''text''), (''text'', JStr t)]])"
  by (simp add: array_text_def object_text_def member_text_def)

lemma hosted_text_read:
  assumes "valid_utf8 t"
  shows "read_blocks (json_print (JArr [JObj [(''type'', JStr ''text''), (''text'', JStr t)]])) = Some [text_part t]"
proof -
  let ?kvs = "[(''type'', JStr ''text''), (''text'', JStr t)]"
  have ok: "json_ok (JObj ?kvs)" using assms by (simp add: byte_def)
  have src: "read_opt read_source ''source'' (written_members ?kvs) = Some None"
    by (simp add: read_opt_def written_members_def message_keys)
  have raw: "last_raw ''input'' (written_members ?kvs) [] = []" "last_raw ''content'' (written_members ?kvs) [] = []"
    by (simp_all add: written_members_def message_keys)
  have flds: "dec_field conv_str ''type'' ?kvs [] = (''text'', True)" "dec_field conv_str ''text'' ?kvs [] = (t, True)"
    "dec_field conv_str ''thinking'' ?kvs [] = ([], True)" "dec_field conv_str ''signature'' ?kvs [] = ([], True)"
    "dec_field conv_str ''id'' ?kvs [] = ([], True)" "dec_field conv_str ''name'' ?kvs [] = ([], True)"
    "dec_field conv_str ''tool_use_id'' ?kvs [] = ([], True)" "dec_field conv_str ''title'' ?kvs [] = ([], True)"
    "dec_field conv_bool ''is_error'' ?kvs False = (False, True)"
    by (simp_all add: message_keys conv_str_def)
  have "read_block (json_print (JObj ?kvs)) = Some (text_part t)"
    unfolding read_block_def struct_members_written [OF ok] strs_ok_def bools_ok_def str_of_def bool_of_def raw_of_def
      parsed_written [OF ok] option.case src raw
    by (simp only: flds list.pred_inject fst_conv snd_conv simp_thms if_True) (simp add: text_part_def empty_claude_block_def)
  moreover have "raw_array (json_print (JArr [JObj ?kvs])) = [json_print (JObj ?kvs)]"
    using raw_array_print [of "[JObj ?kvs]"] ok by (simp del: json_print.simps json_ok.simps)
  moreover have "json_parse (json_print (JArr [JObj ?kvs])) = Some (JArr [JObj ?kvs])"
    by (rule json_parse_print) (use ok in simp)
  ultimately show ?thesis by (simp add: read_blocks_def del: json_print.simps)
qed

lemma read_result:
  assumes "json_ok (JArr js)" "read_blocks (json_print (JArr js)) = Some bs"
  shows "tool_result (json_print (JArr js)) i
    = Some (concat (map cb_text (filter (\<lambda>b. \<not> is_media_type b) bs)), List.map_filter (\<lambda>b. media b i) (filter is_media_type bs))"
  using assms(2) json_print_not_Nil [OF assms(1)]
  by (simp add: tool_result_def content_string_def json_parse_print [OF assms(1)] del: json_print.simps)

lemma result_content_facts:
  assumes "valid_utf8 t" "list_all (\<lambda>cb. block_ok cb \<and> is_media_type cb) returned"
  shows "\<exists>c. returned_content hosted returned t = Some c \<and> is_value c
    \<and> tool_result c i = Some (t, List.map_filter (\<lambda>cb. media cb i) returned)"
proof (cases "returned = []")
  case True
  show ?thesis
  proof (cases hosted)
    case True
    let ?js = "[JObj [(''type'', JStr ''text''), (''text'', JStr t)]]"
    have ok: "json_ok (JArr ?js)" using assms(1) by (simp add: byte_def)
    have "returned_content hosted returned t = Some (json_print (JArr ?js))"
      using True \<open>returned = []\<close> by (simp add: returned_content_def hosted_text_json del: json_print.simps)
    moreover have "is_value (json_print (JArr ?js))" unfolding is_value_def using ok by blast
    moreover have "tool_result (json_print (JArr ?js)) i = Some (t, [])"
      unfolding read_result [OF ok hosted_text_read [OF assms(1)]] by (simp add: text_part_facts map_filter_simps)
    ultimately show ?thesis using \<open>returned = []\<close> by (simp add: map_filter_simps del: json_print.simps)
  next
    case False
    have "json_ok (JStr t)" using assms(1) by simp
    then have "is_value (print_string t)" "json_parse (print_string t) = Some (JStr t)" "print_string t \<noteq> []"
      using json_parse_print [of "JStr t"] by (auto simp: is_value_def print_string_def intro: exI [of _ "JStr t"])
    then show ?thesis
      using True False by (simp add: returned_content_def tool_result_def content_string_def map_filter_simps)
  qed
next
  case False
  let ?bs = "(if t \<noteq> [] then [text_part t] else []) @ returned"
  have ok: "list_all block_ok ?bs" using assms text_part_facts by (auto simp: list_all_iff)
  have m: "filter (\<lambda>b. \<not> is_media_type b) returned = []" "filter is_media_type returned = returned"
    using assms(2) by (auto simp: list_all_iff filter_empty_conv filter_id_conv)
  have "returned_content hosted returned t = Some (json_print (JArr (blocks_json ?bs)))"
    using False blocks_array_json [OF ok] by (simp add: returned_content_def del: json_print.simps)
  moreover have "is_value (json_print (JArr (blocks_json ?bs)))" unfolding is_value_def using blocks_json_ok [OF ok] by blast
  moreover have "tool_result (json_print (JArr (blocks_json ?bs))) i = Some (t, List.map_filter (\<lambda>cb. media cb i) returned)"
    unfolding read_result [OF blocks_json_ok [OF ok] read_blocks_written [OF ok]]
    using m text_part_facts by simp
  ultimately show ?thesis by blast
qed

lemma valid_braces: "is_value ''{}''"
  unfolding is_value_def by (intro exI [of _ "JObj []"]) simp

lemma encode_block_facts:
  assumes "list_all writable_block content" "writable_block b"
  shows "\<exists>cbs. encode_block hosted content b = Some cbs \<and> list_all block_ok cbs
    \<and> blocks_of cbs = Some (kept_block content b) \<and> (cbs = [] \<longleftrightarrow> kept_block content b = [])"
proof (cases "b_kind b")
  case BlockToolResult
  let ?ms = "filter (\<lambda>m. is_media m \<and> b_tool_id m \<noteq> [] \<and> b_tool_id m = b_tool_id b) content"
  have "list_all writable_block ?ms" using assms(1) by (auto simp: list_all_iff)
  note em = encode_medias [OF this, folded returned_by_def]
  from assms(2) have t: "valid_utf8 (b_text b)" "valid_utf8 (b_tool_id b)" by (simp_all add: writable_block_def)
  from result_content_facts [OF t(1) em(1)] obtain c where
    c: "returned_content hosted (returned_by content (b_tool_id b)) (b_text b) = Some c" "is_value c"
    "tool_result c (b_tool_id b) = Some (b_text b, List.map_filter (\<lambda>cb. media cb (b_tool_id b)) (returned_by content (b_tool_id b)))"
    by blast
  show ?thesis
    using BlockToolResult c em(2) [of "b_tool_id b"] t
    by (auto simp: encode_block_def kept_block_def block_ok_def raw_ok_def empty_claude_block_def block_of_def is_media_type_def byte_def)
next
  case BlockToolUse
  then show ?thesis
    using assms(2) valid_braces
    by (auto simp: encode_block_def kept_block_def block_ok_def raw_ok_def empty_claude_block_def block_of_def byte_def writable_block_def)
next
  case BlockImage
  then show ?thesis
    using encode_media_facts [OF assms(2), of "[]"]
    by (auto simp: encode_block_def kept_block_def block_of_def is_media_type_def split: option.splits)
next
  case BlockFile
  then show ?thesis
    using encode_media_facts [OF assms(2), of "[]"]
    by (auto simp: encode_block_def kept_block_def block_of_def is_media_type_def split: option.splits)
qed (use assms(2) in \<open>auto simp: encode_block_def kept_block_def text_part_def block_ok_def raw_ok_def empty_claude_block_def
      block_of_def byte_def writable_block_def\<close>)

lemma encode_blocks_facts:
  assumes "list_all writable_block content"
  shows "list_all writable_block bs \<Longrightarrow> \<exists>cbs. encode_blocks hosted content bs = Some cbs \<and> list_all block_ok cbs
    \<and> blocks_of cbs = Some (concat (map (kept_block content) bs)) \<and> (cbs = [] \<longleftrightarrow> concat (map (kept_block content) bs) = [])"
proof (induction bs)
  case (Cons b bs)
  then obtain cbs where "encode_blocks hosted content bs = Some cbs" "list_all block_ok cbs"
    "blocks_of cbs = Some (concat (map (kept_block content) bs))" "cbs = [] \<longleftrightarrow> concat (map (kept_block content) bs) = []" by auto
  moreover from encode_block_facts [OF assms, of b hosted] Cons.prems obtain cs where "encode_block hosted content b = Some cs"
    "list_all block_ok cs" "blocks_of cs = Some (kept_block content b)" "cs = [] \<longleftrightarrow> kept_block content b = []" by auto
  ultimately show ?case by (simp add: blocks_of_append)
qed simp

section \<open>Times\<close>

lemma pad_ascii: "\<forall>c \<in> set (pad w n). byte c < 0x80"
  using show_nat_ascii by (auto simp: pad_def Let_def byte_def)

lemma format_millis_valid: "valid_utf8 (format_millis t)" "format_millis t \<noteq> []"
proof -
  obtain y mo d where d: "date_of t = (y, mo, d)" by (cases "date_of t")
  have "\<forall>c \<in> set (format_millis t). byte c < 0x80"
    using pad_ascii by (auto simp: format_millis_def d Let_def byte_def)
  then show "valid_utf8 (format_millis t)" by (rule valid_chars)
  show "format_millis t \<noteq> []" by (simp add: format_millis_def d Let_def)
qed

section \<open>The row of an entry\<close>

definition time_written :: "claude_vendor session \<Rightarrow> entry \<Rightarrow> int" where
  "time_written s e = (if e_time e = 0 then s_updated s else e_time e)"

text \<open>An entry and a session whose strings are text, with a time a row can hold.\<close>

definition writable_entry :: "claude_vendor session \<Rightarrow> entry \<Rightarrow> bool" where
  "writable_entry s e \<longleftrightarrow>
     list_all valid_utf8 [e_id e, e_parent e, s_cwd s, s_id s, s_model s, cv_version (vendor_of s), cv_branch (vendor_of s), cv_model (vendor_of s)]
     \<and> e_id e \<noteq> [] \<and> list_all writable_block (e_content e) \<and> writable (time_written s e)"

text \<open>A message of one's own: not the summary of a compaction and not an attachment.\<close>

definition plain_message :: "claude_vendor session \<Rightarrow> entry \<Rightarrow> bool" where
  "plain_message s e \<longleftrightarrow>
     e_role e \<in> {RoleUser, RoleTool, RoleAssistant}
     \<and> cv_summary_of (vendor_of s) (e_parent e) \<noteq> Some (e_id e) \<and> cv_attachments (vendor_of s) (e_id e) = None"

definition kept_entry :: "claude_vendor session \<Rightarrow> entry \<Rightarrow> entry" where
  "kept_entry s e =
     (let content = kept_content (e_content e); t = time_written s e in
      Entry (e_id e) (e_parent e)
        (if e_role e = RoleAssistant then RoleAssistant else if only_tool_results content then RoleTool else RoleUser)
        (t - t mod 1000000) content None AudienceAll None None)"

definition entry_row :: "entry \<Rightarrow> claude_vendor session \<Rightarrow> string \<Rightarrow> claude_row" where
  "entry_row e s content =
     (let v = vendor_of s; said = (e_role e = RoleAssistant); role = (if said then ''assistant'' else ''user'') in
      (stamped e s v role)
        \<lparr>cr_message := Some \<lparr>cm_role = role, cm_content = content, cm_id = (if said then ''msg_'' @ e_id e else []),
           cm_type = (if said then ''message'' else []),
           cm_model = (if said then if cv_model v = [] then s_model s else cv_model v else []),
           cm_stop_reason = None, cm_stop_sequence = None, cm_usage = (if said then Some (0, 0) else None)\<rparr>\<rparr>)"

lemma entry_row_ok: "writable_entry s e \<Longrightarrow> is_value content \<Longrightarrow> row_ok (entry_row e s content)"
  by (auto simp: entry_row_def Let_def stamped_def row_ok_def said_ok_def writable_entry_def time_written_def given_def
      format_millis_valid claude_version_def byte_def int64_ok_def)

lemma claude_encode_entry:
  assumes "plain_message s e" "encode_blocks (cv_hosted (vendor_of s)) (e_content e) (e_content e) = Some cbs"
    "list_all block_ok cbs" "cbs \<noteq> []" "writable_entry s e"
  shows "claude_encode e s = Inr (json_print (JObj (row_json (entry_row e s (json_print (JArr (blocks_json cbs)))))))"
proof -
  define c where "c = json_print (JArr (blocks_json cbs))"
  have v: "is_value c" unfolding is_value_def c_def using blocks_json_ok [OF assms(3)] by blast
  obtain x xs where cbs: "cbs = x # xs" using assms(4) by (cases cbs) auto
  have arr: "blocks_array (x # xs) = Some c" using blocks_array_json [OF assms(3)] by (simp add: c_def cbs del: json_print.simps)
  have "claude_encode e s = encode_message e s (vendor_of s) (if e_role e = RoleAssistant then ''assistant'' else ''user'')"
    using assms(1) by (auto simp: claude_encode_def plain_message_def Let_def)
  also have "\<dots> = row_result (row_members (entry_row e s c)) []"
    using assms(2) by (simp add: encode_message_def arr cbs entry_row_def Let_def)
  also have "\<dots> = Inr (json_print (JObj (row_json (entry_row e s c))))"
    by (rule row_text_json [OF entry_row_ok [OF assms(5) v]])
  finally show ?thesis unfolding c_def .
qed

lemma claude_decode_entry:
  assumes "list_all block_ok cbs" "blocks_of cbs = Some (kept_content (e_content e))" "writable_entry s e" "plain_message s e"
  shows "\<exists>s1. claude_decode (json_print (JObj (row_json (entry_row e s (json_print (JArr (blocks_json cbs))))))) s0
    = Inr (Some (kept_entry s e), s1)"
proof -
  let ?c = "json_print (JArr (blocks_json cbs))" and ?r = "entry_row e s (json_print (JArr (blocks_json cbs)))"
  note ok = blocks_json_ok [OF assms(1)]
  have v: "is_value ?c" unfolding is_value_def using ok by blast
  have c: "content_blocks ?c = Some (kept_content (e_content e))"
    using json_print_not_Nil [OF ok] assms(2)
    by (simp add: content_blocks_def content_string_def json_parse_print [OF ok] read_blocks_written [OF assms(1)] del: json_print.simps)
  have t: "parse_rfc3339 (cr_timestamp ?r) = Some (time_written s e - time_written s e mod 1000000)" "cr_timestamp ?r \<noteq> []"
    using time_roundtrip [of "time_written s e"] assms(3) format_millis_valid
    by (simp_all add: entry_row_def stamped_def Let_def time_written_def writable_entry_def)
  define T where "T = time_written s e - time_written s e mod 1000000"
  have f: "cr_uuid ?r = e_id e" "cr_parent ?r = given (e_parent e)" "\<not> cr_sidechain ?r" "\<not> cr_meta ?r" "\<not> cr_transcript_only ?r"
    "\<not> cr_api_error ?r" "cr_type ?r = (if e_role e = RoleAssistant then ''assistant'' else ''user'')" "e_id e \<noteq> []"
    using assms(3) by (simp_all add: entry_row_def stamped_def Let_def writable_entry_def)
  obtain m where m: "cr_message ?r = Some m" "cm_content m = ?c" "cm_role m = cr_type ?r"
    by (simp add: entry_row_def stamped_def Let_def)
  have rd: "read_row (json_print (JObj (row_json ?r))) = Some ?r"
    by (rule read_row_written [OF entry_row_ok [OF assms(3) v]])
  show ?thesis
    using f t m c unfolding claude_decode_def rd
    by (auto simp: Let_def kept_entry_def audience_of_def role_of_def given_def split: option.splits)
qed

section \<open>Properties\<close>

text \<open>C6. What is written for Claude Code reads back: a message's row is JSON, left out only when Claude has no
  form for any of its blocks, and decodes, in whatever session it is read, to an entry with the same id,
  parent, side of the conversation and audience, the time cut to the millisecond, and the blocks
  \<open>kept_content\<close> names: all text, calls, results with what they returned behind them and signed
  reasoning, and the media the API takes.\<close>

theorem claude_row_roundtrip:
  assumes "writable_entry s e" "plain_message s e"
  shows "case claude_encode e s of
      Inl _ \<Rightarrow> False
    | Inr row \<Rightarrow> if kept_content (e_content e) = [] then row = []
                else \<exists>s1. claude_decode row s0 = Inr (Some (kept_entry s e), s1)"
proof -
  have "list_all writable_block (e_content e)" using assms(1) by (simp add: writable_entry_def)
  from encode_blocks_facts [OF this this, of "cv_hosted (vendor_of s)"] obtain cbs where
    cbs: "encode_blocks (cv_hosted (vendor_of s)) (e_content e) (e_content e) = Some cbs" "list_all block_ok cbs"
      "blocks_of cbs = Some (kept_content (e_content e))" "cbs = [] \<longleftrightarrow> kept_content (e_content e) = []"
    unfolding kept_content_def by blast
  show ?thesis
  proof (cases "cbs = []")
    case True
    with cbs assms(2) have "claude_encode e s = Inr []"
      by (auto simp: claude_encode_def plain_message_def Let_def encode_message_def)
    with True cbs(4) show ?thesis by simp
  next
    case False
    with claude_encode_entry [OF assms(2) cbs(1,2) False assms(1)] claude_decode_entry [OF cbs(2,3) assms] cbs(4)
    show ?thesis by (simp del: json_print.simps)
  qed
qed

definition sample_reply :: entry where
  "sample_reply =
     Entry ''b'' ''a'' RoleAssistant 1500000
       [(empty_block BlockText)\<lparr>b_text := ''done''\<rparr>, (empty_block BlockToolUse)\<lparr>b_tool_id := ''t'', b_name := ''ls''\<rparr>]
       None AudienceAll None None"

theorem claude_row_roundtrip_witness:
  "\<exists>row s1. claude_encode sample_reply (new_session ''s'' ''claude'' 1) = Inr row
     \<and> claude_decode row (new_session ''s'' ''claude'' 1) = Inr (Some
         (Entry ''b'' ''a'' RoleAssistant 1000000
           [(empty_block BlockText)\<lparr>b_text := ''done''\<rparr>,
            (empty_block BlockToolUse)\<lparr>b_tool_id := ''t'', b_name := ''ls'', b_input := ''{}''\<rparr>] None AudienceAll None None), s1)"
proof -
  let ?s = "new_session ''s'' ''claude'' 1 :: claude_vendor session"
  have k: "kept_content (e_content sample_reply) = [(empty_block BlockText)\<lparr>b_text := ''done''\<rparr>,
      (empty_block BlockToolUse)\<lparr>b_tool_id := ''t'', b_name := ''ls'', b_input := ''{}''\<rparr>]"
    by (simp add: kept_content_def kept_block_def sample_reply_def empty_block_def)
  have "writable_entry ?s sample_reply"
    by (simp add: writable_entry_def sample_reply_def new_session_def vendor_of_def no_vendor_def writable_block_def empty_block_def
        raw_ok_def byte_def time_written_def writable_def year_start_def day_nanos_def nanos_def)
  moreover have "plain_message ?s sample_reply"
    by (simp add: plain_message_def sample_reply_def new_session_def vendor_of_def no_vendor_def)
  moreover have "kept_entry ?s sample_reply = Entry ''b'' ''a'' RoleAssistant 1000000 (kept_content (e_content sample_reply)) None AudienceAll None None"
    by (simp add: kept_entry_def Let_def sample_reply_def time_written_def)
  ultimately show ?thesis
    using claude_row_roundtrip [of ?s sample_reply ?s] k by (auto split: sum.splits)
qed

end
