(* ===== verification/Claude_Parallel.thy ===== *)
theory Claude_Parallel
  imports Claude_Finish
begin

text \<open>
  What \<open>recoverParallel\<close> and \<open>mergeSplit\<close> are for (\<open>transcript/claude/resume.go\<close>): an API message streamed
  as several rows comes back whole, with the result of each of its tool calls, and its blocks end up in
  one entry without any being lost.
\<close>

section \<open>Parallel tool calls\<close>

lemma fresh_covers: "set xs \<subseteq> set (fresh seen xs) \<union> set seen"
  by (auto simp: fresh_def)

lemma window_at_covers:
  assumes "window_at l chain seen k = (w, seen')" "m \<in> set (members_of l (msg_id (row_at l (chain ! k))))"
  shows "m \<in> set seen'" "set (results_of l (mt_uuid (row_at l m))) \<subseteq> set seen'"
  using assms by (auto simp: window_at_def Let_def fresh_def)

text \<open>A message and what answers it.\<close>

definition message_rows :: "loader \<Rightarrow> string \<Rightarrow> nat set" where
  "message_rows l i =
     set (members_of l i) \<union> (\<Union>m \<in> set (members_of l i). set (results_of l (mt_uuid (row_at l m))))"

lemma windows_cover:
  "list_all (\<lambda>k. k < length chain) ks \<Longrightarrow> k \<in> set ks \<Longrightarrow> mt_type (row_at l (chain ! k)) = ''assistant'' \<Longrightarrow>
   msg_id (row_at l (chain ! k)) = i \<Longrightarrow> i \<noteq> [] \<Longrightarrow> i \<notin> set don \<Longrightarrow>
   message_rows l i \<subseteq> set seen \<union> set (concat (map brought (windows l chain seen don ks)))"
proof (induction ks arbitrary: seen don)
  case (Cons j ks)
  let ?m = "row_at l (chain ! j)"
  show ?case
  proof (cases "mt_type ?m \<noteq> ''assistant'' \<or> msg_id ?m = [] \<or> msg_id ?m \<in> set don")
    case True
    with Cons.prems have "k \<in> set ks" by auto
    from Cons.IH [OF _ this Cons.prems(3-6), of seen] Cons.prems(1) True show ?thesis by (simp add: Let_def)
  next
    case False
    obtain w seen' where w: "window_at l chain seen j = (w, seen')" by fastforce
    have j: "j < length chain" using Cons.prems(1) by simp
    note seen' = window_at_facts(2) [OF j w]
    let ?rest = "windows l chain seen' (msg_id ?m # don) ks"
    have step: "windows l chain seen don (j # ks) = (if wn_recovered w = [] \<and> wn_after w = [] then [] else [w]) @ ?rest"
      using False w by (simp add: Let_def)
    have all: "set (concat (map brought (windows l chain seen don (j # ks)))) = set (brought w) \<union> set (concat (map brought ?rest))"
      unfolding step by (auto simp: brought_def)
    show ?thesis
    proof (cases "msg_id ?m = i")
      case True
      then have "message_rows l i \<subseteq> set seen'" using window_at_covers [OF w] by (auto simp: message_rows_def)
      then show ?thesis unfolding all seen' by blast
    next
      case other: False
      with Cons.prems have "k \<in> set ks" by auto
      from Cons.IH [OF _ this Cons.prems(3-5), of "msg_id ?m # don" seen'] Cons.prems(1,6) other
      show ?thesis unfolding all seen' by auto
    qed
  qed
qed simp

text \<open>C4. A message streamed as several rows, of which the walk over parents keeps one branch, comes back
  whole: for every assistant row on the chain, the resumed chain has each live row of its message and the
  tool results that answer any of them; what the chain had it keeps, and no row comes twice.\<close>

theorem parallel_calls_recovered:
  assumes "distinct chain" "c \<in> set chain" "mt_type (row_at l c) = ''assistant''" "msg_id (row_at l c) \<noteq> []"
  shows "message_rows l (msg_id (row_at l c)) \<subseteq> set (recover_parallel l chain)
    \<and> set chain \<subseteq> set (recover_parallel l chain) \<and> distinct (recover_parallel l chain)"
proof -
  let ?ws = "windows l chain chain [] [0..<length chain]"
  obtain k where k: "k < length chain" "chain ! k = c" using assms(2) by (auto simp: in_set_conv_nth)
  have "message_rows l (msg_id (row_at l c)) \<subseteq> set chain \<union> set (concat (map brought ?ws))"
    by (rule windows_cover [where k = k]) (use k assms(3,4) in \<open>simp_all add: list_all_iff\<close>)
  moreover have m: "mset (recover_parallel l chain) = mset (chain @ concat (map brought ?ws))"
    by (rule recover_parallel_mset [OF assms(1)])
  moreover have "set (recover_parallel l chain) = set (chain @ concat (map brought ?ws))" using m by (metis set_mset_mset)
  moreover have "distinct (chain @ concat (map brought ?ws))"
    using windows_facts [of chain "[0..<length chain]" l chain "[]"] assms(1) by (auto simp: new_rows_def list_all_iff)
  ultimately show ?thesis using mset_eq_imp_distinct_iff [OF m] by auto
qed

text \<open>Two calls of one message, the first result off the walk.\<close>

definition called :: "string \<Rightarrow> string \<Rightarrow> claude_meta" where
  "called i msg = no_meta\<lparr>mt_type := ''assistant'', mt_uuid := i, mt_message := Some msg\<rparr>"

definition answered :: "string \<Rightarrow> claude_meta" where
  "answered i = no_meta\<lparr>mt_type := ''user'', mt_uuid := i\<rparr>"

definition fanned_out :: loader where
  "fanned_out =
     (let rows = [answered ''p'', called ''a'' ''m'', called ''b'' ''m'', answered ''x'', answered ''y'', called ''f'' ''n''];
          row = (\<lambda>i parent k. Entry i parent RoleUser 0 [empty_block k] None AudienceAll None None)
      in \<lparr>ld_rows = rows,
          ld_entries = [row ''p'' [] BlockText, row ''a'' ''p'' BlockToolUse, row ''b'' ''a'' BlockToolUse,
            row ''x'' ''a'' BlockToolResult, row ''y'' ''b'' BlockToolResult, row ''f'' ''y'' BlockText],
          ld_ids = index_rows 0 rows Map.empty\<rparr>)"

theorem parallel_calls_recovered_witness: "chain_to fanned_out 5 = [0, 1, 2, 4, 5] \<and> 3 \<in> set (recover_parallel fanned_out [0, 1, 2, 4, 5])"
proof -
  have w: "chain_to fanned_out 5 = [0, 1, 2, 4, 5]" by code_simp
  have c: "mt_type (row_at fanned_out 2) = ''assistant''" "msg_id (row_at fanned_out 2) = ''m''" by code_simp+
  have "1 \<in> set (members_of fanned_out ''m'') \<and> 3 \<in> set (results_of fanned_out (mt_uuid (row_at fanned_out 1)))" by code_simp
  then have "3 \<in> message_rows fanned_out ''m''" unfolding message_rows_def by blast
  with parallel_calls_recovered [of "[0, 1, 2, 4, 5]" 2 fanned_out] c w show ?thesis by auto
qed

section \<open>Messages split over rows\<close>

text \<open>The blocks the entries of a chain hold, in no order.\<close>

definition blocks_in :: "entry list \<Rightarrow> block multiset" where
  "blocks_in es = mset (concat (map e_content es))"

lemma mset_concat_update:
  "i < length xs \<Longrightarrow> mset (concat (map f (xs[i := x]))) + mset (f (xs ! i)) = mset (concat (map f xs)) + mset (f x)"
proof (induction xs arbitrary: i)
  case (Cons y ys)
  then show ?case by (cases i) (auto simp: ac_simps)
qed simp

lemma blocks_in_update: "i < length es \<Longrightarrow> blocks_in (es[i := x]) + mset (e_content (es ! i)) = blocks_in es + mset (e_content x)"
  unfolding blocks_in_def by (rule mset_concat_update)

lemma merge_target_row: "merge_target i ms = Some at \<Longrightarrow> \<exists>m \<in> set ms. am_row m = Some at"
  by (induction i ms rule: merge_target.induct) (auto split: if_splits option.splits)

lemma merge_split_blocks:
  "distinct is \<Longrightarrow> \<forall>i \<in> set is. i < length es \<Longrightarrow>
   \<forall>m \<in> set out. \<forall>at. am_row m = Some at \<longrightarrow> at < length es \<and> at \<notin> set is \<Longrightarrow>
   blocks_in (merge_split rows out is es) = blocks_in es"
proof (induction rows out "is" es rule: merge_split.induct)
  case (2 rows out i js es)
  show ?case
  proof (cases "e_role (es ! i) = RoleOpaque \<or> \<not> for_model (e_audience (es ! i)) \<or> e_role (es ! i) \<noteq> RoleAssistant")
    case True
    with "2.IH" "2.prems" show ?thesis by (auto simp: Let_def split: list.split)
  next
    case False
    show ?thesis
    proof (cases "merge_target (msg_id (rows ! i)) out")
      case None
      with False "2.IH" "2.prems" show ?thesis by (auto simp: Let_def)
    next
      case (Some at)
      from merge_target_row [OF Some] "2.prems"(3) have at: "at < length es" "at \<noteq> i" by auto
      have i: "i < length es" using "2.prems"(2) by simp
      let ?m = "es[at := set_content (e_content (es ! at) @ e_content (es ! i)) (es ! at)]"
      let ?n = "?m[i := set_role RoleOpaque (set_content [] (es ! i))]"
      have "blocks_in ?m = blocks_in es + mset (e_content (es ! i))"
        using blocks_in_update [OF at(1), of "set_content (e_content (es ! at) @ e_content (es ! i)) (es ! at)"] by simp
      moreover have "blocks_in ?n + mset (e_content (es ! i)) = blocks_in ?m"
        using blocks_in_update [of i ?m "set_role RoleOpaque (set_content [] (es ! i))"] i at(2) by simp
      ultimately have "blocks_in ?n = blocks_in es" by simp
      moreover have "merge_split rows out (i # js) es = merge_split rows out js ?n" using False Some by (simp add: Let_def)
      moreover have "blocks_in (merge_split rows out js ?n) = blocks_in ?n"
        using "2.prems" by (intro "2.IH"(4) [OF refl _ _ Some]) (use False in auto)
      ultimately show ?thesis by simp
    qed
  qed
qed simp

text \<open>C23. Putting the rows of an API message together loses nothing: whatever the chain, the blocks of all
  entries together are the same before and after, and no id, parent or stored row changes.\<close>

theorem merge_keeps_blocks:
  assumes "distinct chain" "\<forall>i \<in> set chain. i < length es"
  shows "blocks_in (merge_split rows [] chain es) = blocks_in es \<and> frame (merge_split rows [] chain es) = frame es"
  using merge_split_blocks [OF assms, of "[]" rows] merge_split_frame by simp

definition split_reply :: "entry list" where
  "split_reply =
     [Entry ''a'' [] RoleAssistant 0 [(empty_block BlockText)\<lparr>b_text := ''x''\<rparr>] None AudienceAll None None,
      Entry ''b'' ''a'' RoleAssistant 0 [(empty_block BlockText)\<lparr>b_text := ''y''\<rparr>] None AudienceAll None None]"

theorem merge_keeps_blocks_witness:
  "let es = merge_split [called ''a'' ''m'', called ''b'' ''m''] [] [0, 1] split_reply in
     map b_text (e_content (es ! 0)) = [''x'', ''y''] \<and> e_content (es ! 1) = [] \<and> blocks_in es = blocks_in split_reply"
proof -
  let ?es = "merge_split [called ''a'' ''m'', called ''b'' ''m''] [] [0, 1] split_reply"
  have "map b_text (e_content (?es ! 0)) = [''x'', ''y''] \<and> e_content (?es ! 1) = []" by code_simp
  moreover have "blocks_in ?es = blocks_in split_reply"
    using merge_keeps_blocks [of "[0, 1]" split_reply "[called ''a'' ''m'', called ''b'' ''m'']"] by (simp add: split_reply_def)
  ultimately show ?thesis unfolding Let_def by blast
qed

end
