(* ===== verification/Claude_Stamp.thy ===== *)
theory Claude_Stamp
  imports Claude_Write
begin

text \<open>
  The times of the rows a write adds (\<open>stamp\<close>, \<open>transcript/claude/resume.go\<close>): Claude's older loader goes
  by time, so each must be later than every row before it, also after the row has lost what is finer
  than a millisecond.
\<close>

lemma set_time_sel [simp]:
  "e_time (set_time t e) = t" "e_id (set_time t e) = e_id e" "e_raw (set_time t e) = e_raw e" "e_role (set_time t e) = e_role e"
  "e_compaction (set_time t e) = e_compaction e" "e_content (set_time t e) = e_content e" "e_parent (set_time t e) = e_parent e"
  by (cases e, simp)+

lemma created_set_time [simp]: "created (set_time t e) \<longleftrightarrow> created e"
  by (simp add: created_def)

definition cut_time :: "int \<Rightarrow> int" where
  "cut_time t = t - t mod millis"

lemma cut_time_cut: "cut_time (cut_time t) = cut_time t"
  by (simp add: cut_time_def minus_mod_eq_mult_div)

lemma next_time_after: "prev < cut_time (next_time clock updated prev t)" "prev < next_time clock updated prev t"
proof -
  have bound: "0 \<le> x mod millis" "x mod millis < millis" for x by (simp_all add: millis_def)
  have "prev < cut_time (prev + millis)"
    using bound [of prev] by (simp add: cut_time_def)
  then show c: "prev < cut_time (next_time clock updated prev t)"
    using cut_time_cut by (auto simp: next_time_def Let_def cut_time_def)
  have "cut_time x \<le> x" for x using bound(1) [of x] by (simp add: cut_time_def)
  from less_le_trans [OF c this] show "prev < next_time clock updated prev t" .
qed

text \<open>Rows in order: a created row's written time is after \<open>prev\<close> and after every row before it.\<close>

fun after_all :: "int \<Rightarrow> entry list \<Rightarrow> bool" where
  "after_all prev [] = True"
| "after_all prev (e # es) \<longleftrightarrow> (created e \<longrightarrow> prev < cut_time (e_time e)) \<and> after_all (max (e_time e) prev) es"

lemma stamp_rows_after: "after_all prev (stamp_rows clock updated i prev es)"
proof (induction es arbitrary: i prev)
  case (Cons e es)
  show ?case
  proof (cases "created e")
    case True
    let ?t = "next_time (clock i) updated prev (e_time e)"
    have "max ?t prev = ?t" using next_time_after(2) [of prev "clock i" updated "e_time e"] by simp
    with True Cons.IH [of ?t "Suc i"] next_time_after(1) show ?thesis by (simp add: Let_def)
  qed (use Cons.IH in simp)
qed simp

lemma after_all_nth: "after_all prev es \<Longrightarrow> i < length es \<Longrightarrow> created (es ! i) \<Longrightarrow>
  prev < cut_time (e_time (es ! i)) \<and> (\<forall>j < i. e_time (es ! j) < cut_time (e_time (es ! i)))"
proof (induction es arbitrary: prev i)
  case (Cons e es)
  show ?case
  proof (cases i)
    case (Suc k)
    with Cons.prems have "after_all (max (e_time e) prev) es" "k < length es" "created (es ! k)" by auto
    from Cons.IH [OF this] have IH: "max (e_time e) prev < cut_time (e_time (es ! k))"
      "\<forall>j < k. e_time (es ! j) < cut_time (e_time (es ! k))" by blast+
    have "e_time ((e # es) ! j) < cut_time (e_time (es ! k))" if "j < Suc k" for j
      using that IH by (cases j) auto
    with IH Suc show ?thesis by simp
  qed (use Cons in simp)
qed simp

text \<open>C21. Rows a write adds come after every row before them in time, old or new, whatever times the session
  and the clock give: also the time as it is written, cut to the millisecond, is later, so that a loader
  that resumes from the latest time finds the last row written.\<close>

theorem stamped_in_order:
  assumes "claude_prepare clock new s = Inr s'" "i < length (s_entries s')" "created (s_entries s' ! i)" "j < i"
  shows "e_time (s_entries s' ! j) < cut_time (e_time (s_entries s' ! i))"
proof -
  have "after_all 0 (s_entries s')"
    using assms(1) stamp_rows_after by (auto simp: claude_prepare_def Let_def)
  from after_all_nth [OF this assms(2,3)] assms(4) show ?thesis by blast
qed

theorem stamped_in_order_witness:
  "let s = (new_session ''s'' ''claude'' 7)\<lparr>s_entries :=
       [Entry ''a'' [] RoleUser 3000000 [] None AudienceAll None (Some ''{}''), Entry [] [] RoleUser 0 [] None AudienceAll None None]\<rparr>
   in case claude_prepare (\<lambda>_. 9) (\<lambda>_. []) s of
        Inl _ \<Rightarrow> False | Inr s' \<Rightarrow> e_time (s_entries s' ! 0) = 3000000 \<and> 3000000 < cut_time (e_time (s_entries s' ! 1))"
proof -
  let ?s = "(new_session ''s'' ''claude'' 7)\<lparr>s_entries :=
       [Entry ''a'' [] RoleUser 3000000 [] None AudienceAll None (Some ''{}''), Entry [] [] RoleUser 0 [] None AudienceAll None None]\<rparr> :: claude_vendor session"
  obtain s' where s': "claude_prepare (\<lambda>_. 9) (\<lambda>_. []) ?s = Inr s'"
    "s_entries s' = [Entry ''a'' [] RoleUser 3000000 [] None AudienceAll None (Some ''{}''),
       Entry [] [] RoleUser 4000000 [] None AudienceAll None None]"
    by (simp add: claude_prepare_def compactions_def Let_def new_session_def created_def next_time_def millis_def)
  from stamped_in_order [OF s'(1), of 1 0] s' show ?thesis by (simp add: created_def)
qed

end
