(* ===== verification/Transcript_Lower.thy ===== *)
theory Transcript_Lower
  imports Transcript_Portable
begin

text \<open>
  What reducing a session to what a writer can record (\<open>Lower\<close>, \<open>transcript/transcript.go\<close>) does to the
  context of the model: nothing, but for text files written as text, where no \<open>Keep\<close> names an entry that
  is left out; and what is lost where one does.
\<close>

section \<open>Text files as text\<close>

lemma as_text_again [simp]: "as_text (as_text b) = as_text b"
  by (simp add: as_text_def Let_def empty_block_def)

lemma as_text_same: "b_kind (as_text b) = b_kind b \<Longrightarrow> as_text b = b"
  by (auto simp: as_text_def Let_def empty_block_def split: if_splits)

lemma text_files_map: "text_files e = set_content (map as_text (e_content e)) e"
proof (cases "list_ex (\<lambda>b. b_kind (as_text b) \<noteq> b_kind b) (e_content e)")
  case False
  then have "map as_text (e_content e) = e_content e"
    by (intro map_idI as_text_same) (auto simp: list_ex_iff)
  with False show ?thesis by (cases e) (simp add: text_files_def)
qed (simp add: text_files_def)

lemma text_files_sel [simp]:
  "e_id (text_files e) = e_id e" "e_parent (text_files e) = e_parent e" "e_role (text_files e) = e_role e"
  "e_audience (text_files e) = e_audience e" "e_compaction (text_files e) = e_compaction e"
  "e_model_content (text_files e) = e_model_content e" "model_reads (text_files e) = model_reads e"
  by (simp_all add: text_files_map model_reads_def)

lemma text_files_content: "b \<in> set (e_content (text_files e)) \<Longrightarrow> as_text b = b"
  by (auto simp: text_files_map)

section \<open>Compactions over entries with their files written as text\<close>

lemma keep_index_text: "keep_index c (take n (map text_files es)) = keep_index c (take n es)"
proof -
  have "map e_id (take n (map text_files es)) = map e_id (take n es)" by (simp add: take_map)
  from index_of_ids [OF this] show ?thesis by (simp add: keep_index_def)
qed

definition plain_summary :: "entry \<Rightarrow> bool" where
  "plain_summary e \<longleftrightarrow> (\<forall>c. e_compaction e = Some c \<longrightarrow> list_all (\<lambda>m. text_files m = m) (c_summary c))"

definition keep_start :: "compaction \<Rightarrow> nat \<Rightarrow> entry list \<Rightarrow> nat" where
  "keep_start c at es = (case keep_index c (take at es) of None \<Rightarrow> length es | Some k \<Rightarrow> k)"

lemma keep_start_text [simp]: "keep_start c at (map text_files es) = keep_start c at es"
  by (cases "keep_index c (take at es)") (simp_all add: keep_start_def keep_index_text)

lemma apply_from_marker:
  "e_compaction e = Some c \<Longrightarrow>
   apply_from inc whole at got (e # es)
     = apply_from inc whole (Suc at) (map (\<lambda>m. (at, m)) (c_summary c) @ filter (\<lambda>p. keep_start c at whole \<le> fst p) got) es"
  by (simp add: keep_start_def Let_def)

lemma filter_apsnd: "filter (\<lambda>p. n \<le> fst p) (map (apsnd f) xs) = map (apsnd f) (filter (\<lambda>p. n \<le> fst p) xs)"
  by (simp add: filter_map o_def)

lemma apply_from_text:
  "list_all plain_summary es \<Longrightarrow>
   apply_from model_reads (map text_files whole) at (map (apsnd text_files) got) (map text_files es)
     = map (apsnd text_files) (apply_from model_reads whole at got es)"
proof (induction es arbitrary: at got)
  case (Cons e es)
  show ?case
  proof (cases "e_compaction e")
    case None
    with Cons.IH [of "Suc at" "got @ [(at, e)]"] Cons.IH [of "Suc at" got] Cons.prems show ?thesis by (cases "model_reads e") simp_all
  next
    case (Some c)
    have "map (\<lambda>m. (at, m)) (c_summary c) = map (apsnd text_files) (map (\<lambda>m. (at, m)) (c_summary c))"
      using Cons.prems Some by (auto simp: plain_summary_def list_all_iff)
    then have got: "map (\<lambda>m. (at, m)) (c_summary c) @ filter (\<lambda>p. n \<le> fst p) (map (apsnd text_files) got)
        = map (apsnd text_files) (map (\<lambda>m. (at, m)) (c_summary c) @ filter (\<lambda>p. n \<le> fst p) got)" for n
      by (simp only: filter_apsnd map_append)
    have f: "e_compaction (text_files e) = Some c" "list_all plain_summary es" using Some Cons.prems by simp_all
    show ?thesis
      unfolding list.map(2) apply_from_marker [OF Some] apply_from_marker [OF f(1)] keep_start_text got
      by (rule Cons.IH [OF f(2)])
  qed
qed simp

lemma applied_text:
  "list_all plain_summary es \<Longrightarrow>
   apply_compactions (map text_files es) model_reads = map text_files (apply_compactions es model_reads)"
  using apply_from_text [of es es 0 "[]"] by (simp add: apply_compactions_def o_def)

text \<open>Without looking into summaries: the same entries by their IDs.\<close>

lemma apply_from_ids:
  "map (apsnd e_id) got' = map (apsnd e_id) got \<Longrightarrow>
   map (apsnd e_id) (apply_from model_reads (map text_files whole) at got' (map text_files es))
     = map (apsnd e_id) (apply_from model_reads whole at got es)"
proof (induction es arbitrary: at got got')
  case (Cons e es)
  show ?case
  proof (cases "e_compaction e")
    case None
    then show ?thesis
      using Cons.prems by (cases "model_reads e") (simp_all, (rule Cons.IH, simp)+)
  next
    case (Some c)
    from Cons.prems have got: "map (apsnd e_id) (map (\<lambda>m. (at, m)) (c_summary c) @ filter (\<lambda>p. n \<le> fst p) got')
        = map (apsnd e_id) (map (\<lambda>m. (at, m)) (c_summary c) @ filter (\<lambda>p. n \<le> fst p) got)" for n
      by (simp only: map_append filter_apsnd [symmetric])
    have f: "e_compaction (text_files e) = Some c" using Some by simp
    show ?thesis
      unfolding list.map(2) apply_from_marker [OF Some] apply_from_marker [OF f] keep_start_text
      by (rule Cons.IH [OF got])
  qed
qed simp

lemma applied_ids:
  "map e_id (apply_compactions (map text_files es) model_reads) = map e_id (apply_compactions es model_reads)"
proof -
  have "map snd (map (apsnd e_id) (apply_from model_reads (map text_files es) 0 [] (map text_files es)))
      = map snd (map (apsnd e_id) (apply_from model_reads es 0 [] es))"
    by (simp only: apply_from_ids [of "[]" "[]"])
  then show ?thesis by (simp add: apply_compactions_def o_def)
qed

section \<open>The context afterwards\<close>

definition file_written :: "writer_caps \<Rightarrow> entry \<Rightarrow> entry" where
  "file_written c e = (if wc_files c then e else text_files e)"

lemma lower_session_entries: "s_entries (lower_session c s) = map (file_written c) (lower_entries c (s_entries s))"
proof (cases "wc_files c")
  case True
  then have "file_written c = (\<lambda>e. e)" by (simp add: file_written_def fun_eq_iff)
  with True show ?thesis by (simp add: lower_session_def Let_def)
next
  case False
  then have "file_written c = text_files" by (simp add: file_written_def fun_eq_iff)
  with False show ?thesis by (simp add: lower_session_def Let_def)
qed

lemma lower_parents:
  assumes "\<forall>e \<in> set es. e_parent e = []" "wc_compaction c \<or> summaries_ok es"
  shows "\<forall>e \<in> set (lower_entries c es). e_parent e = []"
proof (cases "wc_compaction c")
  case True
  with assms(1) show ?thesis by (auto simp: lower_picked picked_def)
next
  case False
  with assms lower_entries_parents show ?thesis by blast
qed

lemma lower_branch:
  assumes "\<forall>e \<in> set (s_entries s). e_parent e = []" "\<not> s_restart s" "wc_compaction c \<or> summaries_ok (s_entries s)"
  shows "on_branch (lower_session c s) = map (file_written c) (lower_entries c (s_entries s))" "on_branch s = s_entries s"
proof -
  have "s_restart (lower_session c s) = s_restart s" by (simp add: lower_session_def Let_def)
  moreover have "\<forall>e \<in> set (s_entries (lower_session c s)). e_parent e = []"
    using lower_parents [OF assms(1,3)] by (auto simp: lower_session_entries file_written_def)
  ultimately show "on_branch (lower_session c s) = map (file_written c) (lower_entries c (s_entries s))"
    using on_branch_list [of "lower_session c s"] assms(2) by (simp add: lower_session_entries)
  show "on_branch s = s_entries s" by (rule on_branch_list [OF assms(2,1)])
qed

text \<open>A text file is written as text where the writer has no files; a summary's own files are left alone.\<close>

definition summaries_plain :: "entry list \<Rightarrow> bool" where
  "summaries_plain es \<longleftrightarrow> list_all plain_summary es"

lemma lowered_summaries:
  assumes "summaries_ok es" "wc_compaction c \<longrightarrow> summaries_plain es"
  shows "list_all plain_summary (lower_entries c es)"
proof (cases "wc_compaction c")
  case True
  with assms(2) show ?thesis
    by (fastforce simp: lower_picked picked_def summaries_plain_def plain_summary_def list_all_iff)
next
  case False
  with applied_plain [OF assms(1)] show ?thesis by (simp add: lower_entries_def list_all_iff plain_summary_def)
qed

lemma carried_context:
  assumes "list_all carried_ok es" "e \<in> set (apply_compactions es model_reads)"
  shows "e_model_content e = None"
  using assms(2,1) unfolding apply_compactions_gather gather_closed
  by (auto simp: carried_ok_def list_all_iff summary_at_def split: option.splits) (metis nth_mem option.inject)+

text \<open>C18. Reducing a portable session, whose compactions' summaries are messages the model reads, to what a
  writer can record keeps what the model is given: with any
  mix of recording compactions, user-only entries and files, the model's context afterwards is its context
  before, entry for entry, with text files written as text exactly when the writer records no files.
  Two conditions, for a writer that records compactions: no \<open>Keep\<close> names an entry the writer leaves out
  (what is lost otherwise is \<open>lower_loses_kept_history\<close>), and, if it records no files, no compaction's
  summary holds a text file, since \<open>Lower\<close> does not look into summaries.\<close>

theorem lower_keeps_context:
  assumes "list_all carried_ok (s_entries s)" "\<not> s_restart s" "summaries_ok (s_entries s)"
    and "wc_compaction c \<longrightarrow> keeps_travel c (s_entries s)"
    and "wc_compaction c \<and> \<not> wc_files c \<longrightarrow> summaries_plain (s_entries s)"
  shows "context_of (lower_session c s) = map (\<lambda>e. if wc_files c then e else text_files e) (context_of s)"
proof -
  have parents: "\<forall>e \<in> set (s_entries s). e_parent e = []" using assms(1) by (auto simp: carried_ok_def list_all_iff)
  note b = lower_branch [OF parents assms(2), of c] assms(3)
  have before: "context_of s = apply_compactions (s_entries s) model_reads"
    using b carried_context [OF assms(1)] by (auto simp: context_of_def raw_context_def as_model_content_def intro!: map_idI)
  have same: "apply_compactions (lower_entries c (s_entries s)) model_reads = apply_compactions (s_entries s) model_reads"
    by (rule lower_entries_applied [OF assms(3,4)])
  have "apply_compactions (map (file_written c) (lower_entries c (s_entries s))) model_reads
      = map (file_written c) (apply_compactions (s_entries s) model_reads)"
  proof (cases "wc_files c")
    case True
    then have "file_written c = (\<lambda>e. e)" by (simp add: file_written_def fun_eq_iff)
    with same show ?thesis by simp
  next
    case False
    then have "file_written c = text_files" by (simp add: file_written_def fun_eq_iff)
    with applied_text [OF lowered_summaries [OF assms(3)]] False assms(5) same show ?thesis by simp
  qed
  then have "context_of (lower_session c s) = map as_model_content (map (file_written c) (context_of s))"
    using b before by (simp add: context_of_def raw_context_def)
  also have "\<dots> = map (file_written c) (context_of s)"
    using carried_context [OF assms(1)] unfolding before
    by (intro map_idI) (auto simp: as_model_content_def file_written_def)
  finally show ?thesis by (simp add: file_written_def)
qed

text \<open>A session with a compaction that keeps from an entry, and a text file of the person's.\<close>

definition kept_session :: "audience \<Rightarrow> unit session" where
  "kept_session a =
     sample_session
       [sample_row ''old'' [], set_audience a (sample_row ''echo'' []), sample_row ''b'' [],
        set_role RoleOpaque (set_compaction (Some (Compaction [sample_row ''sum'' []] ''echo'')) (sample_row ''m'' [])),
        set_content [(empty_block BlockFile)\<lparr>b_name := ''f'', b_media_type := ''text/plain'', b_data := ''x''\<rparr>] (sample_row ''d'' [])] []"

lemmas kept_session_eval =
  kept_session_def sample_session_def sample_row_def keep_index_def summaries_ok_def model_reads_def
  for_model_def keeps_travel_def written_def writer_keeps_def retired_def retired_by_def plain_at_def
  lower_session_def lower_entries_def lower_entry_def nth_Cons' context_of_def raw_context_def
  apply_compactions_def as_model_content_def on_branch_def branch_def scan_session_def

theorem lower_keeps_context_witness:
  "map (map b_text \<circ> e_content) (context_of (lower_session \<lparr>wc_compaction = True, wc_user_only = False, wc_files = False\<rparr>
      (kept_session AudienceAll))) = [[], [], [], [''<file name='' @ [CHR 0x22] @ ''f'' @ [CHR 0x22] @ ''>'' @ [CHR 0x0A] @ ''x'' @ [CHR 0x0A] @ ''</file>'']]"
proof -
  let ?c = "\<lparr>wc_compaction = True, wc_user_only = False, wc_files = False\<rparr>"
  have "context_of (lower_session ?c (kept_session AudienceAll))
      = map (\<lambda>e. if wc_files ?c then e else text_files e) (context_of (kept_session AudienceAll))"
    by (rule lower_keeps_context)
      (simp_all add: kept_session_eval carried_ok_def summaries_plain_def plain_summary_def text_files_def)
  then show ?thesis by (simp add: kept_session_eval text_files_def as_text_def empty_block_def Let_def has_prefix_def byte_def)
qed

section \<open>What is lost\<close>

lemma retired_before:
  assumes "list_all (\<lambda>e. e_compaction e = None) post" "length pre < i"
  shows "i \<notin> set (retired (pre @ m # post))"
proof
  let ?es = "pre @ m # post"
  assume "i \<in> set (retired ?es)"
  then have "\<exists>at \<in> set [0..<length ?es]. i \<in> set (retired_by ?es at)" unfolding retired_def by (simp del: set_upt upt_Suc)
  then obtain at where at: "at < length ?es" "i \<in> set (retired_by ?es at)" by (auto simp del: upt_Suc)
  then have "e_compaction (?es ! at) \<noteq> None" by (cases "e_compaction (?es ! at)") (simp_all add: retired_by_def)
  then obtain c where c: "e_compaction (?es ! at) = Some c" by (cases "e_compaction (?es ! at)") simp_all
  have "i < (case keep_index c (take at ?es) of None \<Rightarrow> at | Some k \<Rightarrow> k)"
    using at(2) c by (simp add: retired_by_def Let_def)
  also have "\<dots> \<le> at" using keep_index_bound [of c "take at ?es"] by (auto split: option.split)
  finally have "length pre < at" using assms(2) by simp
  then obtain j where j: "at = Suc (length pre + j)" using less_iff_Suc_add by blast
  with at(1) have "?es ! at \<in> set post" by (simp add: nth_append)
  with assms(1) c show False by (simp add: list_all_iff)
qed

text \<open>What the writer is handed around the last compaction: the written entries before it, the compaction, the
  entries after it that the writer keeps.\<close>

lemma lower_around_last:
  assumes "wc_compaction c" "\<not> wc_user_only c" "e_compaction m = Some k" "list_all (\<lambda>e. e_compaction e = None) post"
    and es: "es = pre @ m # post"
  shows "lower_entries c es = picked (written c es) (all_lowered c es) (length pre) @ m # filter (writer_keeps c) post"
proof -
  let ?w = "written c es" and ?L = "all_lowered c es" and ?n = "length pre"
  have ups: "[0..<length es] = [0..<?n] @ ?n # [Suc ?n..<length es]"
    using upt_split [of 0 ?n "length es"] upt_conv_Cons [of ?n "length es"] by (simp add: es)
  have m: "?w ?n" "?L ! ?n = m" using assms(3) by (simp_all add: written_def plain_at_def es lowered_def)
  have w: "?w i \<longleftrightarrow> writer_keeps c (es ! i)" and l: "writer_keeps c (es ! i) \<Longrightarrow> ?L ! i = es ! i"
    if "i \<in> set [Suc ?n..<length es]" for i
  proof -
    from that have i: "length pre < i" "i < length es" by simp_all
    then have "e_compaction (es ! i) = None" using assms(4) by (auto simp: es nth_append nth_Cons' list_all_iff)
    with retired_before [OF assms(4) i(1), of m] show "?w i \<longleftrightarrow> writer_keeps c (es ! i)"
      by (simp add: written_def plain_at_def es)
    from i show "writer_keeps c (es ! i) \<Longrightarrow> ?L ! i = es ! i" by (simp add: lowered_def)
  qed
  have "filter ?w [Suc ?n..<length es] = filter (\<lambda>i. writer_keeps c (es ! i)) [Suc ?n..<length es]"
    using w by (intro filter_cong) simp_all
  then have "map ((!) ?L) (filter ?w [Suc ?n..<length es]) = map ((!) es) (filter (\<lambda>i. writer_keeps c (es ! i)) [Suc ?n..<length es])"
    using l by (intro map_cong) auto
  also have "\<dots> = filter (writer_keeps c) (map ((!) es) [Suc ?n..<length es])" by (simp add: filter_map o_def)
  also have "map ((!) es) [Suc ?n..<length es] = post"
    by (rule nth_equalityI) (simp_all add: es nth_append del: upt_Suc)
  finally show ?thesis
    unfolding lower_picked [OF assms(1)] picked_def ups using m by simp
qed

lemma map_ids_context: "map e_id (context_of s) = map e_id (raw_context s)"
  by (simp add: context_of_def as_model_content_def split: option.split)

text \<open>C39. The condition on \<open>Keep\<close> is needed, and this is what it guards. Take any session whose last
  compaction keeps from an entry that a writer with compactions and without user-only entries leaves out
  (one only the person sees, a slash command's echo, say). The model had the compaction's summary, all it
  kept and what came after; from what the writer is handed it has the summary and what came after:
  every entry the compaction kept is gone.\<close>

theorem lower_loses_kept_history:
  assumes "s_entries s = pre @ m # post" "\<forall>e \<in> set (s_entries s). e_parent e = []" "\<not> s_restart s"
    and "e_compaction m = Some k" "list_all (\<lambda>e. e_compaction e = None) post"
    and "keep_index k pre = Some j" "list_all (\<lambda>e. e_compaction e = None) (drop j pre)"
    and "wc_compaction c" "\<not> wc_user_only c"
    and "\<forall>i < length pre. e_id (pre ! i) = c_keep k \<longrightarrow> \<not> written c (s_entries s) i"
  shows "map e_id (context_of s) = map e_id (c_summary k @ filter model_reads (drop j pre) @ filter model_reads post)
    \<and> map e_id (context_of (lower_session c s)) = map e_id (c_summary k @ filter model_reads post)"
proof -
  let ?es = "s_entries s"
  note b = lower_branch [OF assms(2,3), of c] assms(8)
  have "apply_compactions ?es model_reads = c_summary k @ filter model_reads (drop j pre) @ filter model_reads post"
    using apply_last [OF assms(4,5), of pre model_reads] assms(1,6,7) by simp
  then have before: "map e_id (context_of s) = map e_id (c_summary k @ filter model_reads (drop j pre) @ filter model_reads post)"
    using b by (simp add: map_ids_context raw_context_def)
  define pre' where "pre' = picked (written c ?es) (all_lowered c ?es) (length pre)"
  have l: "lower_entries c ?es = pre' @ m # filter (writer_keeps c) post"
    unfolding pre'_def by (rule lower_around_last [OF assms(8,9,4,5,1)])
  have "e_id e \<noteq> c_keep k" if "e \<in> set pre'" for e
    using that assms(1,10) by (auto simp: pre'_def picked_def nth_append)
  then have none: "keep_index k pre' = None" by (simp add: keep_index_def index_of_None)
  have plain: "list_all (\<lambda>e. e_compaction e = None) (filter (writer_keeps c) post)" using assms(5) by (simp add: list_all_iff)
  have "filter model_reads (filter (writer_keeps c) post) = filter model_reads post"
    by (auto simp: writer_keeps_def model_reads_def intro: filter_cong)
  with apply_last [OF assms(4) plain, of pre' model_reads] none
  have "apply_compactions (lower_entries c ?es) model_reads = c_summary k @ filter model_reads post" by (simp add: l)
  moreover have "map e_id (apply_compactions (map (file_written c) xs) model_reads) = map e_id (apply_compactions xs model_reads)" for xs
  proof (cases "wc_files c")
    case True
    then have "file_written c = (\<lambda>e. e)" by (simp add: file_written_def fun_eq_iff)
    then show ?thesis by simp
  next
    case False
    then have "file_written c = text_files" by (simp add: file_written_def fun_eq_iff)
    then show ?thesis by (simp add: applied_ids)
  qed
  ultimately have "map e_id (context_of (lower_session c s)) = map e_id (c_summary k @ filter model_reads post)"
    using b by (simp add: map_ids_context raw_context_def)
  with before show ?thesis by blast
qed

theorem lower_loses_kept_history_witness:
  "map e_id (context_of (kept_session AudienceUser)) = [''sum'', ''b'', ''d'']
   \<and> map e_id (context_of (lower_session \<lparr>wc_compaction = True, wc_user_only = False, wc_files = False\<rparr> (kept_session AudienceUser)))
       = [''sum'', ''d'']"
proof -
  let ?s = "kept_session AudienceUser" and ?k = "Compaction [sample_row ''sum'' []] ''echo''"
  let ?c = "\<lparr>wc_compaction = True, wc_user_only = False, wc_files = False\<rparr>"
  let ?pre = "take 3 (s_entries ?s)" and ?m = "s_entries ?s ! 3" and ?post = "drop 4 (s_entries ?s)"
  have "map e_id (context_of ?s) = map e_id (c_summary ?k @ filter model_reads (drop 1 ?pre) @ filter model_reads ?post)
    \<and> map e_id (context_of (lower_session ?c ?s)) = map e_id (c_summary ?k @ filter model_reads ?post)"
    by (rule lower_loses_kept_history [where m = ?m])
      (simp_all add: kept_session_eval numeral_3_eq_3 less_Suc_eq)
  then show ?thesis by (simp add: kept_session_def sample_session_def sample_row_def model_reads_def for_model_def)
qed

end
