(* ===== verification/Event_Payloads.thy ===== *)
theory Event_Payloads
  imports Acp_Session
begin

text \<open>
  What is put into an event comes out of it (\<open>NewEvent\<close> and \<open>PayloadAs\<close>, \<open>model/event_payload.go\<close>), for
  every payload the model has: the locale \<open>payload_codec\<close> of \<open>Agent_Events\<close> for the payloads whose
  writers and readers stand in different theories, and the property over all of them.
\<close>

section \<open>Approvals\<close>

definition input_form_ok :: "input_form option \<Rightarrow> bool" where
  "input_form_ok f \<longleftrightarrow>
     (case f of None \<Rightarrow> True
      | Some g \<Rightarrow> valid_utf8 (if_message g) \<and> (case if_schema g of None \<Rightarrow> False | Some j \<Rightarrow> json_ok j))"

definition approval_required_ok :: "approval_required_payload \<Rightarrow> bool" where
  "approval_required_ok p \<longleftrightarrow>
     valid_utf8 (apr_tool_invocation_id p) \<and> valid_utf8 (apr_tool_name p) \<and> sem_ok (apr_arguments p)
     \<and> valid_utf8 (apr_reason p) \<and> input_form_ok (apr_input p) \<and> valid_utf8 (apr_subagent_id p)"

lemma input_form_written:
  "input_form_ok (Some f) \<Longrightarrow> \<exists>ms. input_form_json f = JObj ms \<and> input_form_read ms None = Some f"
  by (cases f) (auto simp: input_form_ok_def input_form_json_def input_form_read_def field_writers field_eval Let_def split: option.splits)

lemma input_form_json_ok: "input_form_ok (Some f) \<Longrightarrow> json_ok (input_form_json f)"
  by (cases f) (auto simp: input_form_ok_def input_form_json_def field_writers byte_def split: option.splits)

interpretation approval_required_codec:
  payload_codec approval_required_json approval_required_read no_approval_required approval_required_ok
proof
  fix p
  assume ok: "approval_required_ok p"
  then show "json_ok (JObj (approval_required_json p))"
    by (auto simp: approval_required_ok_def approval_required_json_def field_writers omit_map_def sem_ok_def byte_def input_form_json_ok
        split: option.splits)
  obtain i n a r f s where p: "p = \<lparr>apr_tool_invocation_id = i, apr_tool_name = n, apr_arguments = a, apr_reason = r,
      apr_input = f, apr_subagent_id = s\<rparr>" by (cases p)
  with ok have "input_form_ok f" "sem_ok a" by (simp_all add: approval_required_ok_def)
  note o' = this
  show "approval_required_read (approval_required_json p) no_approval_required = Some p"
  proof (cases f)
    case None
    with o' p show ?thesis
      by (simp add: approval_required_read_def approval_required_json_def no_approval_required_def field_writers omit_map_def field_eval)
  next
    case (Some g)
    with o' obtain ms where "input_form_json g = JObj ms" "input_form_read ms None = Some g" using input_form_written by blast
    with Some o' p show ?thesis
      by (simp add: approval_required_read_def approval_required_json_def no_approval_required_def field_writers omit_map_def field_eval)
  qed
qed

section \<open>The context's fill\<close>

record context_updated_payload =
  cup_used_tokens :: int
  cup_max_tokens :: int

definition context_updated_written :: "context_updated_payload \<Rightarrow> (string \<times> json) list" where
  "context_updated_written p = context_updated_json (cup_used_tokens p) (cup_max_tokens p)"

definition context_updated_read :: "(string \<times> json) list \<Rightarrow> context_updated_payload \<Rightarrow> context_updated_payload option" where
  "context_updated_read kvs p =
     (case (field conv_int ''used_tokens'' kvs (cup_used_tokens p), field conv_int ''max_tokens'' kvs (cup_max_tokens p)) of
        (Some u, Some m) \<Rightarrow> Some \<lparr>cup_used_tokens = u, cup_max_tokens = m\<rparr>
      | _ \<Rightarrow> None)"

definition no_context_updated :: context_updated_payload where
  "no_context_updated = \<lparr>cup_used_tokens = 0, cup_max_tokens = 0\<rparr>"

definition context_updated_ok :: "context_updated_payload \<Rightarrow> bool" where
  "context_updated_ok p \<longleftrightarrow> int64_ok (cup_used_tokens p) \<and> int64_ok (cup_max_tokens p)"

interpretation context_updated_codec: payload_codec context_updated_written context_updated_read no_context_updated context_updated_ok
  by unfold_locales
    (auto simp: context_updated_ok_def context_updated_written_def context_updated_json_def context_updated_read_def
      no_context_updated_def field_writers field_eval byte_def)

section \<open>Every payload\<close>

lemmas payloads_back =
  run_started_codec.payload_back
  run_state_changed_codec.payload_back
  turn_started_codec.payload_back
  turn_completed_codec.payload_back
  content_delta_codec.payload_back
  tool_started_codec.payload_back
  tool_completed_codec.payload_back
  approval_required_codec.payload_back
  approval_resolved_codec.payload_back
  hook_executed_codec.payload_back
  context_updated_codec.payload_back
  context_compacted_codec.payload_back
  error_payload_codec.payload_back

text \<open>C28. What is put into an event comes out of it, for each of the thirteen kinds of payload that the model
  has (run started and changed, turn started and completed, content delta, tool started and completed,
  approval required and resolved, hook, context updated and compacted, error; not usage, limits and
  account, which hold floating point numbers or no state of a session, nor background and subagent
  reports): an event made from one and asked for that kind gives the payload back, field for field, and
  asked for another kind of event gives nothing.\<close>

theorem payload_roundtrip:
  assumes "run_started_ok p0"
    and "run_state_changed_ok p1"
    and "turn_started_ok p2"
    and "turn_completed_ok p3"
    and "content_delta_ok p4"
    and "tool_started_ok p5"
    and "tool_completed_ok p6"
    and "approval_required_ok p7"
    and "approval_resolved_ok p8"
    and "hook_executed_ok p9"
    and "context_updated_ok p10"
    and "context_compacted_ok p11"
    and "error_payload_ok p12"
  shows "payload_as run_started_read no_run_started (new_event EvRunStarted run chat now (Some (JObj (run_started_json p0)))) EvRunStarted = Some p0
    \<and> payload_as run_state_changed_read no_state_change (new_event EvRunStateChanged run chat now (Some (JObj (run_state_changed_json p1)))) EvRunStateChanged = Some p1
    \<and> payload_as turn_started_read no_turn_started (new_event EvTurnStarted run chat now (Some (JObj (turn_started_json p2)))) EvTurnStarted = Some p2
    \<and> payload_as turn_completed_read no_turn_completed (new_event EvTurnCompleted run chat now (Some (JObj (turn_completed_json p3)))) EvTurnCompleted = Some p3
    \<and> payload_as content_delta_read no_content_delta (new_event EvContentDelta run chat now (Some (JObj (content_delta_json p4)))) EvContentDelta = Some p4
    \<and> payload_as tool_started_read no_tool_started (new_event EvToolStarted run chat now (Some (JObj (tool_started_json p5)))) EvToolStarted = Some p5
    \<and> payload_as tool_completed_read no_tool_completed (new_event EvToolCompleted run chat now (Some (JObj (tool_completed_json p6)))) EvToolCompleted = Some p6
    \<and> payload_as approval_required_read no_approval_required (new_event EvApprovalRequired run chat now (Some (JObj (approval_required_json p7)))) EvApprovalRequired = Some p7
    \<and> payload_as approval_resolved_read no_approval_resolved (new_event EvApprovalResolved run chat now (Some (JObj (approval_resolved_json p8)))) EvApprovalResolved = Some p8
    \<and> payload_as hook_executed_read no_hook_executed (new_event EvHookExecuted run chat now (Some (JObj (hook_executed_json p9)))) EvHookExecuted = Some p9
    \<and> payload_as context_updated_read no_context_updated (new_event EvContextUpdated run chat now (Some (JObj (context_updated_written p10)))) EvContextUpdated = Some p10
    \<and> payload_as context_compacted_read no_context_compacted (new_event EvContextCompacted run chat now (Some (JObj (context_compacted_json p11)))) EvContextCompacted = Some p11
    \<and> payload_as error_payload_read no_error_payload (new_event EvError run chat now (Some (JObj (error_payload_json p12)))) EvError = Some p12
    \<and> (typ = want \<or> payload_as rd zero (new_event typ run chat now payload) want = None)"
  using assms by (simp add: payloads_back) (simp add: payload_as_def new_event_def)

definition sample_approval :: approval_required_payload where
  "sample_approval =
     \<lparr>apr_tool_invocation_id = ''t1'', apr_tool_name = ''Ask'', apr_arguments = [(''q'', JStr ''a'')], apr_reason = ''input'',
      apr_input = Some \<lparr>if_message = ''m'', if_schema = Some (JObj [(''type'', JStr ''object'')])\<rparr>, apr_subagent_id = []\<rparr>"

lemma sample_payloads_ok:
  "approval_required_ok sample_approval" "run_state_changed_ok \<lparr>rsc_from_state = Working, rsc_to_state = Completed, rsc_error = []\<rparr>"
  "context_updated_ok no_context_updated"
  by (simp_all add: approval_required_ok_def sample_approval_def sem_ok_def input_form_ok_def byte_def run_state_changed_ok_def
      run_state_known_def context_updated_ok_def no_context_updated_def)

theorem payload_roundtrip_witness:
  "payload_as approval_required_read no_approval_required
     (new_event EvApprovalRequired ''r'' ''c'' 0 (Some (JObj (approval_required_json sample_approval)))) EvApprovalRequired = Some sample_approval"
  by (rule payload_roundtrip [where rd = approval_required_read and zero = no_approval_required, OF no_payloads_ok(1)
      sample_payloads_ok(2) no_payloads_ok(2-4) sample_tool_started_ok no_payloads_ok(5) sample_payloads_ok(1) no_payloads_ok(6,7)
      sample_payloads_ok(3) no_payloads_ok(8,9), THEN conjunct2, THEN conjunct2, THEN conjunct2, THEN conjunct2, THEN conjunct2,
      THEN conjunct2, THEN conjunct2, THEN conjunct1])

end
